(* ===== verification/Prelude.thy ===== *)
theory Prelude
  imports Main "HOL-Library.Word" "HOL-Library.List_Lexorder" "HOL-Library.Char_ord"
    "HOL-Library.Multiset" "HOL-Library.State_Monad" "HOL-Library.Sublist"
begin

section \<open>Types, ordered maps and sorting shared by every component\<close>

text \<open>
  The vocabulary of \<^verbatim>\<open>include/servingobs/core/types.hpp\<close>: fixed-width integers, byte
  strings, \<^verbatim>\<open>Result<T>\<close> and \<^verbatim>\<open>trim\<close>; decimal printing (\<^verbatim>\<open>std::to_string\<close>);
  \<^verbatim>\<open>std::map\<close> as a strictly ascending association list, with its interface as the
  locale \<open>map_store\<close>; \<^verbatim>\<open>std::sort\<close> with a comparator, with the contract a
  comparator owes as the locale \<open>sort_order\<close>.
\<close>

unbundle bit_operations_syntax

named_theorems codec_intros \<open>compositional rules for encoders and decoders\<close>
named_theorems inert_intros \<open>operations that leave a failed reader alone\<close>
named_theorems defaults \<open>definitions of default-initialised records\<close>

subsection \<open>Integers, bytes and results\<close>

type_synonym u8 = "8 word"
type_synonym u16 = "16 word"
type_synonym u32 = "32 word"
type_synonym u64 = "64 word"
type_synonym i32 = "32 word" \<comment> \<open>two's complement, read with \<open>sint\<close>\<close>
type_synonym i64 = "64 word" \<comment> \<open>two's complement, read with \<open>sint\<close>\<close>
type_synonym f32 = "32 word" \<comment> \<open>the IEEE-754 binary32 bit pattern\<close>
type_synonym f64 = "64 word" \<comment> \<open>the IEEE-754 binary64 bit pattern\<close>
type_synonym bytes = "8 word list"

text \<open>\<^verbatim>\<open>Result<T>\<close>: a value, or an error message.\<close>

type_synonym 'a result = "string + 'a"

abbreviation Err :: "string \<Rightarrow> 'a result" where "Err \<equiv> Inl"
abbreviation Ok :: "'a \<Rightarrow> 'a result" where "Ok \<equiv> Inr"

text \<open>A \<^verbatim>\<open>std::string\<close> holds bytes; HOL's \<open>char\<close> is a byte as well.\<close>

definition char_byte :: "char \<Rightarrow> u8" where
  "char_byte c = of_char c"

definition byte_char :: "u8 \<Rightarrow> char" where
  "byte_char b = char_of (unat b)"

definition str_bytes :: "string \<Rightarrow> bytes" where
  "str_bytes s = map char_byte s"

definition bytes_str :: "bytes \<Rightarrow> string" where
  "bytes_str b = map byte_char b"

lemma byte_char_byte [simp]: "byte_char (char_byte c) = c"
proof -
  have "(of_char c :: u8) = of_nat (of_char c)"
    by (simp add: of_nat_of_char)
  then have "unat (of_char c :: u8) = of_char c"
    by (simp add: unat_of_nat)
  then show ?thesis by (simp add: byte_char_def char_byte_def)
qed

lemma char_byte_char [simp]: "char_byte (byte_char b) = b"
proof -
  have "(of_char (char_of (unat b)) :: u8) = of_nat (of_char (char_of (unat b)))"
    by (simp only: of_nat_of_char)
  also have "\<dots> = b"
  proof -
    have "unat b < 2 ^ LENGTH(8)" by (rule unsigned_less)
    then show ?thesis by simp
  qed
  finally show ?thesis by (simp add: byte_char_def char_byte_def)
qed

lemma bytes_str_bytes [simp]: "bytes_str (str_bytes s) = s"
  by (simp add: bytes_str_def str_bytes_def comp_def)

lemma str_bytes_str [simp]: "str_bytes (bytes_str b) = b"
  by (simp add: bytes_str_def str_bytes_def comp_def)

lemma length_str_bytes [simp]: "length (str_bytes s) = length s"
  by (simp add: str_bytes_def)

lemma strict_prefix_appendE:
  assumes "strict_prefix p (bs @ cs)"
  obtains "strict_prefix p bs" | q where "p = bs @ q" "strict_prefix q cs"
proof -
  from assms have pre: "prefix p (bs @ cs)" and ne: "p \<noteq> bs @ cs"
    by (auto simp: strict_prefix_def)
  from pre consider "prefix p bs" | us where "p = bs @ us" "prefix us cs"
    by (auto simp: prefix_append)
  then show thesis
  proof cases
    case 1
    show thesis
    proof (cases "p = bs")
      case True
      then show thesis using ne that(2) [of "[]"] by (simp add: strict_prefix_def)
    next
      case False
      then show thesis using 1 that(1) by (simp add: strict_prefix_def)
    qed
  next
    case 2
    then show thesis using ne that(2) [of us] by (simp add: strict_prefix_def)
  qed
qed

subsection \<open>Strings\<close>

text \<open>\<^verbatim>\<open>trim\<close> of \<^verbatim>\<open>src/core.cpp\<close>: both loops strip blanks from one end.\<close>

definition is_blank :: "char \<Rightarrow> bool" where
  "is_blank c = (c = CHR '' '' \<or> c = CHR 0x09 \<or> c = CHR 0x0D \<or> c = CHR 0x0A)"

definition trim :: "string \<Rightarrow> string" where
  "trim s = rev (dropWhile is_blank (rev (dropWhile is_blank s)))"

lemma trim_id:
  assumes "\<forall>c \<in> set s. \<not> is_blank c"
  shows "trim s = s"
proof -
  have "dropWhile is_blank t = t" if "set t \<subseteq> set s" for t
    using that assms by (cases t) auto
  then show ?thesis by (simp add: trim_def)
qed

text \<open>\<^verbatim>\<open>std::to_string\<close> on unsigned and signed integers.\<close>

fun dec_string :: "nat \<Rightarrow> string" where
  "dec_string n =
     (if n < 10 then [char_of (48 + n)]
      else dec_string (n div 10) @ [char_of (48 + n mod 10)])"

declare dec_string.simps [simp del]

definition to_string_int :: "int \<Rightarrow> string" where
  "to_string_int i = (if i < 0 then ''-'' @ dec_string (nat (- i)) else dec_string (nat i))"

definition to_string_word :: "'w::len word \<Rightarrow> string" where
  "to_string_word w = dec_string (unat w)"

subsection \<open>std::map: strictly ascending association lists\<close>

text \<open>
  Iteration over a \<^verbatim>\<open>std::map\<close> visits the keys in ascending order, and the codecs and
  digests depend on it, so the model keeps the order: \<open>m[k] = v\<close> is \<open>omap_set\<close>,
  \<open>emplace\<close> keeps an entry that is there, \<open>find\<close> is \<open>map_of\<close>.
\<close>

type_synonym ('k, 'v) omap = "('k \<times> 'v) list"

fun omap_set :: "'k::linorder \<Rightarrow> 'v \<Rightarrow> ('k, 'v) omap \<Rightarrow> ('k, 'v) omap" where
  "omap_set key val [] = [(key, val)]"
| "omap_set key val (e # es) =
     (if key = fst e then (key, val) # es
      else if key < fst e then (key, val) # e # es
      else e # omap_set key val es)"

definition omap_emplace :: "'k::linorder \<Rightarrow> 'v \<Rightarrow> ('k, 'v) omap \<Rightarrow> ('k, 'v) omap" where
  "omap_emplace key val m = (if map_of m key = None then omap_set key val m else m)"

definition omap_ok :: "('k::linorder, 'v) omap \<Rightarrow> bool" where
  "omap_ok m = sorted_wrt (<) (map fst m)"

lemma omap_ok_Nil [simp]: "omap_ok []"
  by (simp add: omap_ok_def)

lemma omap_ok_Cons [simp]:
  "omap_ok (e # m) \<longleftrightarrow> (\<forall>k \<in> fst ` set m. fst e < k) \<and> omap_ok m"
  by (auto simp: omap_ok_def)

lemma fst_set_omap_set: "fst ` set (omap_set k v m) = insert k (fst ` set m)"
  by (induction m) auto

lemma omap_ok_set [simp]: "omap_ok m \<Longrightarrow> omap_ok (omap_set k v m)"
  by (induction m) (auto simp: fst_set_omap_set)

lemma omap_ok_distinct: "omap_ok m \<Longrightarrow> distinct (map fst m)"
  by (auto simp: omap_ok_def strict_sorted_iff)

lemma map_of_omap_set [simp]: "map_of (omap_set k v m) = (map_of m)(k \<mapsto> v)"
  by (induction m) (auto simp: fun_eq_iff)

lemma omap_ok_emplace [simp]: "omap_ok m \<Longrightarrow> omap_ok (omap_emplace k v m)"
  by (simp add: omap_emplace_def)

text \<open>A key above every key of the map is appended: reading a map in order rebuilds it.\<close>

lemma omap_set_append:
  "\<forall>k' \<in> fst ` set m. k' < k \<Longrightarrow> omap_set k v m = m @ [(k, v)]"
  by (induction m) auto

lemma omap_emplace_append:
  assumes "\<forall>k' \<in> fst ` set m. k' < k"
  shows "omap_emplace k v m = m @ [(k, v)]"
proof -
  have "map_of m k = None"
    using assms by (auto simp: map_of_eq_None_iff)
  then show ?thesis
    using assms by (simp add: omap_emplace_def omap_set_append)
qed

lemma omap_ok_snocD:
  "omap_ok (m @ [(k, v)]) \<Longrightarrow> (\<forall>k' \<in> fst ` set m. k' < k) \<and> omap_ok m"
  by (auto simp: omap_ok_def sorted_wrt_append)

lemma omap_ok_appendD: "omap_ok (m @ n) \<Longrightarrow> omap_ok m \<and> omap_ok n"
  by (auto simp: omap_ok_def sorted_wrt_append)

lemma set_omap_set:
  assumes "omap_ok m"
  shows "set (omap_set k v m) = insert (k, v) {e \<in> set m. fst e \<noteq> k}"
  using assms by (induction m) force+

lemma set_omap_set_fresh:
  assumes "omap_ok m" and "map_of m k = None"
  shows "set (omap_set k v m) = insert (k, v) (set m)"
  using assms(2) by (auto simp: set_omap_set [OF assms(1)] map_of_eq_None_iff image_iff)

lemma length_omap_set:
  "length (omap_set k v m) \<le> Suc (length m)"
  by (induction m) auto

lemma length_omap_set_fresh:
  "map_of m k = None \<Longrightarrow> length (omap_set k v m) = Suc (length m)"
  by (induction m) (auto split: if_splits)

lemma length_omap_set_old:
  assumes "omap_ok m" and "map_of m k = Some x"
  shows "length (omap_set k v m) = length m"
  using assms
proof (induction m)
  case (Cons e m)
  then show ?case
    by (cases "k = fst e") (auto dest: map_of_SomeD simp: image_iff, fastforce dest: map_of_SomeD)
qed simp

text \<open>What a client may rely on, whatever the representation.\<close>

locale map_store =
  fixes empty :: "'m"
    and lookup :: "'m \<Rightarrow> 'k \<Rightarrow> 'v option"
    and put :: "'k \<Rightarrow> 'v \<Rightarrow> 'm \<Rightarrow> 'm"
    and valid :: "'m \<Rightarrow> bool"
  assumes valid_empty: "valid empty"
    and lookup_empty: "lookup empty k = None"
    and valid_put: "valid m \<Longrightarrow> valid (put k v m)"
    and lookup_put: "valid m \<Longrightarrow> lookup (put k v m) k' = (if k' = k then Some v else lookup m k')"
begin

lemma lookup_put_same: "valid m \<Longrightarrow> lookup (put k v m) k = Some v"
  by (simp add: lookup_put)

lemma lookup_put_other: "valid m \<Longrightarrow> k' \<noteq> k \<Longrightarrow> lookup (put k v m) k' = lookup m k'"
  by (simp add: lookup_put)

lemma valid_fold: "valid m \<Longrightarrow> valid (fold (\<lambda>(k, v). put k v) kvs m)"
  by (induction kvs arbitrary: m) (auto simp: valid_put)

lemma lookup_fold:
  "valid m \<Longrightarrow> distinct (map fst kvs) \<Longrightarrow>
     lookup (fold (\<lambda>(k, v). put k v) kvs m) k =
       (case map_of kvs k of None \<Rightarrow> lookup m k | Some v \<Rightarrow> Some v)"
proof (induction kvs arbitrary: m)
  case (Cons kv kvs)
  obtain k' v where kv: "kv = (k', v)" by (cases kv)
  have "map_of kvs k' = None"
    using Cons.prems(2) by (simp add: kv map_of_eq_None_iff)
  then show ?case
    using Cons.IH [of "put k' v m"] Cons.prems
    by (auto simp: kv valid_put lookup_put split: option.splits)
qed simp

end

interpretation omap: map_store "[]" map_of omap_set omap_ok
  by unfold_locales auto

text \<open>Two valid maps with the same lookups are the same list.\<close>

lemma omap_eqI:
  assumes "omap_ok m" "omap_ok n" "map_of m = map_of n"
  shows "m = n"
proof -
  have sets: "set m = set n"
    by (metis assms map_of_inject_set omap_ok_distinct)
  have srt: "sorted_wrt (\<lambda>a b. fst a < fst b) m" "sorted_wrt (\<lambda>a b. fst a < fst b) n"
    using assms(1,2) by (simp_all add: omap_ok_def sorted_wrt_map)
  have "sorted_wrt (<) (map fst m)" "sorted_wrt (<) (map fst n)"
    using assms(1,2) by (simp_all add: omap_ok_def)
  then have keys: "map fst m = map fst n"
    using sets by (metis list.set_map strict_sorted_equal)
  then show ?thesis
    using assms(3) omap_ok_distinct [OF assms(1)] omap_ok_distinct [OF assms(2)]
    by (metis map_fst_zip_take map_of_eqI map_of_zip_inject sets srt
          map_snd_zip zip_map_fst_snd length_map)
qed

subsection \<open>std::sort with a comparator\<close>

text \<open>
  \<^verbatim>\<open>std::sort\<close> returns some permutation of its input in which no element is less than
  one before it. The model sorts by insertion, one such permutation; \<open>sort_unique\<close> says
  when it is the only one: where the comparator separates the elements.
\<close>

fun sort_insert :: "('a \<Rightarrow> 'a \<Rightarrow> bool) \<Rightarrow> 'a \<Rightarrow> 'a list \<Rightarrow> 'a list" where
  "sort_insert lt x [] = [x]"
| "sort_insert lt x (y # ys) = (if lt y x then y # sort_insert lt x ys else x # y # ys)"

definition cpp_sort :: "('a \<Rightarrow> 'a \<Rightarrow> bool) \<Rightarrow> 'a list \<Rightarrow> 'a list" where
  "cpp_sort lt xs = foldr (sort_insert lt) xs []"

lemma cpp_sort_simps [simp]:
  "cpp_sort lt [] = []"
  "cpp_sort lt (x # xs) = sort_insert lt x (cpp_sort lt xs)"
  by (simp_all add: cpp_sort_def)

lemma mset_sort_insert [simp]: "mset (sort_insert lt x xs) = add_mset x (mset xs)"
  by (induction xs) auto

lemma mset_cpp_sort [simp]: "mset (cpp_sort lt xs) = mset xs"
  by (induction xs) auto

lemma set_cpp_sort [simp]: "set (cpp_sort lt xs) = set xs"
  by (metis mset_cpp_sort set_mset_mset)

lemma length_cpp_sort [simp]: "length (cpp_sort lt xs) = length xs"
  by (metis mset_cpp_sort size_mset)

lemma cpp_sort_eq_Nil [simp]: "cpp_sort lt xs = [] \<longleftrightarrow> xs = []"
  by (metis length_0_conv length_cpp_sort)

definition sorted_by :: "('a \<Rightarrow> 'a \<Rightarrow> bool) \<Rightarrow> 'a list \<Rightarrow> bool" where
  "sorted_by lt xs = sorted_wrt (\<lambda>a b. \<not> lt b a) xs"

definition separates :: "('a \<Rightarrow> 'a \<Rightarrow> bool) \<Rightarrow> 'a set \<Rightarrow> bool" where
  "separates lt A = (\<forall>a \<in> A. \<forall>b \<in> A. a \<noteq> b \<longrightarrow> lt a b \<or> lt b a)"

locale sort_order =
  fixes lt :: "'a \<Rightarrow> 'a \<Rightarrow> bool"
  assumes irrefl: "\<not> lt a a"
    and trans: "lt a b \<Longrightarrow> lt b c \<Longrightarrow> lt a c"
    and cotrans: "lt a c \<Longrightarrow> lt a b \<or> lt b c"
begin

lemma asym: "lt a b \<Longrightarrow> \<not> lt b a"
  using irrefl trans by blast

lemma sort_insert_sorted:
  "sorted_by lt xs \<Longrightarrow> sorted_by lt (sort_insert lt x xs)"
proof (induction xs)
  case (Cons y ys)
  have set_ins: "set (sort_insert lt x ys) = insert x (set ys)"
    by (metis mset_sort_insert set_mset_add_mset_insert set_mset_mset)
  show ?case
  proof (cases "lt y x")
    case True
    then show ?thesis
      using Cons by (auto simp: sorted_by_def set_ins dest: asym)
  next
    case False
    then show ?thesis
      using Cons.prems cotrans by (auto simp: sorted_by_def)
  qed
qed (simp add: sorted_by_def)

lemma sort_sorted: "sorted_by lt (cpp_sort lt xs)"
  by (induction xs) (auto simp: sort_insert_sorted, simp add: sorted_by_def)

lemma sorted_unique:
  assumes "mset xs = mset ys" "sorted_by lt xs" "sorted_by lt ys" "separates lt (set xs)"
  shows "xs = ys"
  using assms
proof (induction xs arbitrary: ys)
  case (Cons x xs)
  obtain y ys' where ys: "ys = y # ys'"
    using Cons.prems(1) by (cases ys) auto
  have "x = y"
  proof (rule ccontr)
    assume "x \<noteq> y"
    then have "x \<in> set ys'" "y \<in> set xs"
      using Cons.prems(1) ys
      by (metis insert_iff list.simps(15) mset_eq_setD, metis insert_iff list.simps(15) mset_eq_setD)
    then show False
      using Cons.prems(2,3,4) ys \<open>x \<noteq> y\<close> by (fastforce simp: sorted_by_def separates_def)
  qed
  then show ?case
    using Cons.IH [of ys'] Cons.prems ys by (auto simp: sorted_by_def separates_def)
qed simp

lemma sort_unique:
  assumes "mset xs = mset ys" "sorted_by lt ys" "separates lt (set xs)"
  shows "cpp_sort lt xs = ys"
  using sorted_unique [of "cpp_sort lt xs" ys] assms by (simp add: sort_sorted)

lemma sort_permutation:
  assumes "mset xs = mset ys" "separates lt (set xs)"
  shows "cpp_sort lt xs = cpp_sort lt ys"
  using sort_unique [of xs "cpp_sort lt ys"] assms by (simp add: sort_sorted)

end

end
