(* ===== verification/Identity.thy ===== *)
theory Identity
  imports Prelude
begin

section \<open>128-bit identities\<close>

text \<open>
  \<^verbatim>\<open>include/servingobs/core/identity.hpp\<close> and the identity part of \<^verbatim>\<open>src/core.cpp\<close>:
  the value \<^verbatim>\<open>Id128\<close>, its order, its two deterministic serializations (32 hex digits,
  16 big-endian bytes), the hex parser, and the FNV-based \<^verbatim>\<open>derive\<close>. The typed ids
  \<^verbatim>\<open>Id<Tag>\<close> wrap an \<^verbatim>\<open>Id128\<close> without adding behaviour, so each of them is a synonym
  here.
\<close>

unbundle bit_operations_syntax

subsection \<open>Big-endian runs of bytes\<close>

text \<open>
  \<open>be_bytes n v\<close> are the low \<open>n\<close> bytes of a word, high byte first; \<open>be_fold\<close> is the
  loop \<^verbatim>\<open>v = (v << 8) | byte\<close> that reads them back.
\<close>

definition be_bytes :: "nat \<Rightarrow> 'w::len word \<Rightarrow> bytes" where
  "be_bytes n v = map (\<lambda>i. ucast (drop_bit (i * 8) v)) (rev [0..<n])"

definition be_fold :: "'w::len word \<Rightarrow> bytes \<Rightarrow> 'w word" where
  "be_fold acc bs = foldl (\<lambda>v b. push_bit 8 v OR ucast b) acc bs"

lemma be_bytes_0 [simp]: "be_bytes 0 v = []"
  by (simp add: be_bytes_def)

lemma be_bytes_Suc: "be_bytes (Suc n) v = ucast (drop_bit (n * 8) v) # be_bytes n v"
  by (simp add: be_bytes_def)

lemma length_be_bytes [simp]: "length (be_bytes n v) = n"
  by (simp add: be_bytes_def)

lemma be_fold_simps [simp]:
  "be_fold acc [] = acc"
  "be_fold acc (b # bs) = be_fold (push_bit 8 acc OR ucast b) bs"
  by (simp_all add: be_fold_def)

lemma be_fold_append: "be_fold acc (bs @ cs) = be_fold (be_fold acc bs) cs"
  by (simp add: be_fold_def)

lemma be_fold_be_bytes:
  fixes v acc :: "'w::len word"
  shows "be_fold acc (be_bytes n v) = push_bit (n * 8) acc OR take_bit (n * 8) v"
proof (induction n arbitrary: acc)
  case (Suc n)
  have "push_bit (n * 8) (push_bit 8 acc OR ucast (ucast (drop_bit (n * 8) v) :: u8)) OR take_bit (n * 8) v
      = push_bit (Suc n * 8) acc OR take_bit (Suc n * 8) v"
    by (rule bit_word_eqI) (auto simp: bit_simps not_less ac_simps)
  then show ?case by (simp add: be_bytes_Suc Suc.IH)
qed simp

lemma be_fold_word:
  fixes v :: "'w::len word"
  assumes "LENGTH('w) = n * 8"
  shows "be_fold 0 (be_bytes n v) = v"
  using assms by (simp add: be_fold_be_bytes take_bit_word_eq_self)

lemma be_bytes_snoc:
  fixes v :: "'w::len word"
  shows "be_bytes (Suc n) v = be_bytes n (drop_bit 8 v) @ [ucast v]"
proof -
  have "rev [0..<Suc n] = map Suc (rev [0..<n]) @ [0]"
    by (simp only: upt_conv_Cons zero_less_Suc map_Suc_upt [symmetric] rev.simps rev_map)
  then show ?thesis
    by (simp add: be_bytes_def comp_def ac_simps del: upt_Suc)
qed

lemma be_bytes_take:
  fixes v :: "'w::len word"
  assumes "n * 8 \<le> m"
  shows "be_bytes n (take_bit m v) = be_bytes n v"
proof -
  have "(ucast (drop_bit (i * 8) (take_bit m v)) :: u8) = ucast (drop_bit (i * 8) v)" if "i < n" for i
  proof (rule bit_word_eqI)
    fix k assume "k < LENGTH(8)"
    then have "k + i * 8 < m" using that assms by simp
    then show "bit (ucast (drop_bit (i * 8) (take_bit m v)) :: u8) k = bit (ucast (drop_bit (i * 8) v) :: u8) k"
      by (simp add: bit_simps ac_simps)
  qed
  then show ?thesis by (simp add: be_bytes_def)
qed

text \<open>Reading bytes and writing the word gives the bytes: the word form is exact.\<close>

lemma be_bytes_be_fold:
  fixes acc :: "'w::len word"
  assumes "length bs * 8 \<le> LENGTH('w)"
  shows "be_bytes (length bs) (be_fold acc bs) = bs"
  using assms
proof (induction bs rule: rev_induct)
  case (snoc b bs)
  let ?v = "be_fold acc bs"
  have "drop_bit 8 (push_bit 8 ?v OR ucast b) = take_bit (LENGTH('w) - 8) ?v"
    by (rule bit_word_eqI) (auto simp: bit_simps dest: bit_imp_le_length)
  moreover have "(ucast (push_bit 8 ?v OR (ucast b :: 'w word)) :: u8) = b"
    using snoc.prems by (intro bit_word_eqI) (auto simp: bit_simps)
  ultimately show ?case
    using snoc by (simp add: be_fold_append be_bytes_snoc be_bytes_take)
qed simp

lemma be_bytes_inj:
  fixes v w :: "'w::len word"
  assumes "LENGTH('w) = n * 8" and "be_bytes n v = be_bytes n w"
  shows "v = w"
  using be_fold_word [OF assms(1)] assms(2) by metis

subsection \<open>Id128\<close>

datatype id128 = Id128 (id_hi: u64) (id_lo: u64)

text \<open>\<^verbatim>\<open>operator<\<close>: the high words decide, then the low words.\<close>

definition id_before :: "id128 \<Rightarrow> id128 \<Rightarrow> bool" where
  "id_before a b = (id_hi a < id_hi b \<or> (id_hi a = id_hi b \<and> id_lo a < id_lo b))"

instantiation id128 :: linorder
begin

definition less_id128 :: "id128 \<Rightarrow> id128 \<Rightarrow> bool" where
  "less_id128 = id_before"

definition less_eq_id128 :: "id128 \<Rightarrow> id128 \<Rightarrow> bool" where
  "less_eq_id128 a b = (a < b \<or> a = b)"

instance
proof
  fix x y z :: id128
  show "x \<le> y \<or> y \<le> x"
    using linorder_less_linear [of "id_hi x" "id_hi y"] linorder_less_linear [of "id_lo x" "id_lo y"]
    by (auto simp: less_id128_def id_before_def less_eq_id128_def intro: id128.expand)
qed (auto simp: less_id128_def id_before_def less_eq_id128_def)

end

instance id128 :: finite
proof
  have "finite (range (\<lambda>(h, l). Id128 h l))" by (rule finite_imageI) simp
  moreover have "(UNIV :: id128 set) \<subseteq> range (\<lambda>(h, l). Id128 h l)"
    by (auto simp: image_iff) (metis id128.exhaust)
  ultimately show "finite (UNIV :: id128 set)" by (rule rev_finite_subset)
qed

type_synonym request_id = id128
type_synonym source_id = id128
type_synonym worker_id = id128
type_synonym worker_boot_id = id128
type_synonym observation_id = id128
type_synonym trace_id = id128

definition id_null :: id128 where
  "id_null = Id128 0 0"

definition is_null :: "id128 \<Rightarrow> bool" where
  "is_null v = (v = id_null)"

definition id_from_u64 :: "u64 \<Rightarrow> id128" where
  "id_from_u64 v = Id128 0 v"

subsection \<open>Bytes\<close>

definition to_bytes :: "id128 \<Rightarrow> bytes" where
  "to_bytes v =
     map (\<lambda>i. ucast (drop_bit (i * 8) (id_hi v) AND 0xFF)) (rev [0..<8]) @
     map (\<lambda>i. ucast (drop_bit (i * 8) (id_lo v) AND 0xFF)) (rev [0..<8])"

lemma ucast_and_255 [simp]: "(ucast (w AND 0xFF) :: u8) = ucast (w :: u64)"
proof -
  have "w AND 0xFF = take_bit 8 w" by (simp add: take_bit_eq_mask mask_eq_exp_minus_1)
  then show ?thesis
    by (simp only:) (rule bit_word_eqI, auto simp: bit_simps)
qed

lemma to_bytes_eq: "to_bytes v = be_bytes 8 (id_hi v) @ be_bytes 8 (id_lo v)"
  by (simp add: to_bytes_def be_bytes_def)

lemma length_to_bytes [simp]: "length (to_bytes v) = 16"
  by (simp add: to_bytes_eq)

lemma to_bytes_inj: "to_bytes v = to_bytes w \<Longrightarrow> v = w"
  by (auto simp: to_bytes_eq intro!: id128.expand dest!: be_bytes_inj [rotated])

subsection \<open>Hexadecimal\<close>

definition khex :: string where
  "khex = ''0123456789abcdef''"

definition hex_byte :: "u8 \<Rightarrow> string" where
  "hex_byte b = [khex ! unat (drop_bit 4 b), khex ! unat (b AND 0xF)]"

definition to_hex :: "id128 \<Rightarrow> string" where
  "to_hex v =
     concat (map (\<lambda>i.
       let shift = (if i < 8 then (7 - i) * 8 else (15 - i) * 8);
           word = (if i < 8 then id_hi v else id_lo v);
           b = (ucast (drop_bit shift word AND 0xFF) :: u8)
       in hex_byte b) [0..<16])"

text \<open>The parser: separators are skipped, upper case is folded, anything else is an error.\<close>

fun clean_hex :: "string \<Rightarrow> string result" where
  "clean_hex [] = Ok []"
| "clean_hex (c # cs) =
     (if c = CHR ''-'' \<or> c = CHR '':'' \<or> c = CHR ''_'' \<or> c = CHR '' '' then clean_hex cs
      else if CHR ''0'' \<le> c \<and> c \<le> CHR ''9'' then map_sum id ((#) c) (clean_hex cs)
      else if CHR ''a'' \<le> c \<and> c \<le> CHR ''f'' then map_sum id ((#) c) (clean_hex cs)
      else if CHR ''A'' \<le> c \<and> c \<le> CHR ''F''
        then map_sum id ((#) (byte_char (char_byte c - char_byte CHR ''A'' + char_byte CHR ''a''))) (clean_hex cs)
      else Err ''invalid hex character'')"

definition nibble :: "char \<Rightarrow> u8" where
  "nibble c = (if c \<le> CHR ''9'' then char_byte c - char_byte CHR ''0''
               else char_byte c - char_byte CHR ''a'' + 10)"

definition nibble_fold :: "u64 \<Rightarrow> string \<Rightarrow> u64" where
  "nibble_fold acc cs = foldl (\<lambda>h c. push_bit 4 h OR ucast (nibble c)) acc cs"

definition strip_0x :: "string \<Rightarrow> string" where
  "strip_0x t =
     (if 2 \<le> length t \<and> t ! 0 = CHR ''0'' \<and> (t ! 1 = CHR ''x'' \<or> t ! 1 = CHR ''X'')
      then drop 2 t else t)"

definition id_parse :: "string \<Rightarrow> id128 result" where
  "id_parse s =
     (case clean_hex (strip_0x (trim s)) of
        Err e \<Rightarrow> Err e
      | Ok cleaned \<Rightarrow>
          if length cleaned \<noteq> 32
          then Err (''expected 32 hex chars, got '' @ dec_string (length cleaned))
          else Ok (Id128 (nibble_fold 0 (take 16 cleaned)) (nibble_fold 0 (drop 16 cleaned))))"

definition id_from_hex :: "string \<Rightarrow> id128" where
  "id_from_hex s = (case id_parse s of Ok v \<Rightarrow> v | Err _ \<Rightarrow> id_null)"

lemma to_hex_eq:
  "to_hex v = concat (map hex_byte (be_bytes 8 (id_hi v) @ be_bytes 8 (id_lo v)))"
  by (simp add: to_hex_def be_bytes_def upt_rec Let_def)

lemma length_concat_hex [simp]: "length (concat (map hex_byte bs)) = 2 * length bs"
  by (induction bs) (auto simp: hex_byte_def)

lemma nib_lt_16:
  "unat (drop_bit 4 (b :: u8)) < 16" "unat (b AND 0xF) < 16"
proof -
  have "unat b < 256" using unsigned_less [of b] by simp
  then show "unat (drop_bit 4 b) < 16" by (simp only: unat_drop_bit_eq) (simp add: drop_bit_eq_div)
  have "b AND 0xF = take_bit 4 b" by (simp add: take_bit_eq_mask mask_eq_exp_minus_1)
  then have "unat (b AND 0xF) = take_bit 4 (unat b)" by (simp only: unsigned_take_bit_eq)
  then show "unat (b AND 0xF) < 16" by (simp add: take_bit_eq_mod)
qed

lemma khex_cases:
  assumes "n < 16"
  shows "nibble (khex ! n) = of_nat n \<and> clean_hex (khex ! n # cs) = map_sum id ((#) (khex ! n)) (clean_hex cs)
         \<and> khex ! n \<noteq> CHR ''x'' \<and> khex ! n \<noteq> CHR ''X'' \<and> \<not> is_blank (khex ! n)"
proof -
  have "n \<in> {0, 1, 2, 3, 4, 5, 6, 7, 8, 9, 10, 11, 12, 13, 14, 15}"
    using assms by simp presburger
  then show ?thesis
    by (elim insertE emptyE)
       (simp_all add: khex_def nibble_def char_byte_def is_blank_def less_eq_char_def)
qed

lemma clean_hex_concat:
  "clean_hex (concat (map hex_byte bs)) = Ok (concat (map hex_byte bs))"
  by (induction bs) (simp_all add: hex_byte_def khex_cases nib_lt_16 del: clean_hex.simps(2))

lemma nibble_fold_concat:
  "nibble_fold acc (concat (map hex_byte bs)) = be_fold acc bs"
proof (induction bs arbitrary: acc)
  case (Cons b bs)
  have lo: "b AND 0xF = take_bit 4 b"
    by (simp add: take_bit_eq_mask mask_eq_exp_minus_1)
  have "push_bit 4 (push_bit 4 acc OR ucast (drop_bit 4 b)) OR ucast (take_bit 4 b) =
        push_bit 8 acc OR (ucast b :: u64)"
    by (rule bit_word_eqI) (auto simp: bit_simps not_less)
  then have "nibble_fold acc (hex_byte b) = push_bit 8 acc OR ucast b"
    using khex_cases nib_lt_16 [of b] by (simp add: nibble_fold_def hex_byte_def lo)
  then show ?case
    using Cons.IH by (simp add: nibble_fold_def)
qed (simp add: nibble_fold_def)

lemma to_hex_chars:
  "c \<in> set (to_hex v) \<Longrightarrow> \<exists>n < 16. c = khex ! n"
  using nib_lt_16 by (auto simp: to_hex_eq hex_byte_def)

lemma trim_to_hex: "trim (to_hex v) = to_hex v"
  by (rule trim_id) (auto dest!: to_hex_chars simp: khex_cases)

lemma strip_to_hex: "strip_0x (to_hex v) = to_hex v"
proof -
  have "length (to_hex v) = 32" by (simp add: to_hex_eq)
  then have "to_hex v ! 1 \<in> set (to_hex v)" by (intro nth_mem) simp
  then obtain n where "n < 16" "to_hex v ! 1 = khex ! n" using to_hex_chars by blast
  then have "to_hex v ! 1 \<noteq> CHR ''x''" "to_hex v ! 1 \<noteq> CHR ''X''" using khex_cases by simp_all
  then show ?thesis by (simp add: strip_0x_def)
qed

text \<open>The 32-digit hexadecimal form determines an identity and parses back to it, whatever
  its two words are.
\<close>

theorem parse_to_hex: "id_parse (to_hex v) = Ok v"
proof -
  let ?h = "concat (map hex_byte (be_bytes 8 (id_hi v)))"
  let ?l = "concat (map hex_byte (be_bytes 8 (id_lo v)))"
  have split: "to_hex v = ?h @ ?l" by (simp add: to_hex_eq)
  have len: "length ?h = 16" "length ?l = 16" by simp_all
  have "clean_hex (to_hex v) = Ok (to_hex v)"
    using clean_hex_concat by (simp add: to_hex_eq del: map_append)
  moreover have "length (to_hex v) = 32" by (simp add: to_hex_eq)
  moreover have "take 16 (to_hex v) = ?h" "drop 16 (to_hex v) = ?l"
    using len by (simp_all add: split)
  ultimately show ?thesis
    by (simp add: id_parse_def trim_to_hex strip_to_hex nibble_fold_concat be_fold_word)
qed

subsection \<open>Derived identities\<close>

definition fnv_offset :: u64 where "fnv_offset = 14695981039346656037"
definition fnv_prime :: u64 where "fnv_prime = 1099511628211"
definition golden :: u64 where "golden = 0x9e3779b97f4a7c15"

definition derive_step :: "u64 \<times> u64 \<Rightarrow> u8 \<Rightarrow> u64 \<times> u64" where
  "derive_step h b =
     ((fst h XOR ucast b) * fnv_prime, (snd h XOR ucast (b + 1)) * fnv_prime)"

definition mix :: "u64 \<Rightarrow> u64" where
  "mix x0 =
     (let x1 = x0 XOR drop_bit 30 x0; x2 = x1 * 0xbf58476d1ce4e5b9;
          x3 = x2 XOR drop_bit 27 x2; x4 = x3 * 0x94d049bb133111eb
      in x4 XOR drop_bit 31 x4)"

definition derive :: "u64 \<Rightarrow> bytes \<Rightarrow> id128" where
  "derive namespace_tag data =
     (let h = foldl derive_step (fnv_offset XOR namespace_tag,
                                 fnv_offset XOR (namespace_tag XOR golden)) data;
          hi = mix (fst h) XOR 0x00ECB00000000000;
          lo = mix (snd h)
      in Id128 (if hi = 0 then 1 else hi) lo)"

lemma derive_not_null: "\<not> is_null (derive tag data)"
  by (simp add: derive_def Let_def is_null_def id_null_def)

end
