(* ===== verification/Binary64.thy ===== *)
theory Binary64
  imports Prelude
begin

section \<open>IEEE-754 binary64 arithmetic\<close>

text \<open>
  The program's \<^verbatim>\<open>double\<close> is IEEE-754 binary64 with round-to-nearest-even, as on every
  platform it targets. A \<^verbatim>\<open>double\<close> is its 64-bit pattern; the operations the source uses
  (conversion from integers, \<open>+\<close>, \<open>-\<close>, \<open>*\<close>, \<open>/\<close>, comparison, \<^verbatim>\<open>std::ceil\<close>, conversion to
  an integer) compute the exact result over the integers, in units of $2^{-1074}$, and round
  it once.
\<close>

unbundle bit_operations_syntax

subsection \<open>Reading a bit pattern\<close>

definition f64_neg :: "f64 \<Rightarrow> bool" where
  "f64_neg b = bit b 63"

definition f64_expo :: "f64 \<Rightarrow> nat" where
  "f64_expo b = unat (drop_bit 52 b) mod 2048"

definition f64_frac :: "f64 \<Rightarrow> nat" where
  "f64_frac b = unat b mod 2 ^ 52"

definition f64_is_nan :: "f64 \<Rightarrow> bool" where
  "f64_is_nan b = (f64_expo b = 2047 \<and> f64_frac b \<noteq> 0)"

definition f64_is_inf :: "f64 \<Rightarrow> bool" where
  "f64_is_inf b = (f64_expo b = 2047 \<and> f64_frac b = 0)"

text \<open>The magnitude of a finite value, in units of $2^{-1074}$.\<close>

definition f64_mag :: "f64 \<Rightarrow> nat" where
  "f64_mag b = (if f64_expo b = 0 then f64_frac b
                else (2 ^ 52 + f64_frac b) * 2 ^ (f64_expo b - 1))"

definition f64_scaled :: "f64 \<Rightarrow> int" where
  "f64_scaled b = (if f64_neg b then - int (f64_mag b) else int (f64_mag b))"

subsection \<open>Rounding\<close>

fun bit_length :: "nat \<Rightarrow> nat" where
  "bit_length n = (if n = 0 then 0 else Suc (bit_length (n div 2)))"

declare bit_length.simps [simp del]

definition round_half_even :: "nat \<Rightarrow> nat \<Rightarrow> nat" where
  "round_half_even a b =
     (let q = a div b; r = a mod b
      in if b < 2 * r \<or> (2 * r = b \<and> odd q) then Suc q else q)"

definition f64_sign_bit :: "bool \<Rightarrow> nat" where
  "f64_sign_bit s = (if s then 2 ^ 63 else 0)"

definition f64_inf_bits :: nat where
  "f64_inf_bits = 2047 * 2 ^ 52"

text \<open>\<open>f64_round s n d\<close>: the double nearest to \<open>n / d\<close>, negated when \<open>s\<close>.\<close>

definition f64_round :: "bool \<Rightarrow> nat \<Rightarrow> nat \<Rightarrow> f64" where
  "f64_round s n d =
     (let units = n * 2 ^ 1074;
          shift = bit_length (units div d) - 53;
          mant = round_half_even units (d * 2 ^ shift)
      in of_nat (f64_sign_bit s + min f64_inf_bits (shift * 2 ^ 52 + mant)))"

definition f64_inf :: "bool \<Rightarrow> f64" where
  "f64_inf s = of_nat (f64_sign_bit s + f64_inf_bits)"

definition f64_nan :: f64 where
  "f64_nan = 0x7FF8000000000000"

definition f64_zero :: "bool \<Rightarrow> f64" where
  "f64_zero s = of_nat (f64_sign_bit s)"

subsection \<open>Operations\<close>

definition f64_of_nat :: "nat \<Rightarrow> f64" where
  "f64_of_nat n = f64_round False n 1"

definition f64_of_int :: "int \<Rightarrow> f64" where
  "f64_of_int i = f64_round (i < 0) (nat \<bar>i\<bar>) 1"

definition f64_of_u64 :: "u64 \<Rightarrow> f64" where
  "f64_of_u64 v = f64_of_nat (unat v)"

definition f64_of_i64 :: "i64 \<Rightarrow> f64" where
  "f64_of_i64 v = f64_of_int (sint v)"

definition f64_add :: "f64 \<Rightarrow> f64 \<Rightarrow> f64" where
  "f64_add a b =
     (if f64_is_nan a \<or> f64_is_nan b then f64_nan
      else if f64_is_inf a \<and> f64_is_inf b then (if f64_neg a = f64_neg b then a else f64_nan)
      else if f64_is_inf a then a
      else if f64_is_inf b then b
      else (let s = f64_scaled a + f64_scaled b
            in if s = 0 then f64_zero (f64_neg a \<and> f64_neg b)
               else f64_round (s < 0) (nat \<bar>s\<bar>) (2 ^ 1074)))"

definition f64_minus :: "f64 \<Rightarrow> f64" where
  "f64_minus b = b XOR 0x8000000000000000"

definition f64_sub :: "f64 \<Rightarrow> f64 \<Rightarrow> f64" where
  "f64_sub a b = (if f64_is_nan b then f64_nan else f64_add a (f64_minus b))"

definition f64_mul :: "f64 \<Rightarrow> f64 \<Rightarrow> f64" where
  "f64_mul a b =
     (let s = (f64_neg a \<noteq> f64_neg b) in
      if f64_is_nan a \<or> f64_is_nan b then f64_nan
      else if f64_is_inf a then (if f64_is_inf b \<or> f64_mag b \<noteq> 0 then f64_inf s else f64_nan)
      else if f64_is_inf b then (if f64_mag a \<noteq> 0 then f64_inf s else f64_nan)
      else f64_round s (f64_mag a * f64_mag b) (2 ^ 2148))"

definition f64_div :: "f64 \<Rightarrow> f64 \<Rightarrow> f64" where
  "f64_div a b =
     (let s = (f64_neg a \<noteq> f64_neg b) in
      if f64_is_nan a \<or> f64_is_nan b then f64_nan
      else if f64_is_inf a then (if f64_is_inf b then f64_nan else f64_inf s)
      else if f64_is_inf b then f64_zero s
      else if f64_mag b = 0 then (if f64_mag a = 0 then f64_nan else f64_inf s)
      else f64_round s (f64_mag a) (f64_mag b))"

definition f64_lt :: "f64 \<Rightarrow> f64 \<Rightarrow> bool" where
  "f64_lt a b =
     (if f64_is_nan a \<or> f64_is_nan b then False
      else if f64_is_inf a then f64_neg a \<and> \<not> (f64_is_inf b \<and> f64_neg b)
      else if f64_is_inf b then \<not> f64_neg b
      else f64_scaled a < f64_scaled b)"

text \<open>
  \<^verbatim>\<open>std::ceil\<close> and the conversion to an integer (towards zero) of a finite value. C++
  leaves the conversion undefined where the result does not fit; the callers here say what
  they do about that.
\<close>

definition f64_ceil :: "f64 \<Rightarrow> int" where
  "f64_ceil b = - ((- f64_scaled b) div 2 ^ 1074)"

definition f64_trunc :: "f64 \<Rightarrow> int" where
  "f64_trunc b = (if f64_neg b then - int (f64_mag b div 2 ^ 1074) else int (f64_mag b div 2 ^ 1074))"

subsection \<open>Rounding keeps what is representable\<close>

lemma bit_length_0 [simp]: "bit_length 0 = 0"
  by (simp add: bit_length.simps)

lemma bit_length_double: "0 < n \<Longrightarrow> bit_length (2 * n) = Suc (bit_length n)"
  by (subst bit_length.simps) simp

lemma bit_length_mult_power: "0 < n \<Longrightarrow> bit_length (n * 2 ^ k) = bit_length n + k"
proof (induction k)
  case (Suc k)
  have "bit_length (2 * (n * 2 ^ k)) = Suc (bit_length (n * 2 ^ k))"
    using Suc.prems by (intro bit_length_double) simp
  then show ?case using Suc by (simp add: ac_simps)
qed simp

lemma bit_length_le: "n < 2 ^ k \<Longrightarrow> bit_length n \<le> k"
proof (induction k arbitrary: n)
  case (Suc k)
  then have "n div 2 < 2 ^ k" by (simp add: less_mult_imp_div_less)
  then show ?case using Suc.IH [of "n div 2"] by (subst bit_length.simps) simp
qed simp

lemma bit_length_ge: "2 ^ k \<le> n \<Longrightarrow> Suc k \<le> bit_length n"
proof (induction k arbitrary: n)
  case 0
  then show ?case by (subst bit_length.simps) simp
next
  case (Suc k)
  then have "2 ^ k \<le> n div 2" by (simp add: le_div_geq less_eq_div_iff_mult_less_eq)
  moreover have "n \<noteq> 0" using Suc.prems by (intro notI) simp
  ultimately show ?case using Suc.IH [of "n div 2"] by (subst bit_length.simps) simp
qed

lemma round_half_even_exact: "0 < b \<Longrightarrow> round_half_even (q * b) b = q"
  by (simp add: round_half_even_def)

lemma f64_expo_lt: "f64_expo b < 2048"
  by (simp add: f64_expo_def)

lemma f64_frac_lt: "f64_frac b < 2 ^ 52"
  by (simp add: f64_frac_def)

lemma f64_bits:
  "unat b = f64_sign_bit (f64_neg b) + f64_expo b * 2 ^ 52 + f64_frac b"
proof -
  have lt: "unat b < 2 ^ 64" using unsigned_less [of b, where ?'a = nat] by simp
  have d: "unat (drop_bit 52 b) = unat b div 2 ^ 52"
    by (simp only: unat_drop_bit_eq) (simp add: drop_bit_eq_div)
  have "unat b = (unat b div 2 ^ 52) * 2 ^ 52 + f64_frac b"
    by (simp only: f64_frac_def div_mult_mod_eq)
  also have "unat b div 2 ^ 52 = (unat b div 2 ^ 52 div 2048) * 2048 + f64_expo b"
    by (simp only: f64_expo_def d div_mult_mod_eq)
  also have "unat b div 2 ^ 52 div 2048 = unat b div 2 ^ 63"
    by (simp flip: div_mult2_eq)
  also have "unat b div 2 ^ 63 = (if f64_neg b then 1 else 0)"
  proof -
    have "bit b 63 = bit (unat b) 63" by (simp add: bit_unsigned_iff)
    then have "f64_neg b \<longleftrightarrow> odd (unat b div 2 ^ 63)"
      by (simp only: f64_neg_def bit_iff_odd)
    moreover have "unat b div 2 ^ 63 < 2" using lt by (simp add: less_mult_imp_div_less)
    moreover have "odd n \<longleftrightarrow> n = 1" if "n < 2" for n :: nat
      using that by (cases n) auto
    ultimately show ?thesis by (metis less_2_cases One_nat_def)
  qed
  finally show ?thesis by (simp add: f64_sign_bit_def split: if_splits)
qed

text \<open>
  Rounding the exact value of a finite double gives that double back, so every operation
  whose exact result is representable is exact.
\<close>

theorem f64_round_representable:
  assumes fin: "f64_expo b < 2047" and d: "0 < d"
  shows "f64_round (f64_neg b) (f64_mag b * d) (d * 2 ^ 1074) = b"
proof -
  have units: "(f64_mag b * d * 2 ^ 1074) div (d * 2 ^ 1074) = f64_mag b"
    using d by (simp add: mult.assoc)
  define k where "k = f64_expo b - 1"
  have core: "bit_length (f64_mag b) - 53 = k \<and>
              round_half_even (f64_mag b * d * 2 ^ 1074) (d * 2 ^ 1074 * 2 ^ k) + k * 2 ^ 52
                = f64_expo b * 2 ^ 52 + f64_frac b"
  proof (cases "f64_expo b = 0")
    case True
    have "f64_mag b < 2 ^ 53" using True f64_frac_lt [of b] by (simp add: f64_mag_def)
    then have "bit_length (f64_mag b) \<le> 53" by (rule bit_length_le)
    moreover have "round_half_even (f64_mag b * (d * 2 ^ 1074)) (d * 2 ^ 1074) = f64_mag b"
      using d by (intro round_half_even_exact) simp
    ultimately show ?thesis using True by (simp add: k_def f64_mag_def mult.assoc)
  next
    case False
    let ?m = "2 ^ 52 + f64_frac b"
    have mag: "f64_mag b = ?m * 2 ^ k" using False by (simp add: f64_mag_def k_def)
    have "bit_length ?m \<le> 53"
      by (rule bit_length_le) (use f64_frac_lt [of b] in simp)
    moreover have "53 \<le> bit_length ?m"
      using bit_length_ge [of 52 ?m] by simp
    ultimately have bl: "bit_length (f64_mag b) = 53 + k"
      unfolding mag by (simp add: bit_length_mult_power)
    have rr: "round_half_even (?m * (d * 2 ^ 1074 * 2 ^ k)) (d * 2 ^ 1074 * 2 ^ k) = ?m"
      using d by (intro round_half_even_exact) simp
    have meq: "f64_mag b * d * 2 ^ 1074 = ?m * (d * 2 ^ 1074 * 2 ^ k)"
      unfolding mag by (simp only: ac_simps)
    have sum: "?m + k * 2 ^ 52 = f64_expo b * 2 ^ 52 + f64_frac b"
      using False by (cases "f64_expo b") (simp_all add: k_def)
    show ?thesis
      unfolding meq rr by (intro conjI sum) (simp only: bl diff_add_inverse)
  qed
  have "f64_expo b * 2 ^ 52 + f64_frac b \<le> f64_inf_bits"
  proof -
    have "f64_expo b * 2 ^ 52 + f64_frac b \<le> 2046 * 2 ^ 52 + 2 ^ 52"
      using fin f64_frac_lt [of b] by (intro add_mono mult_right_mono) auto
    then show ?thesis by (simp add: f64_inf_bits_def)
  qed
  then have small: "min f64_inf_bits (f64_expo b * 2 ^ 52 + f64_frac b) = f64_expo b * 2 ^ 52 + f64_frac b"
    by (rule min.absorb2)
  have "f64_round (f64_neg b) (f64_mag b * d) (d * 2 ^ 1074) =
        of_nat (f64_sign_bit (f64_neg b) + min f64_inf_bits
          (k * 2 ^ 52 + round_half_even (f64_mag b * d * 2 ^ 1074) (d * 2 ^ 1074 * 2 ^ k)))"
    unfolding f64_round_def Let_def units by (simp only: core [THEN conjunct1])
  also have "k * 2 ^ 52 + round_half_even (f64_mag b * d * 2 ^ 1074) (d * 2 ^ 1074 * 2 ^ k)
        = f64_expo b * 2 ^ 52 + f64_frac b"
    using core [THEN conjunct2] by (simp only: add.commute)
  also have "f64_sign_bit (f64_neg b) + min f64_inf_bits (f64_expo b * 2 ^ 52 + f64_frac b) = unat b"
    unfolding small f64_bits [of b] by (rule add.assoc [symmetric])
  finally show ?thesis by simp
qed

text \<open>A witness: 1.5 (\<open>0x3FF8000000000000\<close>), scaled by 3.\<close>

theorem f64_round_representable_witness:
  "f64_round (f64_neg 0x3FF8000000000000) (f64_mag 0x3FF8000000000000 * 3) (3 * 2 ^ 1074) = 0x3FF8000000000000"
  by (rule f64_round_representable) (simp_all add: f64_expo_def drop_bit_eq_div)

end
