(* ===== verification/Json.thy ===== *)
theory Json
  imports Identity Binary64
begin

section \<open>JSON values and their canonical text\<close>

text \<open>
  \<^verbatim>\<open>include/servingobs/core/json.hpp\<close> and the JSON part of \<^verbatim>\<open>src/core.cpp\<close>: the value tree, its
  mutators and accessors, and the two writers, with what \<^verbatim>\<open>snprintf\<close> does for \<^verbatim>\<open>%.17g\<close>. The
  canonical text is what the digests of a replay are taken of; here it is shown to be readable
  in one way only.
\<close>

subsection \<open>Values\<close>

datatype json =
    JNull | JBool bool | JInt i64 | JUInt u64 | JDouble f64 | JString string
  | JArray "json list" | JObject "(string \<times> json) list"

definition json_set :: "string \<Rightarrow> json \<Rightarrow> json \<Rightarrow> json" where
  "json_set key val j =
     (case j of JObject m \<Rightarrow> JObject (omap_set key val m) | _ \<Rightarrow> JObject (omap_set key val []))"

definition json_push :: "json \<Rightarrow> json \<Rightarrow> json" where
  "json_push v j = (case j of JArray xs \<Rightarrow> JArray (xs @ [v]) | _ \<Rightarrow> JArray [v])"

definition json_find :: "string \<Rightarrow> json \<Rightarrow> json option" where
  "json_find key j = (case j of JObject m \<Rightarrow> map_of m key | _ \<Rightarrow> None)"

definition json_get :: "string \<Rightarrow> json \<Rightarrow> json" where
  "json_get key j = (case json_find key j of Some v \<Rightarrow> v | None \<Rightarrow> JNull)"

definition json_items :: "json \<Rightarrow> json list" where
  "json_items j = (case j of JArray xs \<Rightarrow> xs | _ \<Rightarrow> [])"

definition json_members :: "json \<Rightarrow> (string \<times> json) list" where
  "json_members j = (case j of JObject m \<Rightarrow> m | _ \<Rightarrow> [])"

definition as_bool :: "json \<Rightarrow> bool \<Rightarrow> bool" where
  "as_bool j def = (case j of JBool b \<Rightarrow> b | _ \<Rightarrow> def)"

definition as_int :: "json \<Rightarrow> i64 \<Rightarrow> i64" where
  "as_int j def = (case j of JInt i \<Rightarrow> i | JUInt u \<Rightarrow> u | _ \<Rightarrow> def)"

definition as_uint :: "json \<Rightarrow> u64 \<Rightarrow> u64" where
  "as_uint j def = (case j of JUInt u \<Rightarrow> u | JInt i \<Rightarrow> i | _ \<Rightarrow> def)"

definition as_double :: "json \<Rightarrow> f64 \<Rightarrow> f64" where
  "as_double j def =
     (case j of JDouble d \<Rightarrow> d | JInt i \<Rightarrow> f64_of_i64 i | JUInt u \<Rightarrow> f64_of_u64 u | _ \<Rightarrow> def)"

definition as_string :: "json \<Rightarrow> string \<Rightarrow> string" where
  "as_string j def = (case j of JString s \<Rightarrow> s | _ \<Rightarrow> def)"

text \<open>The chains of \<^verbatim>\<open>set\<close> and \<^verbatim>\<open>push\<close> the JSON views consist of.\<close>

definition json_object :: "(string \<times> json) list \<Rightarrow> json" where
  "json_object kvs = fold (\<lambda>(k, v). json_set k v) kvs (JObject [])"

definition json_array :: "json list \<Rightarrow> json" where
  "json_array vs = fold json_push vs (JArray [])"

subsection \<open>Numbers\<close>

text \<open>
  \<^verbatim>\<open>%.17g\<close> of a finite double: the exact value $n / d$ is rounded to 17 significant decimal
  digits (half to even); trailing zeros go; the exponent form is used below $10^{-4}$ and
  from $10^{17}$ on.
\<close>

function leading_zeros :: "nat \<Rightarrow> nat \<Rightarrow> nat" where
  "leading_zeros n d = (if n = 0 \<or> d \<le> n then 0 else Suc (leading_zeros (10 * n) d))"
  by pat_completeness auto
termination
  by (relation "measure (\<lambda>(n, d). d - n)") auto

declare leading_zeros.simps [simp del]

definition dec_exponent :: "nat \<Rightarrow> nat \<Rightarrow> int" where
  "dec_exponent n d =
     (if d \<le> n then int (length (dec_string (n div d))) - 1 else - int (leading_zeros n d))"

definition dec_digits17 :: "nat \<Rightarrow> nat \<Rightarrow> nat \<times> int" where
  "dec_digits17 n d =
     (let x = dec_exponent n d;
          m = round_half_even (n * 10 ^ nat (16 - x)) (d * 10 ^ nat (x - 16))
      in if m = 10 ^ 17 then (10 ^ 16, x + 1) else (m, x))"

definition strip_zeros :: "string \<Rightarrow> string" where
  "strip_zeros s = rev (dropWhile (\<lambda>c. c = CHR ''0'') (rev s))"

definition with_point :: "string \<Rightarrow> string \<Rightarrow> string" where
  "with_point whole frac = (if strip_zeros frac = [] then whole else whole @ ''.'' @ strip_zeros frac)"

definition exp_suffix :: "int \<Rightarrow> string" where
  "exp_suffix x =
     ''e'' @ (if x < 0 then ''-'' else ''+'') @
     (if \<bar>x\<bar> < 10 then ''0'' else []) @ dec_string (nat \<bar>x\<bar>)"

definition format_g17 :: "f64 \<Rightarrow> string" where
  "format_g17 v =
     (let sgn = (if f64_neg v then ''-'' else [])
      in if f64_mag v = 0 then sgn @ ''0''
         else let (m, x) = dec_digits17 (f64_mag v) (2 ^ 1074); digits = dec_string m
              in sgn @
                 (if x < -4 \<or> 17 \<le> x then with_point (take 1 digits) (drop 1 digits) @ exp_suffix x
                  else if 0 \<le> x then with_point (take (nat x + 1) digits) (drop (nat x + 1) digits)
                  else with_point ''0'' (replicate (nat (- x - 1)) (CHR ''0'') @ digits)))"

subsection \<open>The writers\<close>

definition escape_char :: "char \<Rightarrow> string" where
  "escape_char c =
     (if c = CHR 0x22 then [CHR 0x5C, CHR 0x22]
      else if c = CHR 0x5C then [CHR 0x5C, CHR 0x5C]
      else if c = CHR 0x0A then [CHR 0x5C, CHR ''n'']
      else if c = CHR 0x0D then [CHR 0x5C, CHR ''r'']
      else if c = CHR 0x09 then [CHR 0x5C, CHR ''t'']
      else if c = CHR 0x08 then [CHR 0x5C, CHR ''b'']
      else if c = CHR 0x0C then [CHR 0x5C, CHR ''f'']
      else if char_byte c < 0x20 then [CHR 0x5C, CHR ''u'', CHR ''0'', CHR ''0''] @ hex_byte (char_byte c)
      else [c])"

definition escape_json :: "string \<Rightarrow> string" where
  "escape_json s = concat (map escape_char s)"

definition quoted :: "string \<Rightarrow> string" where
  "quoted s = [CHR 0x22] @ escape_json s @ [CHR 0x22]"

definition write_sep :: "bool \<Rightarrow> nat \<Rightarrow> bool \<Rightarrow> string" where
  "write_sep pretty depth first =
     (if first then []
      else if pretty then '','' @ [CHR 0x0A] @ replicate ((depth + 1) * 2) (CHR '' '') else '','')"

fun write_json :: "bool \<Rightarrow> nat \<Rightarrow> json \<Rightarrow> string"
  and write_items :: "bool \<Rightarrow> nat \<Rightarrow> bool \<Rightarrow> json list \<Rightarrow> string"
  and write_members :: "bool \<Rightarrow> nat \<Rightarrow> bool \<Rightarrow> (string \<times> json) list \<Rightarrow> string" where
  "write_json pretty depth JNull = ''null''"
| "write_json pretty depth (JBool b) = (if b then ''true'' else ''false'')"
| "write_json pretty depth (JInt i) = to_string_int (sint i)"
| "write_json pretty depth (JUInt u) = to_string_word u"
| "write_json pretty depth (JDouble d) =
     (if f64_is_nan d \<or> f64_is_inf d then ''null'' else format_g17 d)"
| "write_json pretty depth (JString s) = quoted s"
| "write_json pretty depth (JArray xs) = ''['' @ write_items pretty depth True xs @ '']''"
| "write_json pretty depth (JObject m) = ''{'' @ write_members pretty depth True m @ ''}''"
| "write_items pretty depth first [] = []"
| "write_items pretty depth first (x # xs) =
     write_sep pretty depth first @ write_json pretty (depth + 1) x @ write_items pretty depth False xs"
| "write_members pretty depth first [] = []"
| "write_members pretty depth first ((k, v) # kvs) =
     write_sep pretty depth first @ quoted k @ (if pretty then '': '' else '':'') @
     write_json pretty (depth + 1) v @ write_members pretty depth False kvs"

definition to_canonical :: "json \<Rightarrow> string" where
  "to_canonical j = write_json False 0 j"

definition to_pretty :: "json \<Rightarrow> string" where
  "to_pretty j = write_json True 0 j"

subsection \<open>The text of a number\<close>

definition digit_chars :: "char set" where
  "digit_chars = set ''0123456789''"

definition number_chars :: "char set" where
  "number_chars = set ''0123456789-+.e''"

text \<open>A number starts with a digit or a minus sign and holds only characters of numbers.\<close>

definition number_text :: "string \<Rightarrow> bool" where
  "number_text s \<longleftrightarrow> s \<noteq> [] \<and> hd s \<in> insert (CHR ''-'') digit_chars \<and> set s \<subseteq> number_chars"

lemma digit_char:
  assumes "n < (10 :: nat)"
  shows "char_of (48 + n) \<in> digit_chars"
proof -
  from assms have "n \<in> set [0..<10]" by simp
  then show ?thesis by (simp add: upt_rec digit_chars_def) (elim disjE; simp add: char_of_def bit_Suc_0_iff)
qed

lemma digit_number: "digit_chars \<subseteq> number_chars"
  by (auto simp: digit_chars_def number_chars_def)

lemma dec_string_digits: "dec_string n \<noteq> [] \<and> set (dec_string n) \<subseteq> digit_chars"
proof (induction n rule: less_induct)
  case (less n)
  show ?case
    using less.IH [of "n div 10"] digit_char [of n] digit_char [of "n mod 10"]
    by (subst dec_string.simps, subst (2) dec_string.simps) auto
qed

lemma number_text_digits: "s \<noteq> [] \<Longrightarrow> set s \<subseteq> digit_chars \<Longrightarrow> number_text s"
  unfolding number_text_def using digit_number hd_in_set by blast

lemma number_text_minus: "number_text s \<Longrightarrow> hd s \<noteq> CHR ''-'' \<Longrightarrow> number_text (CHR ''-'' # s)"
  by (auto simp: number_text_def number_chars_def)

lemma number_text_append: "number_text s \<Longrightarrow> set t \<subseteq> number_chars \<Longrightarrow> number_text (s @ t)"
  by (auto simp: number_text_def)

lemma set_strip_zeros: "set (strip_zeros s) \<subseteq> set s"
  using set_dropWhileD [of _ "\<lambda>c. c = CHR ''0''" "rev s"] by (auto simp: strip_zeros_def)

lemma number_text_with_point:
  assumes "whole \<noteq> []" "set whole \<subseteq> digit_chars" "set frac \<subseteq> digit_chars"
  shows "number_text (with_point whole frac)"
proof -
  have "set (''.'' @ strip_zeros frac) \<subseteq> number_chars"
    using set_strip_zeros [of frac] digit_number assms(3) by (auto simp: number_chars_def)
  then show ?thesis
    using number_text_digits [OF assms(1,2)] number_text_append by (auto simp: with_point_def)
qed

lemma set_exp_suffix: "set (exp_suffix x) \<subseteq> number_chars"
  using dec_string_digits [of "nat \<bar>x\<bar>"] digit_number by (auto simp: exp_suffix_def number_chars_def)

lemma number_text_sign:
  "number_text s \<Longrightarrow> number_text ((if b then ''-'' else []) @ s)"
  by (auto simp: number_text_def number_chars_def)

lemma number_text_dec: "number_text (dec_string n)"
  using dec_string_digits by (blast intro: number_text_digits)

lemma number_text_word: "number_text (to_string_word w)"
  by (simp add: to_string_word_def number_text_dec)

lemma number_text_int: "number_text (to_string_int i)"
  using number_text_dec number_text_sign [of _ True] by (simp add: to_string_int_def)

lemma number_text_g17: "number_text (format_g17 v)"
proof (cases "f64_mag v = 0")
  case True
  have "number_text ''0''" by (simp add: number_text_def digit_chars_def number_chars_def)
  then show ?thesis
    using True number_text_sign [of "''0''" "f64_neg v"] by (simp add: format_g17_def)
next
  case False
  obtain m x where mx: "dec_digits17 (f64_mag v) (2 ^ 1074) = (m, x)" by fastforce
  have digs: "dec_string m \<noteq> []" "set (dec_string m) \<subseteq> digit_chars"
    using dec_string_digits by auto
  have "set (take k (dec_string m)) \<subseteq> digit_chars" "set (drop k (dec_string m)) \<subseteq> digit_chars" for k
    using digs(2) set_take_subset [of k "dec_string m"] set_drop_subset [of k "dec_string m"] by auto
  then have split: "number_text (with_point (take (Suc k) (dec_string m)) (drop (Suc k) (dec_string m)))" for k
    using digs(1) by (intro number_text_with_point) auto
  have "number_text (with_point ''0'' (replicate k (CHR ''0'') @ dec_string m))" for k
    using digs(2) by (intro number_text_with_point) (auto simp: digit_chars_def)
  then have "number_text
     (if x < -4 \<or> 17 \<le> x then with_point (take 1 (dec_string m)) (drop 1 (dec_string m)) @ exp_suffix x
      else if 0 \<le> x then with_point (take (nat x + 1) (dec_string m)) (drop (nat x + 1) (dec_string m))
      else with_point ''0'' (replicate (nat (- x - 1)) (CHR ''0'') @ dec_string m))"
    using split number_text_append [OF split [of 0] set_exp_suffix [of x]] by simp
  then show ?thesis
    unfolding format_g17_def Let_def mx prod.case if_not_P [OF False] by (rule number_text_sign)
qed

text \<open>What follows a value: nothing, or the end of an element.\<close>

definition stops :: "string \<Rightarrow> bool" where
  "stops r \<longleftrightarrow> r = [] \<or> hd r \<in> set '',]}''"

lemma number_text_unique:
  assumes "number_text s" "number_text s'" "stops r" "stops r'" "s @ r = s' @ r'"
  shows "s = s' \<and> r = r'"
proof -
  have "takeWhile (\<lambda>c. c \<in> number_chars) (t @ u) = t" if "number_text t" "stops u" for t u
  proof -
    have "u = [] \<or> hd u \<notin> number_chars"
      using that(2) by (auto simp: stops_def number_chars_def)
    moreover have "\<forall>c \<in> set t. c \<in> number_chars" using that(1) by (auto simp: number_text_def)
    ultimately show ?thesis by (cases u) simp_all
  qed
  then have "s = takeWhile (\<lambda>c. c \<in> number_chars) (s @ r)" "s' = takeWhile (\<lambda>c. c \<in> number_chars) (s' @ r')"
    using assms(1-4) by simp_all
  then have "s = s'" using assms(5) by simp
  then show ?thesis using assms(5) by simp
qed

subsection \<open>The text of a string\<close>

lemma hex_byte_inject: "hex_byte b = hex_byte b' \<Longrightarrow> b = b'"
proof -
  assume "hex_byte b = hex_byte b'"
  then have "be_fold 0 [b] = (be_fold 0 [b'] :: u64)"
    using nibble_fold_concat [of 0 "[b]"] nibble_fold_concat [of 0 "[b']"] by simp
  then have "(ucast b :: u64) = ucast b'" by simp
  then have eq: "bit (ucast b :: u64) n = bit (ucast b' :: u64) n" for n by simp
  show "b = b'"
  proof (rule bit_word_eqI)
    fix n assume "n < LENGTH(8)"
    then show "bit b n = bit b' n" using eq [of n] by (simp add: bit_simps)
  qed
qed

lemma escape_char_head: "escape_char c \<noteq> [] \<and> hd (escape_char c) \<noteq> CHR 0x22"
  by (simp add: escape_char_def)

text \<open>The escapes of two characters are never a prefix of one another.\<close>

lemma escape_char_unique:
  assumes "escape_char c @ r = escape_char c' @ r'"
  shows "c = c' \<and> r = r'"
proof -
  have hex: "b = b' \<and> r = r'" if "hex_byte b @ r = hex_byte b' @ r'" for b b'
    using that hex_byte_inject [of b b'] by (simp add: hex_byte_def)
  have byte: "c = c'" if "char_byte c = char_byte c'"
    using that by (metis byte_char_byte)
  show ?thesis
    using assms byte hex [of "char_byte c" "char_byte c'"]
    by (simp add: escape_char_def split: if_splits)
qed

lemma escape_char_not_quote: "escape_char c @ r \<noteq> CHR 0x22 # r'"
  using escape_char_head [of c] by (cases "escape_char c") auto

lemma escape_json_simps [simp]:
  "escape_json [] = []" "escape_json (c # s) = escape_char c @ escape_json s"
  by (simp_all add: escape_json_def)

lemma escape_json_unique:
  "escape_json s @ CHR 0x22 # r = escape_json s' @ CHR 0x22 # r' \<Longrightarrow> s = s' \<and> r = r'"
proof (induction s arbitrary: s')
  case Nil
  then show ?case
    using escape_char_not_quote by (cases s') (simp_all, metis)
next
  case (Cons c s)
  show ?case
  proof (cases s')
    case Nil
    then show ?thesis
      using Cons.prems escape_char_not_quote by simp
  next
    case s': (Cons c' s'')
    have "c = c' \<and> escape_json s @ CHR 0x22 # r = escape_json s'' @ CHR 0x22 # r'"
      by (rule escape_char_unique) (use Cons.prems s' in simp)
    then show ?thesis using Cons.IH s' by blast
  qed
qed

lemma quoted_unique: "quoted s @ r = quoted s' @ r' \<Longrightarrow> s = s' \<and> r = r'"
  using escape_json_unique [of s r s' r'] by (simp add: quoted_def)

subsection \<open>The canonical text can be read in one way only\<close>

text \<open>What a reader sees of a value: a number is its text, and NaN and infinities are null.\<close>

datatype tree = TNull | TBool bool | TNum string | TStr string | TArr "tree list" | TObj "(string \<times> tree) list"

fun shape :: "json \<Rightarrow> tree" where
  "shape JNull = TNull"
| "shape (JBool b) = TBool b"
| "shape (JInt i) = TNum (to_string_int (sint i))"
| "shape (JUInt u) = TNum (to_string_word u)"
| "shape (JDouble d) = (if f64_is_nan d \<or> f64_is_inf d then TNull else TNum (format_g17 d))"
| "shape (JString s) = TStr s"
| "shape (JArray xs) = TArr (map shape xs)"
| "shape (JObject m) = TObj (map (\<lambda>(k, v). (k, shape v)) m)"

text \<open>The first character of a value's text tells its kind.\<close>

definition head_kind :: "char \<Rightarrow> nat" where
  "head_kind c =
     (if c = CHR ''n'' then 0 else if c = CHR ''t'' \<or> c = CHR ''f'' then 1
      else if c \<in> insert (CHR ''-'') digit_chars then 2
      else if c = CHR 0x22 then 3 else if c = CHR ''['' then 4 else if c = CHR ''{'' then 5 else 6)"

fun kind :: "tree \<Rightarrow> nat" where
  "kind TNull = 0" | "kind (TBool b) = 1" | "kind (TNum s) = 2" | "kind (TStr s) = 3"
| "kind (TArr xs) = 4" | "kind (TObj m) = 5"

lemma head_kind_number: "number_text s \<Longrightarrow> head_kind (hd s) = 2"
  by (auto simp: number_text_def head_kind_def digit_chars_def)

lemma head_kind_simps [simp]:
  "head_kind CHR ''n'' = 0" "head_kind CHR ''t'' = 1" "head_kind CHR ''f'' = 1"
  "head_kind CHR 0x22 = 3" "head_kind CHR ''['' = 4" "head_kind CHR ''{'' = 5" "head_kind CHR '']'' = 6"
  by (simp_all add: head_kind_def digit_chars_def)

lemma write_json_head:
  "write_json p d j \<noteq> [] \<and> head_kind (hd (write_json p d j)) = kind (shape j)"
proof -
  have num: "s \<noteq> [] \<and> head_kind (hd s) = 2" if "number_text s" for s
    using that head_kind_number by (auto simp: number_text_def)
  show ?thesis
    using num [OF number_text_int] num [OF number_text_word] num [OF number_text_g17]
    by (cases j) (simp_all add: quoted_def)
qed

definition unique_text :: "json \<Rightarrow> bool" where
  "unique_text j \<longleftrightarrow> (\<forall>d d' j' r r'. stops r \<longrightarrow> stops r' \<longrightarrow>
     write_json False d j @ r = write_json False d' j' @ r' \<longrightarrow> shape j = shape j' \<and> r = r')"

lemma unique_textD:
  "unique_text j \<Longrightarrow> write_json False d j @ r = write_json False d' j' @ r' \<Longrightarrow> stops r \<Longrightarrow> stops r' \<Longrightarrow>
   shape j = shape j' \<and> r = r'"
  unfolding unique_text_def by blast

lemma stops_items: "stops (write_items False d False xs @ CHR '']'' # r)"
  by (cases xs) (simp_all add: stops_def write_sep_def)

lemma stops_members: "stops (write_members False d False m @ CHR ''}'' # r)"
  by (cases m) (auto simp: stops_def write_sep_def)

lemma not_bracket: "write_json False d x @ r \<noteq> CHR '']'' # r'"
  using write_json_head [of False d x] by (cases "write_json False d x"; cases "shape x") auto

lemma write_items_unique:
  "\<forall>x \<in> set xs. unique_text x \<Longrightarrow>
   write_items False d first xs @ CHR '']'' # r = write_items False d' first ys @ CHR '']'' # r' \<Longrightarrow>
   map shape xs = map shape ys \<and> r = r'"
proof (induction xs arbitrary: first ys)
  case Nil
  then show ?case
    using not_bracket by (cases ys; cases first) (simp_all add: write_sep_def, metis)
next
  case (Cons x xs)
  show ?case
  proof (cases ys)
    case Nil
    then show ?thesis
      using Cons.prems(2) not_bracket by (cases first) (simp_all add: write_sep_def)
  next
    case ys: (Cons y ys')
    have "shape x = shape y \<and>
        write_items False d False xs @ CHR '']'' # r = write_items False d' False ys' @ CHR '']'' # r'"
      by (rule unique_textD [OF _ _ stops_items stops_items])
         (use Cons.prems ys in \<open>simp_all add: write_sep_def split: if_splits\<close>)
    then show ?thesis using Cons.IH Cons.prems(1) ys by auto
  qed
qed

lemma write_members_unique:
  "\<forall>kv \<in> set m. unique_text (snd kv) \<Longrightarrow>
   write_members False d first m @ CHR ''}'' # r = write_members False d' first m' @ CHR ''}'' # r' \<Longrightarrow>
   map (\<lambda>(k, v). (k, shape v)) m = map (\<lambda>(k, v). (k, shape v)) m' \<and> r = r'"
proof (induction m arbitrary: first m')
  case Nil
  then show ?case
    by (cases m'; cases first) (auto simp: write_sep_def quoted_def)
next
  case (Cons kv m)
  obtain k v where kv: "kv = (k, v)" by (cases kv)
  show ?case
  proof (cases m')
    case Nil
    then show ?thesis
      using Cons.prems(2) kv by (cases first) (simp_all add: write_sep_def quoted_def)
  next
    case m': (Cons kv' m'')
    obtain k' v' where kv': "kv' = (k', v')" by (cases kv')
    have "k = k' \<and> CHR '':'' # write_json False (d + 1) v @ write_members False d False m @ CHR ''}'' # r =
        CHR '':'' # write_json False (d' + 1) v' @ write_members False d' False m'' @ CHR ''}'' # r'"
      by (rule quoted_unique) (use Cons.prems m' kv kv' in \<open>simp add: write_sep_def split: if_splits\<close>)
    moreover from this have "shape v = shape v' \<and>
        write_members False d False m @ CHR ''}'' # r = write_members False d' False m'' @ CHR ''}'' # r'"
      by (intro unique_textD [where d = "d + 1" and d' = "d' + 1", OF _ _ stops_members stops_members])
         (use Cons.prems kv in simp_all)
    ultimately show ?thesis using Cons.IH Cons.prems(1) m' kv kv' by auto
  qed
qed

text \<open>The values whose text is a number or null.\<close>

lemma write_json_number:
  "shape j = TNum n \<Longrightarrow> write_json p d j = n \<and> number_text n"
  "shape j = TNull \<Longrightarrow> write_json p d j = ''null''"
  by (cases j; auto simp: number_text_int number_text_word number_text_g17 split: if_splits)+

lemma same_kind:
  "write_json False d j @ r = write_json False d' j' @ r' \<Longrightarrow> kind (shape j) = kind (shape j')"
  using write_json_head by (metis hd_append2)

lemma unique_textI:
  assumes "\<And>d d' j' r r'. stops r \<Longrightarrow> stops r' \<Longrightarrow> kind (shape j) = kind (shape j') \<Longrightarrow>
    write_json False d j @ r = write_json False d' j' @ r' \<Longrightarrow> shape j = shape j' \<and> r = r'"
  shows "unique_text j"
  using assms same_kind unfolding unique_text_def by blast

lemma unique_text_number:
  assumes "shape j = TNum n"
  shows "unique_text j"
proof (rule unique_textI)
  fix d d' j' r r'
  assume r: "stops r" "stops r'" and k: "kind (shape j) = kind (shape j')"
    and eq: "write_json False d j @ r = write_json False d' j' @ r'"
  obtain n' where n': "shape j' = TNum n'" using k assms by (cases "shape j'") auto
  show "shape j = shape j' \<and> r = r'"
    using number_text_unique [of n n' r r'] r eq write_json_number(1) [OF assms]
      write_json_number(1) [OF n'] assms n' by simp
qed

lemma unique_text_null:
  assumes "shape j = TNull"
  shows "unique_text j"
proof (rule unique_textI)
  fix d d' j' r r'
  assume k: "kind (shape j) = kind (shape j')"
    and eq: "write_json False d j @ r = write_json False d' j' @ r'"
  have "shape j' = TNull" using k assms by (cases "shape j'") auto
  then show "shape j = shape j' \<and> r = r'"
    using eq write_json_number(2) assms by simp
qed

lemma unique_text_all: "unique_text j"
proof (induction j)
  case JNull
  show ?case by (rule unique_text_null) simp
next
  case (JBool b)
  show ?case
  proof (rule unique_textI)
    fix d d' j' r r'
    assume "kind (shape (JBool b)) = kind (shape j')"
      and eq: "write_json False d (JBool b) @ r = write_json False d' j' @ r'"
    then obtain b' where "j' = JBool b'" by (cases j') (auto split: if_splits)
    with eq show "shape (JBool b) = shape j' \<and> r = r'" by (simp split: if_splits)
  qed
next
  case (JInt i)
  show ?case by (rule unique_text_number) simp
next
  case (JUInt u)
  show ?case by (rule unique_text_number) simp
next
  case (JDouble v)
  show ?case
    by (cases "f64_is_nan v \<or> f64_is_inf v") (rule unique_text_null, simp, rule unique_text_number, simp)
next
  case (JString s)
  show ?case
  proof (rule unique_textI)
    fix d d' j' r r'
    assume "kind (shape (JString s)) = kind (shape j')"
      and eq: "write_json False d (JString s) @ r = write_json False d' j' @ r'"
    then obtain s' where "j' = JString s'" by (cases j') (auto split: if_splits)
    with eq show "shape (JString s) = shape j' \<and> r = r'" using quoted_unique [of s r s' r'] by simp
  qed
next
  case (JArray xs)
  show ?case
  proof (rule unique_textI)
    fix d d' j' r r'
    assume "kind (shape (JArray xs)) = kind (shape j')"
      and eq: "write_json False d (JArray xs) @ r = write_json False d' j' @ r'"
    then obtain ys where "j' = JArray ys" by (cases j') (auto split: if_splits)
    with eq show "shape (JArray xs) = shape j' \<and> r = r'"
      using write_items_unique [of xs d True r d' ys r'] JArray.IH by simp
  qed
next
  case (JObject m)
  have "\<forall>kv \<in> set m. unique_text (snd kv)"
    using JObject.IH by (metis snds.simps)
  show ?case
  proof (rule unique_textI)
    fix d d' j' r r'
    assume "kind (shape (JObject m)) = kind (shape j')"
      and eq: "write_json False d (JObject m) @ r = write_json False d' j' @ r'"
    then obtain m' where "j' = JObject m'" by (cases j') (auto split: if_splits)
    with eq \<open>\<forall>kv \<in> set m. unique_text (snd kv)\<close> show "shape (JObject m) = shape j' \<and> r = r'"
      using write_members_unique [of m d True r d' m' r'] by simp
  qed
qed

lemma write_json_shape:
  "shape j = shape j' \<Longrightarrow> write_json False d j = write_json False d' j'"
proof (induction j arbitrary: j' d d')
  case (JArray xs)
  then obtain ys where ys: "j' = JArray ys" "map shape xs = map shape ys"
    by (cases j') (auto split: if_splits)
  have "\<forall>x \<in> set xs. \<forall>j' d d'. shape x = shape j' \<longrightarrow> write_json False d x = write_json False d' j'"
    using JArray.IH by blast
  with ys(2) have "write_items False d f xs = write_items False d' f ys" for f
  proof (induction xs arbitrary: ys f)
    case (Cons x xs)
    then show ?case by (cases ys) (auto simp: write_sep_def)
  qed simp
  then show ?case by (simp add: ys(1))
next
  case (JObject m)
  then obtain m' where m': "j' = JObject m'" "map (\<lambda>(k, v). (k, shape v)) m = map (\<lambda>(k, v). (k, shape v)) m'"
    by (cases j') (auto split: if_splits)
  have "\<forall>kv \<in> set m. \<forall>j' d d'. shape (snd kv) = shape j' \<longrightarrow> write_json False d (snd kv) = write_json False d' j'"
    using JObject.IH by (metis snds.simps)
  with m'(2) have "write_members False d f m = write_members False d' f m'" for f
  proof (induction m arbitrary: m' f)
    case (Cons kv m)
    then show ?case by (cases m') (auto simp: write_sep_def split: prod.splits)
  qed simp
  then show ?case by (simp add: m'(1))
next
  case JNull
  then show ?case using write_json_number(2) [of j'] by simp
next
  case (JBool b)
  then show ?case by (cases j') (auto split: if_splits)
next
  case (JInt i)
  then show ?case using write_json_number(1) [of j' "to_string_int (sint i)"] by simp
next
  case (JUInt u)
  then show ?case using write_json_number(1) [of j' "to_string_word u"] by simp
next
  case (JDouble v)
  then show ?case
    using write_json_number(1) [of j' "format_g17 v"] write_json_number(2) [of j']
    by (cases "f64_is_nan v \<or> f64_is_inf v") auto
next
  case (JString s)
  then show ?case by (cases j') (auto split: if_splits)
qed

subsection \<open>Decimal text determines the number\<close>

definition dec_value :: "string \<Rightarrow> nat" where
  "dec_value s = foldl (\<lambda>n c. n * 10 + (of_char c - 48)) 0 s"

lemma dec_value_string [simp]: "dec_value (dec_string n) = n"
proof (induction n rule: less_induct)
  case (less n)
  have digit: "of_char (char_of (48 + k) :: char) = 48 + k" if "k < 10" for k :: nat
    using that by simp
  show ?case
  proof (cases "n < 10")
    case True
    then show ?thesis using digit [of n] by (subst dec_string.simps) (simp add: dec_value_def)
  next
    case False
    then have "dec_value (dec_string (n div 10)) = n div 10" using less.IH by simp
    then show ?thesis
      using False digit [of "n mod 10"] by (subst dec_string.simps) (simp add: dec_value_def)
  qed
qed

lemma dec_string_inject [simp]: "dec_string m = dec_string n \<longleftrightarrow> m = n"
  by (metis dec_value_string)

lemma to_string_word_inject [simp]: "to_string_word (v :: 'w :: len word) = to_string_word w \<longleftrightarrow> v = w"
  by (simp add: to_string_word_def word_unat_eq_iff)

subsection \<open>Objects do not depend on the order of their sets\<close>

lemma json_object_omap:
  "fold (\<lambda>(k, v). json_set k v) kvs (JObject m) = JObject (fold (\<lambda>(k, v). omap_set k v) kvs m)"
  by (induction kvs arbitrary: m) (auto simp: json_set_def)

lemma json_object_map:
  assumes "distinct (map fst kvs)"
  obtains m where "json_object kvs = JObject m" "omap_ok m" "map_of m = map_of kvs"
proof
  show "json_object kvs = JObject (fold (\<lambda>(k, v). omap_set k v) kvs [])"
    by (simp add: json_object_def json_object_omap)
  show "omap_ok (fold (\<lambda>(k, v). omap_set k v) kvs [])"
    by (rule omap.valid_fold) simp
  show "map_of (fold (\<lambda>(k, v). omap_set k v) kvs []) = map_of kvs"
    using omap.lookup_fold [OF _ assms, of "[]"] by (auto simp: fun_eq_iff split: option.splits)
qed

lemma json_get_object:
  assumes "distinct (map fst kvs)" and "(k, v) \<in> set kvs"
  shows "json_get k (json_object kvs) = v"
proof -
  obtain m where "json_object kvs = JObject m" "map_of m = map_of kvs"
    by (rule json_object_map [OF assms(1)])
  then show ?thesis using assms by (simp add: json_get_def json_find_def)
qed

lemma json_array_list: "json_array vs = JArray vs"
proof -
  have "fold json_push vs (JArray ws) = JArray (ws @ vs)" for ws
    by (induction vs arbitrary: ws) (auto simp: json_push_def)
  then show ?thesis by (simp add: json_array_def)
qed

subsection \<open>Properties\<close>

text \<open>C29: The canonical text of a JSON value determines it: two values have the same text exactly
  when they have the same shape, that is the same tree with the same keys, strings and number
  texts (NaN and the infinities being null).\<close>

theorem canonical_text_unique: "to_canonical j = to_canonical j' \<longleftrightarrow> shape j = shape j'"
  using unique_textD [OF unique_text_all, of 0 j "[]" 0 j' "[]"] write_json_shape [of j j' 0 0]
  by (auto simp: to_canonical_def stops_def)

text \<open>An object does not depend on the order in which its members were set: the members of
  an object set under distinct keys in any order have one canonical text.\<close>

theorem json_object_order_independent:
  assumes "distinct (map fst kvs)" and "mset kvs = mset kvs'"
  shows "to_canonical (json_object kvs) = to_canonical (json_object kvs')"
proof -
  have "distinct (map fst kvs')"
    using assms by (metis mset_eq_imp_distinct_iff mset_map)
  moreover have "map_of kvs = map_of kvs'"
    using assms calculation by (metis map_of_inject_set mset_eq_setD)
  ultimately show ?thesis
    using json_object_map [OF assms(1)] json_object_map [of kvs'] omap_eqI by metis
qed

theorem json_object_order_independent_witness:
  "to_canonical (json_object [(''b'', JNull), (''a'', JBool True)]) =
   to_canonical (json_object [(''a'', JBool True), (''b'', JNull)])"
  by (rule json_object_order_independent) simp_all

end
