(* ===== verification/Codec.thy ===== *)
theory Codec
  imports Identity
begin

section \<open>The canonical binary codec\<close>

text \<open>
  \<^verbatim>\<open>include/servingobs/core/binary_codec.hpp\<close>. A \<^verbatim>\<open>BinaryWriter\<close> is the buffer it has
  built, or the exception it threw (\<^verbatim>\<open>write_count\<close> and \<^verbatim>\<open>write_len\<close> throw above 32
  bits); once thrown, the writes after it do not happen. A \<^verbatim>\<open>BinaryReader\<close> is the bytes
  still ahead of it, its failure flag and its first error message; the read operations are
  state-monad programs over it.

  The interface the rest of the development uses is the locale \<open>codec\<close>: an encoder and a
  decoder such that the decoder recovers the value and stops exactly at its end, fails on
  every strict prefix of the encoding, and leaves a reader that has already failed alone.
  The rules in \<open>codec_intros\<close> and \<open>inert_intros\<close> establish these laws field by field.
\<close>

unbundle bit_operations_syntax

subsection \<open>BinaryWriter\<close>

type_synonym writer = "bytes result"

definition put :: "bytes \<Rightarrow> writer \<Rightarrow> writer" where
  "put bs w = (case w of Err e \<Rightarrow> Err e | Ok b \<Rightarrow> Ok (b @ bs))"

definition write_u8 :: "u8 \<Rightarrow> writer \<Rightarrow> writer" where
  "write_u8 v = put [v]"

definition write_u16 :: "u16 \<Rightarrow> writer \<Rightarrow> writer" where
  "write_u16 v = put [ucast (drop_bit 8 v), ucast v]"

definition write_u32 :: "u32 \<Rightarrow> writer \<Rightarrow> writer" where
  "write_u32 v = put [ucast (drop_bit 24 v), ucast (drop_bit 16 v), ucast (drop_bit 8 v), ucast v]"

definition write_u64 :: "u64 \<Rightarrow> writer \<Rightarrow> writer" where
  "write_u64 v =
     put [ucast (drop_bit 56 v), ucast (drop_bit 48 v), ucast (drop_bit 40 v), ucast (drop_bit 32 v),
          ucast (drop_bit 24 v), ucast (drop_bit 16 v), ucast (drop_bit 8 v), ucast v]"

definition write_i64 :: "i64 \<Rightarrow> writer \<Rightarrow> writer" where
  "write_i64 v = write_u64 v"

definition write_bool :: "bool \<Rightarrow> writer \<Rightarrow> writer" where
  "write_bool v = put [if v then 1 else 0]"

definition write_f32 :: "f32 \<Rightarrow> writer \<Rightarrow> writer" where
  "write_f32 v = write_u32 v"

definition write_f64 :: "f64 \<Rightarrow> writer \<Rightarrow> writer" where
  "write_f64 v = write_u64 v"

definition write_len :: "nat \<Rightarrow> writer \<Rightarrow> writer" where
  "write_len n w =
     (case w of Err e \<Rightarrow> Err e
      | Ok b \<Rightarrow> if 0xFFFFFFFF < n then Err ''length overflow'' else write_u32 (of_nat n) w)"

definition write_count :: "nat \<Rightarrow> writer \<Rightarrow> writer" where
  "write_count n w =
     (case w of Err e \<Rightarrow> Err e
      | Ok b \<Rightarrow> if 0xFFFFFFFF < n then Err ''count overflow'' else write_u32 (of_nat n) w)"

definition write_str :: "string \<Rightarrow> writer \<Rightarrow> writer" where
  "write_str s w = put (str_bytes s) (write_len (length s) w)"

definition write_bytes :: "bytes \<Rightarrow> writer \<Rightarrow> writer" where
  "write_bytes b w = put b (write_len (length b) w)"

definition write_id :: "id128 \<Rightarrow> writer \<Rightarrow> writer" where
  "write_id v = put (to_bytes v)"

text \<open>A sequence of write statements, and the statement that writes nothing.\<close>

definition wseq :: "(writer \<Rightarrow> writer) list \<Rightarrow> writer \<Rightarrow> writer" where
  "wseq fs w = fold (\<lambda>f w. f w) fs w"

definition wskip :: "writer \<Rightarrow> writer" where
  "wskip w = w"

text \<open>\<open>emits f bs\<close>: the statement \<open>f\<close> appends exactly the bytes \<open>bs\<close>.\<close>

definition emits :: "(writer \<Rightarrow> writer) \<Rightarrow> bytes \<Rightarrow> bool" where
  "emits f bs = (\<forall>b. f (Ok b) = Ok (b @ bs))"

definition rethrows :: "(writer \<Rightarrow> writer) \<Rightarrow> bool" where
  "rethrows f = (\<forall>e. f (Err e) = Err e)"

lemma emits_unique: "emits f bs \<Longrightarrow> emits f cs \<Longrightarrow> bs = cs"
  by (auto simp: emits_def dest: spec [of _ "[]"])

lemma emits_run: "emits f bs \<Longrightarrow> f (Ok b) = Ok (b @ bs)"
  by (simp add: emits_def)

lemma emits_put [codec_intros]: "emits (put bs) bs"
  by (simp add: emits_def put_def)

lemma emits_skip [codec_intros]: "emits wskip []"
  by (simp add: emits_def wskip_def)

lemma emits_wseq_Nil [codec_intros]: "emits (wseq []) []"
  by (simp add: emits_def wseq_def)

lemma emits_wseq_Cons [codec_intros]:
  "emits f bs \<Longrightarrow> emits (wseq fs) cs \<Longrightarrow> emits (wseq (f # fs)) (bs @ cs)"
  by (simp add: emits_def wseq_def)

lemma emits_if [codec_intros]:
  "(c \<Longrightarrow> emits f bs) \<Longrightarrow> (\<not> c \<Longrightarrow> emits g cs) \<Longrightarrow>
   emits (if c then f else g) (if c then bs else cs)"
  by simp

lemma emits_u8 [codec_intros]: "emits (write_u8 v) [v]"
  by (simp add: write_u8_def emits_put)

lemma emits_u16 [codec_intros]: "emits (write_u16 v) (be_bytes 2 v)"
  using emits_put by (simp add: write_u16_def be_bytes_def upt_rec)

lemma emits_u32 [codec_intros]: "emits (write_u32 v) (be_bytes 4 v)"
  using emits_put by (simp add: write_u32_def be_bytes_def upt_rec)

lemma emits_u64 [codec_intros]: "emits (write_u64 v) (be_bytes 8 v)"
  using emits_put by (simp add: write_u64_def be_bytes_def upt_rec)

lemma emits_i64 [codec_intros]: "emits (write_i64 v) (be_bytes 8 v)"
  by (simp add: write_i64_def emits_u64)

lemma emits_f32 [codec_intros]: "emits (write_f32 v) (be_bytes 4 v)"
  by (simp add: write_f32_def emits_u32)

lemma emits_f64 [codec_intros]: "emits (write_f64 v) (be_bytes 8 v)"
  by (simp add: write_f64_def emits_u64)

lemma emits_bool [codec_intros]: "emits (write_bool v) [if v then 1 else 0]"
  by (simp add: write_bool_def emits_put)

lemma emits_id [codec_intros]: "emits (write_id v) (to_bytes v)"
  by (simp add: write_id_def emits_put)

definition fits32 :: "nat \<Rightarrow> bool" where
  "fits32 n = (n \<le> 0xFFFFFFFF)"

lemma emits_count [codec_intros]:
  "fits32 n \<Longrightarrow> emits (write_count n) (be_bytes 4 (of_nat n :: u32))"
  using emits_u32 by (simp add: emits_def write_count_def fits32_def)

lemma emits_bytes [codec_intros]:
  "fits32 (length b) \<Longrightarrow> emits (write_bytes b) (be_bytes 4 (of_nat (length b) :: u32) @ b)"
  using emits_u32 by (simp add: emits_def write_bytes_def write_len_def fits32_def put_def)

lemma emits_str [codec_intros]:
  "fits32 (length s) \<Longrightarrow> emits (write_str s) (be_bytes 4 (of_nat (length s) :: u32) @ str_bytes s)"
  using emits_u32 by (simp add: emits_def write_str_def write_len_def fits32_def put_def)

text \<open>The exception: a length that does not fit 32 bits.\<close>

lemma write_bytes_throws:
  "\<not> fits32 (length b) \<Longrightarrow> write_bytes b (Ok w) = Err ''length overflow''"
  by (simp add: write_bytes_def write_len_def fits32_def put_def)

lemma write_str_throws:
  "\<not> fits32 (length s) \<Longrightarrow> write_str s (Ok w) = Err ''length overflow''"
  by (simp add: write_str_def write_len_def fits32_def put_def)

lemma rethrows_put [simp]: "rethrows (put bs)"
  by (simp add: rethrows_def put_def)

lemma rethrows_wseq: "list_all rethrows fs \<Longrightarrow> rethrows (wseq fs)"
  by (induction fs) (auto simp: rethrows_def wseq_def)

lemma rethrows_writes [simp]:
  "rethrows (write_u8 a)" "rethrows (write_u16 b)" "rethrows (write_u32 c)" "rethrows (write_u64 d)"
  "rethrows (write_i64 d)" "rethrows (write_f32 c)" "rethrows (write_f64 d)" "rethrows (write_bool e)"
  "rethrows (write_str s)" "rethrows (write_bytes bs)" "rethrows (write_id i)"
  "rethrows (write_count n)" "rethrows wskip"
  by (simp_all add: write_u8_def write_u16_def write_u32_def write_u64_def write_i64_def write_f32_def
        write_f64_def write_bool_def write_id_def)
     (simp_all add: rethrows_def write_str_def write_bytes_def write_len_def put_def write_count_def wskip_def)

subsection \<open>BinaryReader\<close>

record reader =
  rd_rest :: bytes      \<comment> \<open>the bytes from \<^verbatim>\<open>p_\<close> to \<^verbatim>\<open>end_\<close>\<close>
  rd_failed :: bool
  rd_err :: string

type_synonym 'a rd = "(reader, 'a) state"

definition mk_reader :: "bytes \<Rightarrow> reader" where
  "mk_reader bs = \<lparr>rd_rest = bs, rd_failed = False, rd_err = []\<rparr>"

definition rd_fail :: "string \<Rightarrow> reader \<Rightarrow> reader" where
  "rd_fail msg r = (if rd_failed r then r else r\<lparr>rd_failed := True, rd_err := msg\<rparr>)"

definition r_fail :: "string \<Rightarrow> unit rd" where
  "r_fail msg = State (\<lambda>r. ((), rd_fail msg r))"

definition r_ok :: "bool rd" where
  "r_ok = State (\<lambda>r. (\<not> rd_failed r, r))"

definition r_error :: "string rd" where
  "r_error = State (\<lambda>r. (rd_err r, r))"

definition r_remaining :: "nat rd" where
  "r_remaining = State (\<lambda>r. (length (rd_rest r), r))"

definition r_require_end :: "bool rd" where
  "r_require_end =
     State (\<lambda>r. if rd_failed r then (False, r)
                else if rd_rest r \<noteq> []
                then (False, rd_fail (''trailing garbage: '' @ dec_string (length (rd_rest r)) @ '' bytes'') r)
                else (True, r))"

definition r_u8 :: "u8 rd" where
  "r_u8 = State (\<lambda>r. if rd_failed r then (0, r)
                     else (case rd_rest r of
                             [] \<Rightarrow> (0, rd_fail ''unexpected end of buffer'' r)
                           | b # bs \<Rightarrow> (b, r\<lparr>rd_rest := bs\<rparr>)))"

text \<open>The loop \<^verbatim>\<open>for (i < n) v = (v << 8) | r_u8()\<close> of \<^verbatim>\<open>r_u16\<close>, \<^verbatim>\<open>r_u32\<close>, \<^verbatim>\<open>r_u64\<close> and \<^verbatim>\<open>read_id\<close>.\<close>

fun r_be :: "nat \<Rightarrow> 'w::len word \<Rightarrow> 'w word rd" where
  "r_be 0 v = State_Monad.return v"
| "r_be (Suc n) v = do { b \<leftarrow> r_u8; r_be n (push_bit 8 v OR ucast b) }"

definition r_u16 :: "u16 rd" where "r_u16 = r_be 2 0"
definition r_u32 :: "u32 rd" where "r_u32 = r_be 4 0"
definition r_u64 :: "u64 rd" where "r_u64 = r_be 8 0"
definition r_i64 :: "i64 rd" where "r_i64 = r_u64"

definition r_bool :: "bool rd" where
  "r_bool = do { b \<leftarrow> r_u8; State_Monad.return (b \<noteq> 0) }"

definition r_f32 :: "f32 rd" where "r_f32 = r_u32"

text \<open>\<^verbatim>\<open>std::isnan(v) || std::isinf(v)\<close>: the exponent field is all ones.\<close>

definition f64_nonfinite :: "f64 \<Rightarrow> bool" where
  "f64_nonfinite b = (drop_bit 52 b AND 0x7FF = 0x7FF)"

definition r_f64 :: "f64 rd" where
  "r_f64 = do {
     v \<leftarrow> r_u64;
     _ \<leftarrow> (if f64_nonfinite v then r_fail ''NaN/Inf floating value rejected'' else State_Monad.return ());
     State_Monad.return v }"

definition r_length :: "u32 rd" where
  "r_length = do {
     len \<leftarrow> r_u32;
     State (\<lambda>r. if rd_failed r then (0, r)
                else if length (rd_rest r) < unat len
                then (0, rd_fail (''declared length '' @ to_string_word len @ '' exceeds remaining '' @
                                  dec_string (length (rd_rest r))) r)
                else (len, r)) }"

definition r_str :: "string rd" where
  "r_str = do {
     len \<leftarrow> r_length;
     State (\<lambda>r. if rd_failed r then ([], r)
                else (bytes_str (take (unat len) (rd_rest r)), r\<lparr>rd_rest := drop (unat len) (rd_rest r)\<rparr>)) }"

definition r_bytes :: "bytes rd" where
  "r_bytes = do {
     len \<leftarrow> r_length;
     State (\<lambda>r. if rd_failed r then ([], r)
                else (take (unat len) (rd_rest r), r\<lparr>rd_rest := drop (unat len) (rd_rest r)\<rparr>)) }"

definition r_raw :: "u32 \<Rightarrow> bytes rd" where
  "r_raw n =
     State (\<lambda>r. if rd_failed r then ([], r)
                else if length (rd_rest r) < unat n then ([], rd_fail ''read_raw overruns buffer'' r)
                else (take (unat n) (rd_rest r), r\<lparr>rd_rest := drop (unat n) (rd_rest r)\<rparr>))"

definition r_id :: "id128 rd" where
  "r_id =
     State (\<lambda>r. if rd_failed r then (id_null, r)
                else if length (rd_rest r) < 16 then (id_null, rd_fail ''truncated id'' r)
                else run_state (do { hi \<leftarrow> r_be 8 0; lo \<leftarrow> r_be 8 0; State_Monad.return (Id128 hi lo) }) r)"

definition r_count :: "u64 rd" where
  "r_count = do { n \<leftarrow> r_u32; State_Monad.return (ucast n) }"

text \<open>\<^verbatim>\<open>sub(len)\<close>: a nested reader over the next \<open>len\<close> bytes, which this one skips.\<close>

definition r_sub :: "u32 \<Rightarrow> reader rd" where
  "r_sub len =
     State (\<lambda>r. if rd_failed r then (mk_reader [], r)
                else if length (rd_rest r) < unat len
                then (mk_reader [], rd_fail ''sub-section overruns buffer'' r)
                else (mk_reader (take (unat len) (rd_rest r)),
                      r\<lparr>rd_rest := drop (unat len) (rd_rest r)\<rparr>))"

subsection \<open>A failed reader stays as it is\<close>

definition inert :: "'a rd \<Rightarrow> bool" where
  "inert m = (\<forall>r. rd_failed r \<longrightarrow> snd (run_state m r) = r)"

lemma inertD: "inert m \<Longrightarrow> rd_failed r \<Longrightarrow> snd (run_state m r) = r"
  by (simp add: inert_def)

lemma inert_return [inert_intros]: "inert (State_Monad.return x)"
  by (simp add: inert_def)

lemma inert_bind [inert_intros]:
  assumes "inert m" and "\<And>x. inert (f x)"
  shows "inert (m \<bind> f)"
  using assms by (simp add: inert_def split: prod.split) (metis snd_conv)

lemma inert_if [inert_intros]:
  "inert m \<Longrightarrow> inert n \<Longrightarrow> inert (if c then m else n)"
  by simp

lemma inert_case_sum [inert_intros]:
  "(\<And>e. inert (f e)) \<Longrightarrow> (\<And>x. inert (g x)) \<Longrightarrow> inert (case s of Inl e \<Rightarrow> f e | Inr x \<Rightarrow> g x)"
  by (cases s) simp_all

lemma inert_u8 [inert_intros]: "inert r_u8"
  by (simp add: inert_def r_u8_def)

lemma inert_be [inert_intros]: "inert (r_be n v)"
  by (induction n v rule: r_be.induct) (auto intro: inert_intros)

lemma inert_atoms [inert_intros]:
  "inert (r_fail msg)" "inert r_ok" "inert r_error" "inert r_remaining" "inert r_require_end"
  "inert (r_raw n)" "inert r_id" "inert (r_sub len)"
  by (simp_all add: inert_def r_fail_def rd_fail_def r_ok_def r_error_def r_remaining_def
        r_require_end_def r_raw_def r_id_def r_sub_def)

lemma inert_words [inert_intros]:
  "inert r_u16" "inert r_u32" "inert r_u64" "inert r_i64" "inert r_f32"
  by (simp_all add: r_u16_def r_u32_def r_u64_def r_i64_def r_f32_def inert_be)

lemma inert_bool [inert_intros]: "inert r_bool"
  unfolding r_bool_def by (intro inert_intros)

lemma inert_f64 [inert_intros]: "inert r_f64"
  unfolding r_f64_def by (intro inert_intros)

lemma inert_length [inert_intros]: "inert r_length"
  unfolding r_length_def by (intro inert_intros) (simp add: inert_def)

lemma inert_str [inert_intros]: "inert r_str"
  unfolding r_str_def by (intro inert_intros) (simp add: inert_def)

lemma inert_bytes [inert_intros]: "inert r_bytes"
  unfolding r_bytes_def by (intro inert_intros) (simp add: inert_def)

lemma inert_count [inert_intros]: "inert r_count"
  unfolding r_count_def by (intro inert_intros)

subsection \<open>Decoding what was encoded, and nothing shorter\<close>

text \<open>
  \<open>codes m v bs\<close>: on a buffer that starts with \<open>bs\<close>, the program \<open>m\<close> returns \<open>v\<close> and
  stands right behind \<open>bs\<close>; on a strict prefix of \<open>bs\<close> it fails.
\<close>

definition codes :: "'a rd \<Rightarrow> 'a \<Rightarrow> bytes \<Rightarrow> bool" where
  "codes m v bs \<longleftrightarrow>
     (\<forall>t. run_state m (mk_reader (bs @ t)) = (v, mk_reader t)) \<and>
     (\<forall>p. strict_prefix p bs \<longrightarrow> rd_failed (snd (run_state m (mk_reader p))))"

lemma codes_run: "codes m v bs \<Longrightarrow> run_state m (mk_reader (bs @ t)) = (v, mk_reader t)"
  by (simp add: codes_def)

lemma codes_run_all: "codes m v bs \<Longrightarrow> run_state m (mk_reader bs) = (v, mk_reader [])"
  using codes_run [of m v bs "[]"] by simp

lemma codes_prefix:
  "codes m v bs \<Longrightarrow> strict_prefix p bs \<Longrightarrow> rd_failed (snd (run_state m (mk_reader p)))"
  by (simp add: codes_def)

lemma codes_cong: "codes m v bs \<Longrightarrow> v = v' \<Longrightarrow> bs = bs' \<Longrightarrow> codes m v' bs'"
  by simp

lemma codes_return [codec_intros]: "codes (State_Monad.return v) v []"
  by (simp add: codes_def)

lemma codes_ok [codec_intros]: "codes r_ok True []"
  by (simp add: codes_def r_ok_def mk_reader_def)

lemma codes_error [codec_intros]: "codes r_error [] []"
  by (simp add: codes_def r_error_def mk_reader_def)

lemma codes_bind [codec_intros]:
  assumes m: "codes m v bs" and f: "codes (f v) w cs" and inert: "\<And>x. inert (f x)"
  shows "codes (m \<bind> f) w (bs @ cs)"
  unfolding codes_def
proof (intro conjI allI impI)
  fix t show "run_state (m \<bind> f) (mk_reader ((bs @ cs) @ t)) = (w, mk_reader t)"
    using codes_run [OF m, of "cs @ t"] codes_run [OF f, of t] by simp
next
  fix p assume p: "strict_prefix p (bs @ cs)"
  then consider "strict_prefix p bs" | q where "p = bs @ q" "strict_prefix q cs"
    by (rule strict_prefix_appendE)
  then show "rd_failed (snd (run_state (m \<bind> f) (mk_reader p)))"
  proof cases
    case 1
    obtain x r where xr: "run_state m (mk_reader p) = (x, r)" by fastforce
    then have "rd_failed r" using codes_prefix [OF m 1] by simp
    then show ?thesis using inertD [OF inert] by (simp add: xr)
  next
    case 2
    then show ?thesis using codes_run [OF m, of q] codes_prefix [OF f] by simp
  qed
qed

lemma codes_if [codec_intros]:
  "(c \<Longrightarrow> codes m v bs) \<Longrightarrow> (\<not> c \<Longrightarrow> codes n v cs) \<Longrightarrow>
   codes (if c then m else n) v (if c then bs else cs)"
  by simp

lemma codes_return_eq: "v = w \<Longrightarrow> codes (State_Monad.return v) w []"
  by (simp add: codes_return)

text \<open>An optional field: read when its presence bit is set, a default otherwise.\<close>

lemma codes_opt:
  assumes "c = c'" and "codes m v bs" and "\<not> c' \<Longrightarrow> d = v"
  shows "codes (if c then m else State_Monad.return d) v (if c' then bs else [])"
  using assms codes_return by auto

lemma codes_u8 [codec_intros]: "codes r_u8 v [v]"
  by (auto simp: codes_def r_u8_def mk_reader_def rd_fail_def strict_prefix_def prefix_Cons)

lemma codes_be: "codes (r_be n acc) (be_fold acc bs) bs" if "length bs = n"
  using that
proof (induction n acc arbitrary: bs rule: r_be.induct)
  case (2 n acc)
  then obtain b cs where bs: "bs = b # cs" "length cs = n" by (cases bs) auto
  have "codes (r_u8 \<bind> (\<lambda>b. r_be n (push_bit 8 acc OR ucast b))) (be_fold (push_bit 8 acc OR ucast b) cs) ([b] @ cs)"
    by (rule codes_bind [OF codes_u8]) (simp_all add: "2.IH" bs inert_be)
  then show ?case by (simp add: bs)
qed (simp add: codes_return)

text \<open>What the big-endian loop does on any buffer: enough bytes, or failure.\<close>

lemma run_be:
  "n \<le> length bs \<Longrightarrow>
     run_state (r_be n acc) (mk_reader bs) = (be_fold acc (take n bs), mk_reader (drop n bs))"
  using codes_run [OF codes_be [of "take n bs" n acc], of "drop n bs"] by simp

lemma run_be_short: "length bs < n \<Longrightarrow> rd_failed (snd (run_state (r_be n acc) (mk_reader bs)))"
  using codes_prefix [OF codes_be [of "bs @ replicate (n - length bs) 0" n acc], of bs]
  by (simp add: strict_prefix_def)

lemma codes_word:
  fixes v :: "'w::len word"
  assumes "LENGTH('w) = n * 8"
  shows "codes (r_be n 0) v (be_bytes n v)"
  using codes_be [of "be_bytes n v" n "0 :: 'w word"] by (simp add: be_fold_word [OF assms])

lemma codes_words [codec_intros]:
  "codes r_u16 a (be_bytes 2 a)" "codes r_u32 b (be_bytes 4 b)" "codes r_u64 c (be_bytes 8 c)"
  "codes r_i64 c (be_bytes 8 c)" "codes r_f32 b (be_bytes 4 b)"
  by (simp_all add: r_u16_def r_u32_def r_u64_def r_i64_def r_f32_def codes_word)

lemma codes_bool [codec_intros]: "codes r_bool v [if v then 1 else 0]"
proof -
  have "codes r_bool v ([if v then 1 else 0] @ [])"
    unfolding r_bool_def
    by (rule codes_bind [OF codes_u8]) (auto intro: inert_intros codes_cong [OF codes_return])
  then show ?thesis by simp
qed

lemma codes_f64 [codec_intros]:
  assumes "\<not> f64_nonfinite v"
  shows "codes r_f64 v (be_bytes 8 v)"
proof -
  have "codes r_f64 v (be_bytes 8 v @ [] @ [])"
    unfolding r_f64_def using assms
    by (intro codes_bind) (auto intro!: codec_intros inert_intros)
  then show ?thesis by simp
qed

lemma codes_id [codec_intros]: "codes r_id v (to_bytes v)"
proof -
  let ?m = "do { hi \<leftarrow> r_be 8 0; lo \<leftarrow> r_be 8 0; State_Monad.return (Id128 hi lo) }"
  have "codes ?m v (be_bytes 8 (id_hi v) @ be_bytes 8 (id_lo v) @ [])"
    by (rule codes_bind codes_word inert_intros | rule codes_cong [OF codes_return] | simp)+
  then have "codes ?m v (to_bytes v)" by (simp add: to_bytes_eq)
  then show ?thesis
    using length_to_bytes [of v]
    by (auto simp: codes_def r_id_def rd_fail_def mk_reader_def strict_prefix_def
          dest!: prefix_length_less [unfolded strict_prefix_def])
qed

lemma unat_of_nat_fits [simp]: "fits32 n \<Longrightarrow> unat (of_nat n :: u32) = n"
  by (simp add: unat_of_nat fits32_def)

lemma codes_bytes [codec_intros]:
  assumes "fits32 (length b)"
  shows "codes r_bytes b (be_bytes 4 (of_nat (length b) :: u32) @ b)"
  unfolding codes_def
proof (intro conjI allI impI)
  let ?l = "of_nat (length b) :: u32"
  have l: "run_state r_u32 (mk_reader (be_bytes 4 ?l @ t)) = (?l, mk_reader t)" for t
    by (rule codes_run) (rule codec_intros)
  fix t show "run_state r_bytes (mk_reader ((be_bytes 4 ?l @ b) @ t)) = (b, mk_reader t)"
    using assms by (simp add: r_bytes_def r_length_def l) (simp add: mk_reader_def)
  fix p assume "strict_prefix p (be_bytes 4 ?l @ b)"
  then consider "strict_prefix p (be_bytes 4 ?l)" | q where "p = be_bytes 4 ?l @ q" "strict_prefix q b"
    by (rule strict_prefix_appendE)
  then show "rd_failed (snd (run_state r_bytes (mk_reader p)))"
  proof cases
    case 1
    have "rd_failed (snd (run_state r_u32 (mk_reader p)))"
      by (rule codes_prefix [OF _ 1]) (rule codec_intros)
    then show ?thesis
      by (auto simp: r_bytes_def r_length_def split: prod.split)
  next
    case 2
    then have "length q < length b" by (simp add: prefix_length_less)
    then show ?thesis
      using assms by (simp add: r_bytes_def r_length_def l 2) (simp add: mk_reader_def rd_fail_def)
  qed
qed

lemma r_str_eq: "r_str = do { b \<leftarrow> r_bytes; State_Monad.return (bytes_str b) }"
  by (rule state_ext) (simp add: r_str_def r_bytes_def bytes_str_def split: prod.split)

lemma codes_str [codec_intros]:
  assumes "fits32 (length s)"
  shows "codes r_str s (be_bytes 4 (of_nat (length s) :: u32) @ str_bytes s)"
proof -
  have "codes r_str s ((be_bytes 4 (of_nat (length s) :: u32) @ str_bytes s) @ [])"
    unfolding r_str_eq
    by (rule codes_bind [where v = "str_bytes s"])
       (use codes_bytes [of "str_bytes s"] assms in \<open>auto intro: inert_intros codes_cong [OF codes_return]\<close>)
  then show ?thesis by simp
qed

lemma codes_count [codec_intros]:
  assumes "fits32 n"
  shows "codes r_count (of_nat n) (be_bytes 4 (of_nat n :: u32))"
proof -
  have "(ucast (of_nat n :: u32) :: u64) = of_nat n"
    using assms by (simp add: word_unat_eq_iff unat_of_nat unsigned_ucast_eq fits32_def take_bit_nat_eq_self)
  then have "codes r_count (of_nat n) (be_bytes 4 (of_nat n :: u32) @ [])"
    unfolding r_count_def
    by (intro codes_bind) (auto intro: codec_intros inert_intros codes_cong [OF codes_return])
  then show ?thesis by simp
qed

subsection \<open>What a successful read guarantees\<close>

text \<open>\<open>yields m P\<close>: if the reader is good after \<open>m\<close>, the value \<open>m\<close> returned satisfies \<open>P\<close>.\<close>

definition yields :: "'a rd \<Rightarrow> ('a \<Rightarrow> bool) \<Rightarrow> bool" where
  "yields m P = (\<forall>r. \<not> rd_failed (snd (run_state m r)) \<longrightarrow> P (fst (run_state m r)))"

lemma yieldsD: "yields m P \<Longrightarrow> run_state m r = (x, r') \<Longrightarrow> \<not> rd_failed r' \<Longrightarrow> P x"
  by (metis fst_conv snd_conv yields_def)

lemma yields_mono: "yields m P \<Longrightarrow> (\<And>x. P x \<Longrightarrow> Q x) \<Longrightarrow> yields m Q"
  by (auto simp: yields_def)

lemma yields_any: "yields m (\<lambda>_. True)"
  by (simp add: yields_def)

lemma yields_return: "P x \<Longrightarrow> yields (State_Monad.return x) P"
  by (simp add: yields_def)

lemma yields_bind:
  assumes "yields m P" and "\<And>x. P x \<Longrightarrow> yields (f x) Q" and "\<And>x. inert (f x)"
  shows "yields (m \<bind> f) Q"
  unfolding yields_def
proof (intro allI impI)
  fix r assume ok: "\<not> rd_failed (snd (run_state (m \<bind> f) r))"
  obtain x r' where xr: "run_state m r = (x, r')" by fastforce
  have "\<not> rd_failed r'"
    using ok inertD [OF assms(3)] by (auto simp: xr)
  then have "yields (f x) Q"
    using assms(2) yieldsD [OF assms(1) xr] by blast
  then show "Q (fst (run_state (m \<bind> f) r))"
    using ok by (simp add: yields_def xr)
qed

lemma yields_ok_if:
  "yields m Q \<Longrightarrow> inert n \<Longrightarrow> inert m \<Longrightarrow>
     yields (r_ok \<bind> (\<lambda>good. if \<not> good then n else m)) Q"
  by (auto simp: yields_def r_ok_def dest: inertD)

lemma yields_if: "(c \<Longrightarrow> yields m P) \<Longrightarrow> (\<not> c \<Longrightarrow> yields n P) \<Longrightarrow> yields (if c then m else n) P"
  by simp

lemma yields_f64: "yields r_f64 (\<lambda>v. \<not> f64_nonfinite v)"
  by (auto simp: yields_def r_f64_def r_fail_def rd_fail_def split: prod.split)

lemma unat_u32_fits: "fits32 (unat (w :: u32))"
proof -
  have "unat w < 2 ^ LENGTH(32)" by (rule unsigned_less)
  then show ?thesis by (simp add: fits32_def)
qed

lemma yields_bytes: "yields r_bytes (\<lambda>b. fits32 (length b))"
  using unat_u32_fits
  by (auto simp: yields_def r_bytes_def fits32_def min_le_iff_disj split: prod.split)

lemma yields_str: "yields r_str (\<lambda>s. fits32 (length s))"
  unfolding r_str_eq
  by (rule yields_bind [OF yields_bytes]) (auto intro!: yields_return inert_intros simp: bytes_str_def)

subsection \<open>The interface of a codec\<close>

text \<open>
  An encoder \<open>wr\<close> and a decoder \<open>rd\<close> of the values that satisfy \<open>ok\<close>; \<open>ret\<close> says how
  the decoder returns a value (as it is, or as the \<open>Ok\<close> of a result).
\<close>

locale codec =
  fixes wr :: "'a \<Rightarrow> writer \<Rightarrow> writer"
    and rd :: "'r rd"
    and ret :: "'a \<Rightarrow> 'r"
    and ok :: "'a \<Rightarrow> bool"
  assumes rd_inert: "inert rd"
    and ret_inj: "ret v = ret w \<Longrightarrow> v = w"
    and wr_codes: "ok v \<Longrightarrow> \<exists>bs. emits (wr v) bs \<and> codes rd (ret v) bs"
begin

lemma wr_run:
  assumes "ok v"
  obtains bs where "\<And>b. wr v (Ok b) = Ok (b @ bs)" "codes rd (ret v) bs"
  using wr_codes [OF assms] that by (auto simp: emits_def)

lemma emits_codes: "ok v \<Longrightarrow> emits (wr v) bs \<Longrightarrow> codes rd (ret v) bs"
  using wr_codes emits_unique by blast

lemma wr_inj:
  assumes "ok v" "ok w" "wr v (Ok b) = wr w (Ok b)"
  shows "v = w"
proof -
  obtain bs where bs: "\<And>b. wr v (Ok b) = Ok (b @ bs)" "codes rd (ret v) bs"
    using wr_run [OF assms(1)] by metis
  obtain cs where cs: "\<And>b. wr w (Ok b) = Ok (b @ cs)" "codes rd (ret w) cs"
    using wr_run [OF assms(2)] by metis
  have "bs = cs" using assms(3) bs(1) cs(1) by simp
  then have "ret v = ret w" using codes_run_all [OF bs(2)] codes_run_all [OF cs(2)] by simp
  then show ?thesis by (rule ret_inj)
qed

text \<open>No encoding is a strict prefix of another: the next field never has to be guessed.\<close>

lemma wr_prefix_free:
  assumes "ok v" "ok w" "emits (wr v) bs" "emits (wr w) cs"
  shows "\<not> strict_prefix bs cs"
proof
  assume "strict_prefix bs cs"
  then have "rd_failed (snd (run_state rd (mk_reader bs)))"
    using codes_prefix [OF emits_codes [OF assms(2,4)]] by blast
  then show False
    using codes_run_all [OF emits_codes [OF assms(1,3)]] by (simp add: mk_reader_def)
qed

end

interpretation u64_codec: codec write_u64 r_u64 "\<lambda>v. v" "\<lambda>_. True"
  by unfold_locales (auto intro: codec_intros inert_intros)

interpretation id_codec: codec write_id r_id "\<lambda>v. v" "\<lambda>_. True"
  by unfold_locales (auto intro: codec_intros inert_intros)

interpretation f64_codec: codec write_f64 r_f64 "\<lambda>v. v" "\<lambda>v. \<not> f64_nonfinite v"
  by unfold_locales (auto intro: codec_intros inert_intros)

interpretation str_codec: codec write_str r_str "\<lambda>v. v" "\<lambda>s. fits32 (length s)"
  by unfold_locales (auto intro: codec_intros inert_intros)

interpretation bytes_codec: codec write_bytes r_bytes "\<lambda>v. v" "\<lambda>b. fits32 (length b)"
  by unfold_locales (auto intro: codec_intros inert_intros)

text \<open>
  A payload codec works on whole byte strings: what was encoded decodes, a truncated payload
  and one with trailing bytes are errors.
\<close>

locale payload_codec =
  fixes encode :: "'a \<Rightarrow> bytes result"
    and decode :: "bytes \<Rightarrow> 'a result"
    and ok :: "'a \<Rightarrow> bool"
  assumes encode_ok: "ok v \<Longrightarrow> \<exists>bs. encode v = Ok bs"
    and decode_encode: "ok v \<Longrightarrow> encode v = Ok bs \<Longrightarrow> decode bs = Ok v"
    and decode_prefix: "ok v \<Longrightarrow> encode v = Ok bs \<Longrightarrow> strict_prefix p bs \<Longrightarrow> isl (decode p)"
    and decode_trailing: "ok v \<Longrightarrow> encode v = Ok bs \<Longrightarrow> t \<noteq> [] \<Longrightarrow> isl (decode (bs @ t))"
begin

lemma encode_inj: "ok v \<Longrightarrow> ok w \<Longrightarrow> encode v = encode w \<Longrightarrow> v = w"
  by (metis decode_encode encode_ok sum.inject(2))

lemma encode_roundtrip: "ok v \<Longrightarrow> \<exists>bs. encode v = Ok bs \<and> decode bs = Ok v"
  using encode_ok decode_encode by blast

text \<open>The only extensions and truncations of an encoding that decode are the encoding itself.\<close>

lemma decode_exact:
  assumes "ok v" "encode v = Ok bs" "prefix p bs \<or> prefix bs p" "decode p = Ok w"
  shows "p = bs \<and> w = v"
proof -
  have "p = bs"
  proof (rule ccontr)
    assume "p \<noteq> bs"
    then have "isl (decode p)"
      using assms decode_prefix decode_trailing
      by (metis append_Nil2 prefix_def strict_prefix_def)
    then show False using assms(4) by simp
  qed
  then show ?thesis using assms decode_encode by force
qed

end

text \<open>
  Every payload decoder of the program has one shape: run the field decoder over the whole
  buffer, report its failure, require the end.
\<close>

locale checked_payload = codec wr rd ret ok
  for wr :: "'a \<Rightarrow> writer \<Rightarrow> writer" and rd :: "'r rd" and ret :: "'a \<Rightarrow> 'r" and ok :: "'a \<Rightarrow> bool" +
  fixes encode :: "'a \<Rightarrow> bytes result"
    and decode :: "bytes \<Rightarrow> 'a result"
  assumes encode_wr: "encode v = wr v (Ok [])"
    and decode_good: "run_state rd (mk_reader b) = (ret v, mk_reader []) \<Longrightarrow> decode b = Ok v"
    and decode_failed: "rd_failed (snd (run_state rd (mk_reader b))) \<Longrightarrow> isl (decode b)"
    and decode_rest: "rd_rest (snd (run_state rd (mk_reader b))) \<noteq> [] \<Longrightarrow> isl (decode b)"
begin

lemma encode_codes: "ok v \<Longrightarrow> encode v = Ok bs \<Longrightarrow> codes rd (ret v) bs"
  using wr_codes by (fastforce simp: encode_wr emits_def)

end

sublocale checked_payload \<subseteq> payload_codec encode decode ok
proof
  fix v bs assume v: "ok v"
  show "\<exists>bs. encode v = Ok bs"
    using wr_codes [OF v] by (auto simp: encode_wr emits_def)
  assume bs: "encode v = Ok bs"
  note c = encode_codes [OF v bs]
  show "decode bs = Ok v"
    using codes_run_all [OF c] by (rule decode_good)
  show "isl (decode p)" if "strict_prefix p bs" for p
    using codes_prefix [OF c that] by (rule decode_failed)
  show "isl (decode (bs @ t))" if "t \<noteq> []" for t
    using codes_run [OF c, of t] that by (intro decode_rest) (simp add: mk_reader_def)
qed

end
