(* ===== verification/Enums.thy ===== *)
theory Enums
  imports Prelude
begin

section \<open>Enumerations\<close>

text \<open>
  \<^verbatim>\<open>include/servingobs/core/enums.hpp\<close> and the enum part of \<^verbatim>\<open>src/core.cpp\<close>: each
  scoped enum is a datatype, with its underlying number (\<open>..._num\<close>), the cast back from a
  number in range (\<open>..._of_num\<close>), its printed name and the parser of its code.
\<close>

unbundle bit_operations_syntax

subsection \<open>Observation types\<close>

datatype obs_type = OT_UNKNOWN | OT_REQUEST | OT_ADMISSION | OT_QUEUE_ENTER | OT_QUEUE_LEAVE
    | OT_BATCH_FORM | OT_BATCH_SEAL | OT_BATCH_SPLIT | OT_BATCH_MERGE | OT_DISPATCH
    | OT_PREFILL_START | OT_PREFILL_END | OT_DECODE_STEP_START | OT_DECODE_STEP_END
    | OT_SPECULATION_START | OT_SPECULATION_VERIFY | OT_KV_LOOKUP | OT_KV_HIT | OT_KV_MISS
    | OT_KV_GROWTH | OT_MODEL_RESIDENCY | OT_ADAPTER_RESIDENCY | OT_KERNEL_LOOKUP
    | OT_KERNEL_HIT | OT_KERNEL_MISS | OT_GRAPH_LOOKUP | OT_GRAPH_HIT | OT_GRAPH_MISS
    | OT_ALLOCATION | OT_FREE | OT_TRANSFER_START | OT_TRANSFER_END | OT_RETRY | OT_CANCEL
    | OT_FAILURE | OT_WORKER_DOWN | OT_WORKER_RESTART | OT_RECOVERY | OT_COMPLETION
    | OT_SLO_STATE | OT_QUOTA_STATE | OT_CAPACITY_STATE

definition obs_types :: "obs_type list" where
  "obs_types = [
    OT_UNKNOWN, OT_REQUEST, OT_ADMISSION, OT_QUEUE_ENTER, OT_QUEUE_LEAVE, OT_BATCH_FORM, 
    OT_BATCH_SEAL, OT_BATCH_SPLIT, OT_BATCH_MERGE, OT_DISPATCH, OT_PREFILL_START, 
    OT_PREFILL_END, OT_DECODE_STEP_START, OT_DECODE_STEP_END, OT_SPECULATION_START, 
    OT_SPECULATION_VERIFY, OT_KV_LOOKUP, OT_KV_HIT, OT_KV_MISS, OT_KV_GROWTH, 
    OT_MODEL_RESIDENCY, OT_ADAPTER_RESIDENCY, OT_KERNEL_LOOKUP, OT_KERNEL_HIT, OT_KERNEL_MISS, 
    OT_GRAPH_LOOKUP, OT_GRAPH_HIT, OT_GRAPH_MISS, OT_ALLOCATION, OT_FREE, OT_TRANSFER_START, 
    OT_TRANSFER_END, OT_RETRY, OT_CANCEL, OT_FAILURE, OT_WORKER_DOWN, OT_WORKER_RESTART, 
    OT_RECOVERY, OT_COMPLETION, OT_SLO_STATE, OT_QUOTA_STATE, OT_CAPACITY_STATE]"

primrec obs_type_num :: "obs_type \<Rightarrow> u16" where
  "obs_type_num OT_UNKNOWN = 0"
| "obs_type_num OT_REQUEST = 1"
| "obs_type_num OT_ADMISSION = 2"
| "obs_type_num OT_QUEUE_ENTER = 3"
| "obs_type_num OT_QUEUE_LEAVE = 4"
| "obs_type_num OT_BATCH_FORM = 5"
| "obs_type_num OT_BATCH_SEAL = 6"
| "obs_type_num OT_BATCH_SPLIT = 7"
| "obs_type_num OT_BATCH_MERGE = 8"
| "obs_type_num OT_DISPATCH = 9"
| "obs_type_num OT_PREFILL_START = 10"
| "obs_type_num OT_PREFILL_END = 11"
| "obs_type_num OT_DECODE_STEP_START = 12"
| "obs_type_num OT_DECODE_STEP_END = 13"
| "obs_type_num OT_SPECULATION_START = 14"
| "obs_type_num OT_SPECULATION_VERIFY = 15"
| "obs_type_num OT_KV_LOOKUP = 16"
| "obs_type_num OT_KV_HIT = 17"
| "obs_type_num OT_KV_MISS = 18"
| "obs_type_num OT_KV_GROWTH = 19"
| "obs_type_num OT_MODEL_RESIDENCY = 20"
| "obs_type_num OT_ADAPTER_RESIDENCY = 21"
| "obs_type_num OT_KERNEL_LOOKUP = 22"
| "obs_type_num OT_KERNEL_HIT = 23"
| "obs_type_num OT_KERNEL_MISS = 24"
| "obs_type_num OT_GRAPH_LOOKUP = 25"
| "obs_type_num OT_GRAPH_HIT = 26"
| "obs_type_num OT_GRAPH_MISS = 27"
| "obs_type_num OT_ALLOCATION = 28"
| "obs_type_num OT_FREE = 29"
| "obs_type_num OT_TRANSFER_START = 30"
| "obs_type_num OT_TRANSFER_END = 31"
| "obs_type_num OT_RETRY = 32"
| "obs_type_num OT_CANCEL = 33"
| "obs_type_num OT_FAILURE = 34"
| "obs_type_num OT_WORKER_DOWN = 35"
| "obs_type_num OT_WORKER_RESTART = 36"
| "obs_type_num OT_RECOVERY = 37"
| "obs_type_num OT_COMPLETION = 38"
| "obs_type_num OT_SLO_STATE = 39"
| "obs_type_num OT_QUOTA_STATE = 40"
| "obs_type_num OT_CAPACITY_STATE = 41"

definition obs_type_of_num :: "u16 \<Rightarrow> obs_type" where
  "obs_type_of_num n = obs_types ! unat n"

primrec obs_type_name :: "obs_type \<Rightarrow> string" where
  "obs_type_name OT_UNKNOWN = ''unknown''"
| "obs_type_name OT_REQUEST = ''request''"
| "obs_type_name OT_ADMISSION = ''admission''"
| "obs_type_name OT_QUEUE_ENTER = ''queue_enter''"
| "obs_type_name OT_QUEUE_LEAVE = ''queue_leave''"
| "obs_type_name OT_BATCH_FORM = ''batch_form''"
| "obs_type_name OT_BATCH_SEAL = ''batch_seal''"
| "obs_type_name OT_BATCH_SPLIT = ''batch_split''"
| "obs_type_name OT_BATCH_MERGE = ''batch_merge''"
| "obs_type_name OT_DISPATCH = ''dispatch''"
| "obs_type_name OT_PREFILL_START = ''prefill_start''"
| "obs_type_name OT_PREFILL_END = ''prefill_end''"
| "obs_type_name OT_DECODE_STEP_START = ''decode_step_start''"
| "obs_type_name OT_DECODE_STEP_END = ''decode_step_end''"
| "obs_type_name OT_SPECULATION_START = ''speculation_start''"
| "obs_type_name OT_SPECULATION_VERIFY = ''speculation_verify''"
| "obs_type_name OT_KV_LOOKUP = ''kv_lookup''"
| "obs_type_name OT_KV_HIT = ''kv_hit''"
| "obs_type_name OT_KV_MISS = ''kv_miss''"
| "obs_type_name OT_KV_GROWTH = ''kv_growth''"
| "obs_type_name OT_MODEL_RESIDENCY = ''model_residency''"
| "obs_type_name OT_ADAPTER_RESIDENCY = ''adapter_residency''"
| "obs_type_name OT_KERNEL_LOOKUP = ''kernel_lookup''"
| "obs_type_name OT_KERNEL_HIT = ''kernel_hit''"
| "obs_type_name OT_KERNEL_MISS = ''kernel_miss''"
| "obs_type_name OT_GRAPH_LOOKUP = ''graph_lookup''"
| "obs_type_name OT_GRAPH_HIT = ''graph_hit''"
| "obs_type_name OT_GRAPH_MISS = ''graph_miss''"
| "obs_type_name OT_ALLOCATION = ''allocation''"
| "obs_type_name OT_FREE = ''free''"
| "obs_type_name OT_TRANSFER_START = ''transfer_start''"
| "obs_type_name OT_TRANSFER_END = ''transfer_end''"
| "obs_type_name OT_RETRY = ''retry''"
| "obs_type_name OT_CANCEL = ''cancel''"
| "obs_type_name OT_FAILURE = ''failure''"
| "obs_type_name OT_WORKER_DOWN = ''worker_down''"
| "obs_type_name OT_WORKER_RESTART = ''worker_restart''"
| "obs_type_name OT_RECOVERY = ''recovery''"
| "obs_type_name OT_COMPLETION = ''completion''"
| "obs_type_name OT_SLO_STATE = ''slo_state''"
| "obs_type_name OT_QUOTA_STATE = ''quota_state''"
| "obs_type_name OT_CAPACITY_STATE = ''capacity_state''"

definition obs_type_code :: "obs_type \<Rightarrow> string" where
  "obs_type_code t = obs_type_name t"

text \<open>The \<^verbatim>\<open>X(name)\<close> table: a code is the upper-case enumerator.\<close>

definition obs_type_table :: "(string \<times> obs_type) list" where
  "obs_type_table =
    [(''REQUEST'', OT_REQUEST),
     (''ADMISSION'', OT_ADMISSION),
     (''QUEUE_ENTER'', OT_QUEUE_ENTER),
     (''QUEUE_LEAVE'', OT_QUEUE_LEAVE),
     (''BATCH_FORM'', OT_BATCH_FORM),
     (''BATCH_SEAL'', OT_BATCH_SEAL),
     (''BATCH_SPLIT'', OT_BATCH_SPLIT),
     (''BATCH_MERGE'', OT_BATCH_MERGE),
     (''DISPATCH'', OT_DISPATCH),
     (''PREFILL_START'', OT_PREFILL_START),
     (''PREFILL_END'', OT_PREFILL_END),
     (''DECODE_STEP_START'', OT_DECODE_STEP_START),
     (''DECODE_STEP_END'', OT_DECODE_STEP_END),
     (''SPECULATION_START'', OT_SPECULATION_START),
     (''SPECULATION_VERIFY'', OT_SPECULATION_VERIFY),
     (''KV_LOOKUP'', OT_KV_LOOKUP),
     (''KV_HIT'', OT_KV_HIT),
     (''KV_MISS'', OT_KV_MISS),
     (''KV_GROWTH'', OT_KV_GROWTH),
     (''MODEL_RESIDENCY'', OT_MODEL_RESIDENCY),
     (''ADAPTER_RESIDENCY'', OT_ADAPTER_RESIDENCY),
     (''KERNEL_LOOKUP'', OT_KERNEL_LOOKUP),
     (''KERNEL_HIT'', OT_KERNEL_HIT),
     (''KERNEL_MISS'', OT_KERNEL_MISS),
     (''GRAPH_LOOKUP'', OT_GRAPH_LOOKUP),
     (''GRAPH_HIT'', OT_GRAPH_HIT),
     (''GRAPH_MISS'', OT_GRAPH_MISS),
     (''ALLOCATION'', OT_ALLOCATION),
     (''FREE'', OT_FREE),
     (''TRANSFER_START'', OT_TRANSFER_START),
     (''TRANSFER_END'', OT_TRANSFER_END),
     (''RETRY'', OT_RETRY),
     (''CANCEL'', OT_CANCEL),
     (''FAILURE'', OT_FAILURE),
     (''WORKER_DOWN'', OT_WORKER_DOWN),
     (''WORKER_RESTART'', OT_WORKER_RESTART),
     (''RECOVERY'', OT_RECOVERY),
     (''COMPLETION'', OT_COMPLETION),
     (''SLO_STATE'', OT_SLO_STATE),
     (''QUOTA_STATE'', OT_QUOTA_STATE),
     (''CAPACITY_STATE'', OT_CAPACITY_STATE)]"

definition obs_type_from_code :: "string \<Rightarrow> obs_type" where
  "obs_type_from_code code =
     (case map_of obs_type_table code of Some t \<Rightarrow> t | None \<Rightarrow> OT_UNKNOWN)"

lemma obs_type_num_le: "obs_type_num x \<le> 41"
  by (cases x) simp_all

lemma obs_type_of_num_num [simp]: "obs_type_of_num (obs_type_num x) = x"
  by (cases x) (simp_all add: obs_type_of_num_def obs_types_def)

subsection \<open>Provenance\<close>

datatype provenance = PV_UNKNOWN | PV_MEASURED | PV_REPORTED | PV_DERIVED | PV_ESTIMATED
    | PV_RECONSTRUCTED | PV_HEURISTIC

definition provenances :: "provenance list" where
  "provenances = [
    PV_UNKNOWN, PV_MEASURED, PV_REPORTED, PV_DERIVED, PV_ESTIMATED, PV_RECONSTRUCTED, 
    PV_HEURISTIC]"

primrec provenance_num :: "provenance \<Rightarrow> u8" where
  "provenance_num PV_UNKNOWN = 0"
| "provenance_num PV_MEASURED = 1"
| "provenance_num PV_REPORTED = 2"
| "provenance_num PV_DERIVED = 3"
| "provenance_num PV_ESTIMATED = 4"
| "provenance_num PV_RECONSTRUCTED = 5"
| "provenance_num PV_HEURISTIC = 6"

definition provenance_of_num :: "u8 \<Rightarrow> provenance" where
  "provenance_of_num n = provenances ! unat n"

primrec provenance_name :: "provenance \<Rightarrow> string" where
  "provenance_name PV_UNKNOWN = ''unknown''"
| "provenance_name PV_MEASURED = ''measured''"
| "provenance_name PV_REPORTED = ''reported''"
| "provenance_name PV_DERIVED = ''derived''"
| "provenance_name PV_ESTIMATED = ''estimated''"
| "provenance_name PV_RECONSTRUCTED = ''reconstructed''"
| "provenance_name PV_HEURISTIC = ''heuristic''"

definition provenance_from_code :: "string \<Rightarrow> provenance" where
  "provenance_from_code code =
     (if code = ''measured'' then PV_MEASURED
      else if code = ''reported'' then PV_REPORTED
      else if code = ''derived'' then PV_DERIVED
      else if code = ''estimated'' then PV_ESTIMATED
      else if code = ''reconstructed'' then PV_RECONSTRUCTED
      else if code = ''heuristic'' then PV_HEURISTIC
      else PV_UNKNOWN)"

lemma provenance_num_le: "provenance_num x \<le> 6"
  by (cases x) simp_all

lemma provenance_of_num_num [simp]: "provenance_of_num (provenance_num x) = x"
  by (cases x) (simp_all add: provenance_of_num_def provenances_def)

subsection \<open>Explanation classes\<close>

datatype explanation_class = EC_UNKNOWN | EC_DIRECTLY_EVIDENCED | EC_STRUCTURALLY_DERIVED
    | EC_TEMPORALLY_CORRELATED | EC_PLAUSIBLE_BUT_UNPROVEN | EC_CONTRADICTED

definition explanation_classs :: "explanation_class list" where
  "explanation_classs = [
    EC_UNKNOWN, EC_DIRECTLY_EVIDENCED, EC_STRUCTURALLY_DERIVED, EC_TEMPORALLY_CORRELATED, 
    EC_PLAUSIBLE_BUT_UNPROVEN, EC_CONTRADICTED]"

primrec explanation_class_num :: "explanation_class \<Rightarrow> u8" where
  "explanation_class_num EC_UNKNOWN = 0"
| "explanation_class_num EC_DIRECTLY_EVIDENCED = 1"
| "explanation_class_num EC_STRUCTURALLY_DERIVED = 2"
| "explanation_class_num EC_TEMPORALLY_CORRELATED = 3"
| "explanation_class_num EC_PLAUSIBLE_BUT_UNPROVEN = 4"
| "explanation_class_num EC_CONTRADICTED = 5"

definition explanation_class_of_num :: "u8 \<Rightarrow> explanation_class" where
  "explanation_class_of_num n = explanation_classs ! unat n"

primrec explanation_class_name :: "explanation_class \<Rightarrow> string" where
  "explanation_class_name EC_UNKNOWN = ''unknown''"
| "explanation_class_name EC_DIRECTLY_EVIDENCED = ''directly_evidenced''"
| "explanation_class_name EC_STRUCTURALLY_DERIVED = ''structurally_derived''"
| "explanation_class_name EC_TEMPORALLY_CORRELATED = ''temporally_correlated''"
| "explanation_class_name EC_PLAUSIBLE_BUT_UNPROVEN = ''plausible_but_unproven''"
| "explanation_class_name EC_CONTRADICTED = ''contradicted''"

definition explanation_class_from_code :: "string \<Rightarrow> explanation_class" where
  "explanation_class_from_code code =
     (if code = ''directly_evidenced'' then EC_DIRECTLY_EVIDENCED
      else if code = ''structurally_derived'' then EC_STRUCTURALLY_DERIVED
      else if code = ''temporally_correlated'' then EC_TEMPORALLY_CORRELATED
      else if code = ''plausible_but_unproven'' then EC_PLAUSIBLE_BUT_UNPROVEN
      else if code = ''contradicted'' then EC_CONTRADICTED
      else EC_UNKNOWN)"

lemma explanation_class_num_le: "explanation_class_num x \<le> 5"
  by (cases x) simp_all

lemma explanation_class_of_num_num [simp]: "explanation_class_of_num (explanation_class_num x) = x"
  by (cases x) (simp_all add: explanation_class_of_num_def explanation_classs_def)

subsection \<open>Source health\<close>

datatype source_health = SH_UNKNOWN | SH_HEALTHY | SH_DEGRADED | SH_STALE | SH_DOWN
    | SH_RESTARTING | SH_REJECTED

definition source_healths :: "source_health list" where
  "source_healths = [
    SH_UNKNOWN, SH_HEALTHY, SH_DEGRADED, SH_STALE, SH_DOWN, SH_RESTARTING, SH_REJECTED]"

primrec source_health_num :: "source_health \<Rightarrow> u8" where
  "source_health_num SH_UNKNOWN = 0"
| "source_health_num SH_HEALTHY = 1"
| "source_health_num SH_DEGRADED = 2"
| "source_health_num SH_STALE = 3"
| "source_health_num SH_DOWN = 4"
| "source_health_num SH_RESTARTING = 5"
| "source_health_num SH_REJECTED = 6"

definition source_health_of_num :: "u8 \<Rightarrow> source_health" where
  "source_health_of_num n = source_healths ! unat n"

primrec source_health_name :: "source_health \<Rightarrow> string" where
  "source_health_name SH_UNKNOWN = ''unknown''"
| "source_health_name SH_HEALTHY = ''healthy''"
| "source_health_name SH_DEGRADED = ''degraded''"
| "source_health_name SH_STALE = ''stale''"
| "source_health_name SH_DOWN = ''down''"
| "source_health_name SH_RESTARTING = ''restarting''"
| "source_health_name SH_REJECTED = ''rejected''"

definition source_health_from_code :: "string \<Rightarrow> source_health" where
  "source_health_from_code code =
     (if code = ''healthy'' then SH_HEALTHY
      else if code = ''degraded'' then SH_DEGRADED
      else if code = ''stale'' then SH_STALE
      else if code = ''down'' then SH_DOWN
      else if code = ''restarting'' then SH_RESTARTING
      else if code = ''rejected'' then SH_REJECTED
      else SH_UNKNOWN)"

lemma source_health_num_le: "source_health_num x \<le> 6"
  by (cases x) simp_all

lemma source_health_of_num_num [simp]: "source_health_of_num (source_health_num x) = x"
  by (cases x) (simp_all add: source_health_of_num_def source_healths_def)

subsection \<open>Terminal outcomes\<close>

datatype outcome = OC_UNKNOWN | OC_COMPLETED | OC_FAILED | OC_CANCELLED | OC_TIMED_OUT
    | OC_PREEMPTED | OC_ABANDONED | OC_RETRIED | OC_PARTIAL

definition outcomes :: "outcome list" where
  "outcomes = [
    OC_UNKNOWN, OC_COMPLETED, OC_FAILED, OC_CANCELLED, OC_TIMED_OUT, OC_PREEMPTED, 
    OC_ABANDONED, OC_RETRIED, OC_PARTIAL]"

primrec outcome_num :: "outcome \<Rightarrow> u8" where
  "outcome_num OC_UNKNOWN = 0"
| "outcome_num OC_COMPLETED = 1"
| "outcome_num OC_FAILED = 2"
| "outcome_num OC_CANCELLED = 3"
| "outcome_num OC_TIMED_OUT = 4"
| "outcome_num OC_PREEMPTED = 5"
| "outcome_num OC_ABANDONED = 6"
| "outcome_num OC_RETRIED = 7"
| "outcome_num OC_PARTIAL = 8"

definition outcome_of_num :: "u8 \<Rightarrow> outcome" where
  "outcome_of_num n = outcomes ! unat n"

primrec outcome_name :: "outcome \<Rightarrow> string" where
  "outcome_name OC_UNKNOWN = ''unknown''"
| "outcome_name OC_COMPLETED = ''completed''"
| "outcome_name OC_FAILED = ''failed''"
| "outcome_name OC_CANCELLED = ''cancelled''"
| "outcome_name OC_TIMED_OUT = ''timed_out''"
| "outcome_name OC_PREEMPTED = ''preempted''"
| "outcome_name OC_ABANDONED = ''abandoned''"
| "outcome_name OC_RETRIED = ''retried''"
| "outcome_name OC_PARTIAL = ''partial''"

definition outcome_from_code :: "string \<Rightarrow> outcome" where
  "outcome_from_code code =
     (if code = ''completed'' then OC_COMPLETED
      else if code = ''failed'' then OC_FAILED
      else if code = ''cancelled'' then OC_CANCELLED
      else if code = ''timed_out'' then OC_TIMED_OUT
      else if code = ''preempted'' then OC_PREEMPTED
      else if code = ''abandoned'' then OC_ABANDONED
      else if code = ''retried'' then OC_RETRIED
      else if code = ''partial'' then OC_PARTIAL
      else OC_UNKNOWN)"

lemma outcome_num_le: "outcome_num x \<le> 8"
  by (cases x) simp_all

lemma outcome_of_num_num [simp]: "outcome_of_num (outcome_num x) = x"
  by (cases x) (simp_all add: outcome_of_num_def outcomes_def)

subsection \<open>Queue kinds\<close>

datatype queue_kind = QK_UNKNOWN | QK_ADMISSION | QK_SCHEDULER | QK_BATCH | QK_PREEMPTION

definition queue_kinds :: "queue_kind list" where
  "queue_kinds = [
    QK_UNKNOWN, QK_ADMISSION, QK_SCHEDULER, QK_BATCH, QK_PREEMPTION]"

primrec queue_kind_num :: "queue_kind \<Rightarrow> u8" where
  "queue_kind_num QK_UNKNOWN = 0"
| "queue_kind_num QK_ADMISSION = 1"
| "queue_kind_num QK_SCHEDULER = 2"
| "queue_kind_num QK_BATCH = 3"
| "queue_kind_num QK_PREEMPTION = 4"

definition queue_kind_of_num :: "u8 \<Rightarrow> queue_kind" where
  "queue_kind_of_num n = queue_kinds ! unat n"

primrec queue_kind_name :: "queue_kind \<Rightarrow> string" where
  "queue_kind_name QK_UNKNOWN = ''unknown''"
| "queue_kind_name QK_ADMISSION = ''admission''"
| "queue_kind_name QK_SCHEDULER = ''scheduler''"
| "queue_kind_name QK_BATCH = ''batch''"
| "queue_kind_name QK_PREEMPTION = ''preemption''"

definition queue_kind_from_code :: "string \<Rightarrow> queue_kind" where
  "queue_kind_from_code code =
     (if code = ''admission'' then QK_ADMISSION
      else if code = ''scheduler'' then QK_SCHEDULER
      else if code = ''batch'' then QK_BATCH
      else if code = ''preemption'' then QK_PREEMPTION
      else QK_UNKNOWN)"

lemma queue_kind_num_le: "queue_kind_num x \<le> 4"
  by (cases x) simp_all

lemma queue_kind_of_num_num [simp]: "queue_kind_of_num (queue_kind_num x) = x"
  by (cases x) (simp_all add: queue_kind_of_num_def queue_kinds_def)

subsection \<open>Names and codes\<close>

lemma provenance_roundtrip: "provenance_from_code (provenance_name x) = x"
  by (cases x) (simp_all add: provenance_from_code_def)

lemma explanation_class_roundtrip: "explanation_class_from_code (explanation_class_name x) = x"
  by (cases x) (simp_all add: explanation_class_from_code_def)

lemma source_health_roundtrip: "source_health_from_code (source_health_name x) = x"
  by (cases x) (simp_all add: source_health_from_code_def)

lemma outcome_roundtrip: "outcome_from_code (outcome_name x) = x"
  by (cases x) (simp_all add: outcome_from_code_def)

lemma queue_kind_roundtrip: "queue_kind_from_code (queue_kind_name x) = x"
  by (cases x) (simp_all add: queue_kind_from_code_def)

text \<open>For provenance, explanation class, source health, outcome and queue kind the code
  parser inverts the printed name, for every enumerator.
\<close>

theorem enum_code_roundtrips:
  "provenance_from_code (provenance_name p) = p \<and>
   explanation_class_from_code (explanation_class_name c) = c \<and>
   source_health_from_code (source_health_name h) = h \<and>
   outcome_from_code (outcome_name oc) = oc \<and>
   queue_kind_from_code (queue_kind_name q) = q"
  by (intro conjI provenance_roundtrip explanation_class_roundtrip source_health_roundtrip
      outcome_roundtrip queue_kind_roundtrip)

text \<open>Not so for observation types: \<^verbatim>\<open>obs_type_code\<close> prints lower-case names while
  \<^verbatim>\<open>obs_type_from_code\<close> accepts upper-case enumerators only, so the code of every
  observation type parses to UNKNOWN.
\<close>

theorem obs_type_code_not_parsed: "obs_type_from_code (obs_type_code t) = OT_UNKNOWN"
  by (cases t) (simp_all add: obs_type_from_code_def obs_type_code_def obs_type_table_def)

end
