(* ===== verification/Sha256.thy ===== *)
theory Sha256
  imports Identity
begin

section \<open>SHA-256\<close>

text \<open>
  \<^verbatim>\<open>include/servingobs/core/digest.hpp\<close> and the \<^verbatim>\<open>sha256\<close> part of \<^verbatim>\<open>src/core.cpp\<close>: the
  incremental hash with its 64-byte buffer, which is compressed lazily (only when another
  byte arrives), the padding done by feeding single bytes, and the hexadecimal form of a
  digest. The specification \<open>sha256_spec\<close> is the one of FIPS 180-4: pad the whole message,
  cut it into blocks, fold the compression function over them.
\<close>

unbundle bit_operations_syntax

subsection \<open>The compression function\<close>

text \<open>The 64 round constants of the table \<^verbatim>\<open>K\<close>, in decimal.\<close>

definition sha_K :: "u32 list" where
  "sha_K =
    [1116352408, 1899447441, 3049323471, 3921009573, 961987163, 1508970993,
     2453635748, 2870763221, 3624381080, 310598401, 607225278, 1426881987,
     1925078388, 2162078206, 2614888103, 3248222580, 3835390401, 4022224774,
     264347078, 604807628, 770255983, 1249150122, 1555081692, 1996064986,
     2554220882, 2821834349, 2952996808, 3210313671, 3336571891, 3584528711,
     113926993, 338241895, 666307205, 773529912, 1294757372, 1396182291,
     1695183700, 1986661051, 2177026350, 2456956037, 2730485921, 2820302411,
     3259730800, 3345764771, 3516065817, 3600352804, 4094571909, 275423344,
     430227734, 506948616, 659060556, 883997877, 958139571, 1322822218,
     1537002063, 1747873779, 1955562222, 2024104815, 2227730452, 2361852424,
     2428436474, 2756734187, 3204031479, 3329325298]"

definition rr :: "u32 \<Rightarrow> nat \<Rightarrow> u32" where
  "rr x n = drop_bit n x OR push_bit (32 - n) x"

definition block_word :: "bytes \<Rightarrow> nat \<Rightarrow> u32" where
  "block_word p i =
     push_bit 24 (ucast (p ! (i * 4))) OR push_bit 16 (ucast (p ! (i * 4 + 1))) OR
     push_bit 8 (ucast (p ! (i * 4 + 2))) OR ucast (p ! (i * 4 + 3))"

definition schedule_step :: "u32 list \<Rightarrow> nat \<Rightarrow> u32 list" where
  "schedule_step w i =
     (let s0 = rr (w ! (i - 15)) 7 XOR rr (w ! (i - 15)) 18 XOR drop_bit 3 (w ! (i - 15));
          s1 = rr (w ! (i - 2)) 17 XOR rr (w ! (i - 2)) 19 XOR drop_bit 10 (w ! (i - 2))
      in w @ [w ! (i - 16) + s0 + w ! (i - 7) + s1])"

definition sha_schedule :: "bytes \<Rightarrow> u32 list" where
  "sha_schedule p = foldl schedule_step (map (block_word p) [0..<16]) [16..<64]"

type_synonym sha_regs = "u32 \<times> u32 \<times> u32 \<times> u32 \<times> u32 \<times> u32 \<times> u32 \<times> u32"

fun sha_round :: "sha_regs \<Rightarrow> u32 \<times> u32 \<Rightarrow> sha_regs" where
  "sha_round (a, b, c, d, e, f, g, hh) (k, w) =
     (let S1 = rr e 6 XOR rr e 11 XOR rr e 25;
          ch = (e AND f) XOR (NOT e AND g);
          t1 = hh + S1 + ch + k + w;
          S0 = rr a 2 XOR rr a 13 XOR rr a 22;
          maj = (a AND b) XOR (a AND c) XOR (b AND c);
          t2 = S0 + maj
      in (t1 + t2, a, b, c, d + t1, e, f, g))"

fun sha_add :: "sha_regs \<Rightarrow> sha_regs \<Rightarrow> sha_regs" where
  "sha_add (h0, h1, h2, h3, h4, h5, h6, h7) (a, b, c, d, e, f, g, hh) =
     (h0 + a, h1 + b, h2 + c, h3 + d, h4 + e, h5 + f, h6 + g, h7 + hh)"

definition compress :: "sha_regs \<Rightarrow> bytes \<Rightarrow> sha_regs" where
  "compress h p = sha_add h (foldl sha_round h (zip sha_K (sha_schedule p)))"

subsection \<open>The incremental state\<close>

text \<open>\<^verbatim>\<open>buf_\<close> is the part of the buffer that is filled, \<^verbatim>\<open>buf_len_\<close> its length.\<close>

record sha =
  sh_h :: sha_regs
  sh_total :: u64
  sh_buf :: bytes

definition sha_init :: sha where
  "sha_init =
     \<lparr>sh_h = (0x6a09e667, 0xbb67ae85, 0x3c6ef372, 0xa54ff53a, 0x510e527f, 0x9b05688c, 0x1f83d9ab, 0x5be0cd19),
      sh_total = 0, sh_buf = []\<rparr>"

definition process_block :: "sha \<Rightarrow> sha" where
  "process_block s = s\<lparr>sh_h := compress (sh_h s) (sh_buf s)\<rparr>"

text \<open>
  The loop of \<^verbatim>\<open>update\<close>. It runs with \<^verbatim>\<open>buf_len_ <= 64\<close>, which every state reached
  satisfies (\<open>absorbs\<close> below); outside that the model stops.
\<close>

definition flush_full :: "sha \<Rightarrow> sha" where
  "flush_full s = (if length (sh_buf s) = 64 then (process_block s)\<lparr>sh_buf := []\<rparr> else s)"

function sha_feed :: "bytes \<Rightarrow> sha \<Rightarrow> sha" where
  "sha_feed p s =
     (if p = [] \<or> 64 < length (sh_buf s) then s
      else let s1 = flush_full s;
               n = min (64 - length (sh_buf s1)) (length p)
           in sha_feed (drop n p) (s1\<lparr>sh_buf := sh_buf s1 @ take n p\<rparr>))"
  by pat_completeness auto
termination
  by (relation "measure (\<lambda>(p, s). length p)") (auto simp: flush_full_def process_block_def)

declare sha_feed.simps [simp del]

definition sha_update :: "bytes \<Rightarrow> sha \<Rightarrow> sha" where
  "sha_update d s = sha_feed d (s\<lparr>sh_total := sh_total s + of_nat (length d)\<rparr>)"

text \<open>What feeding amounts to, one byte at a time.\<close>

definition feed_byte :: "sha \<Rightarrow> u8 \<Rightarrow> sha" where
  "feed_byte s b = (let s1 = flush_full s in s1\<lparr>sh_buf := sh_buf s1 @ [b]\<rparr>)"

lemma length_flush_full: "length (sh_buf s) \<le> 64 \<Longrightarrow> length (sh_buf (flush_full s)) < 64"
  by (simp add: flush_full_def)

lemma length_feed_byte: "length (sh_buf s) \<le> 64 \<Longrightarrow> length (sh_buf (feed_byte s b)) \<le> 64"
  using length_flush_full [of s] by (simp add: feed_byte_def Let_def)

lemma feed_bytes_room:
  "length (sh_buf s) + length p \<le> 64 \<Longrightarrow> p \<noteq> [] \<Longrightarrow>
     foldl feed_byte s p = s\<lparr>sh_buf := sh_buf s @ p\<rparr>"
proof (induction p arbitrary: s)
  case (Cons b p)
  have "feed_byte s b = s\<lparr>sh_buf := sh_buf s @ [b]\<rparr>"
    using Cons.prems by (simp add: feed_byte_def flush_full_def)
  then show ?case
    using Cons by (cases "p = []") auto
qed simp

lemma feed_bytes_flush:
  "p \<noteq> [] \<Longrightarrow> length (sh_buf s) \<le> 64 \<Longrightarrow> foldl feed_byte (flush_full s) p = foldl feed_byte s p"
  using length_flush_full [of s]
  by (cases p) (auto simp: feed_byte_def flush_full_def [of "flush_full s"])

lemma sha_feed_foldl: "length (sh_buf s) \<le> 64 \<Longrightarrow> sha_feed p s = foldl feed_byte s p"
proof (induction p s rule: sha_feed.induct)
  case (1 p s)
  show ?case
  proof (cases "p = []")
    case True
    then show ?thesis by (simp add: sha_feed.simps)
  next
    case False
    define s1 where "s1 = flush_full s"
    define n where "n = min (64 - length (sh_buf s1)) (length p)"
    have s1: "length (sh_buf s1) < 64"
      using length_flush_full [OF "1.prems"] by (simp add: s1_def)
    have n: "length (sh_buf s1) + length (take n p) \<le> 64" "take n p \<noteq> []"
      using s1 False by (auto simp: n_def)
    have "sha_feed p s = sha_feed (drop n p) (s1\<lparr>sh_buf := sh_buf s1 @ take n p\<rparr>)"
      using False "1.prems" by (simp add: sha_feed.simps [of p s] Let_def s1_def n_def)
    also have "\<dots> = foldl feed_byte (s1\<lparr>sh_buf := sh_buf s1 @ take n p\<rparr>) (drop n p)"
      using "1.IH" [OF _ s1_def n_def] False "1.prems" n(1) by (simp add: not_less)
    also have "\<dots> = foldl feed_byte (foldl feed_byte s1 (take n p)) (drop n p)"
      by (simp only: feed_bytes_room [OF n])
    also have "\<dots> = foldl feed_byte s1 p"
      by (simp flip: foldl_append)
    finally show ?thesis
      using feed_bytes_flush [OF False "1.prems"] by (simp add: s1_def)
  qed
qed

subsection \<open>finalize\<close>

text \<open>The padding loop \<^verbatim>\<open>while (buf_len_ != 56) update(&zero, 1)\<close>.\<close>

function pad_zeros :: "sha \<Rightarrow> sha" where
  "pad_zeros s =
     (if length (sh_buf s) = 56 \<or> 64 < length (sh_buf s) then s else pad_zeros (sha_update [0] s))"
  by pat_completeness auto
termination
proof (relation "measure (\<lambda>s :: sha. if length (sh_buf s) \<le> 56 then 56 - length (sh_buf s)
                                else 121 - length (sh_buf s))")
  fix s :: sha
  assume s: "\<not> (length (sh_buf s) = 56 \<or> 64 < length (sh_buf s))"
  then have "length (sh_buf (sha_update [0] s)) =
      (if length (sh_buf s) = 64 then 1 else Suc (length (sh_buf s)))"
    by (simp add: sha_update_def sha_feed_foldl feed_byte_def flush_full_def process_block_def)
  then show "(sha_update [0] s, s) \<in> measure (\<lambda>s. if length (sh_buf s) \<le> 56
      then 56 - length (sh_buf s) else 121 - length (sh_buf s))"
    using s by auto
qed simp

declare pad_zeros.simps [simp del]

fun regs_bytes :: "sha_regs \<Rightarrow> bytes" where
  "regs_bytes (a, b, c, d, e, f, g, h) =
     concat (map (\<lambda>x. [ucast (drop_bit 24 x), ucast (drop_bit 16 x), ucast (drop_bit 8 x), ucast x])
       [a, b, c, d, e, f, g, h])"

definition sha_finalize :: "sha \<Rightarrow> bytes" where
  "sha_finalize s =
     (let bit_len = sh_total s * 8;
          s1 = pad_zeros (sha_update [0x80] s);
          s2 = s1\<lparr>sh_buf := sh_buf s1 @ map (\<lambda>i. ucast (drop_bit (56 - i * 8) bit_len)) [0..<8]\<rparr>
      in regs_bytes (sh_h (process_block s2)))"

definition sha256 :: "bytes \<Rightarrow> bytes" where
  "sha256 d = sha_finalize (sha_update d sha_init)"

subsection \<open>The specification: fold over the blocks of the padded message\<close>

definition sha_pad :: "bytes \<Rightarrow> bytes" where
  "sha_pad m =
     m @ [0x80] @ replicate ((120 - Suc (length m) mod 64) mod 64) 0 @
     be_bytes 8 (of_nat (length m) * 8 :: u64)"

fun blocks :: "bytes \<Rightarrow> bytes list" where
  "blocks [] = []"
| "blocks (b # bs) = take 64 (b # bs) # blocks (drop 63 bs)"

definition sha256_spec :: "bytes \<Rightarrow> bytes" where
  "sha256_spec m = regs_bytes (foldl compress (sh_h sha_init) (blocks (sha_pad m)))"

lemma blocks_concat: "\<forall>b \<in> set bs. length b = 64 \<Longrightarrow> blocks (concat bs) = bs"
proof (induction bs)
  case (Cons b bs)
  then have b: "length b = 64" by simp
  then obtain x xs where "b = x # xs" "length xs = 63" by (cases b) auto
  then show ?case using Cons by simp
qed simp

text \<open>\<open>absorbs s m\<close>: the state \<open>s\<close> has taken in the bytes \<open>m\<close>; at most the last 64 wait.\<close>

definition absorbs :: "sha \<Rightarrow> bytes \<Rightarrow> bool" where
  "absorbs s m \<longleftrightarrow> (\<exists>bs. m = concat bs @ sh_buf s \<and> (\<forall>b \<in> set bs. length b = 64) \<and>
     length (sh_buf s) \<le> 64 \<and> sh_h s = foldl compress (sh_h sha_init) bs)"

lemma absorbs_init: "absorbs sha_init []"
  unfolding absorbs_def by (rule exI [of _ "[]"]) (simp add: sha_init_def)

lemma absorbs_len: "absorbs s m \<Longrightarrow> length (sh_buf s) \<le> 64"
  by (auto simp: absorbs_def)

lemma length_concat_64: "\<forall>b \<in> set bs. length b = 64 \<Longrightarrow> length (concat bs) = 64 * length bs"
  by (induction bs) auto

lemma absorbs_mod:
  assumes "absorbs s m"
  shows "length (sh_buf s) mod 64 = length m mod 64"
proof -
  obtain bs where "m = concat bs @ sh_buf s" "\<forall>b \<in> set bs. length b = 64"
    using assms unfolding absorbs_def by blast
  then have "length m = 64 * length bs + length (sh_buf s)"
    by (simp only: length_append length_concat_64)
  then show ?thesis by simp
qed

lemma absorbs_total [simp]: "absorbs (s\<lparr>sh_total := n\<rparr>) m = absorbs s m"
  by (simp add: absorbs_def)

lemma absorbs_flush:
  assumes "absorbs s m"
  shows "absorbs (flush_full s) m"
proof -
  obtain bs where bs: "m = concat bs @ sh_buf s" "\<forall>b \<in> set bs. length b = 64"
      "length (sh_buf s) \<le> 64" "sh_h s = foldl compress (sh_h sha_init) bs"
    using assms by (auto simp: absorbs_def)
  show ?thesis
  proof (cases "length (sh_buf s) = 64")
    case True
    then show ?thesis
      unfolding absorbs_def using bs
      by (intro exI [of _ "bs @ [sh_buf s]"]) (auto simp: flush_full_def process_block_def)
  qed (use assms in \<open>simp add: flush_full_def\<close>)
qed

lemma absorbs_feed:
  assumes "absorbs s m"
  shows "absorbs (feed_byte s b) (m @ [b])"
proof -
  have "length (sh_buf (flush_full s)) < 64"
    by (rule length_flush_full [OF absorbs_len [OF assms]])
  then show ?thesis
    using absorbs_flush [OF assms] by (auto simp: absorbs_def feed_byte_def Let_def)
qed

lemma absorbs_update:
  assumes "absorbs s m"
  shows "absorbs (sha_update d s) (m @ d)"
proof -
  have "absorbs (foldl feed_byte s d) (m @ d)" if "absorbs s m" for s m
    using that by (induction d arbitrary: s m) (use absorbs_feed in \<open>fastforce+\<close>)
  then show ?thesis
    using assms absorbs_len [OF assms] by (simp add: sha_update_def sha_feed_foldl)
qed

lemma total_feed: "sh_total (foldl feed_byte s d) = sh_total s"
  by (induction d arbitrary: s) (auto simp: feed_byte_def flush_full_def process_block_def Let_def)

lemma total_update:
  "length (sh_buf s) \<le> 64 \<Longrightarrow> sh_total (sha_update d s) = sh_total s + of_nat (length d)"
  by (simp add: sha_update_def sha_feed_foldl total_feed)

lemma absorbs_pad_zeros:
  assumes "absorbs s m"
  shows "length (sh_buf (pad_zeros s)) = 56 \<and>
     absorbs (pad_zeros s) (m @ replicate ((120 - length (sh_buf s) mod 64) mod 64) 0)"
  using assms
proof (induction s arbitrary: m rule: pad_zeros.induct)
  case (1 s)
  show ?case
  proof (cases "length (sh_buf s) = 56")
    case True
    then show ?thesis using "1.prems" by (simp add: pad_zeros.simps [of s])
  next
    case False
    let ?s = "sha_update [0] s"
    have le: "length (sh_buf s) \<le> 64" by (rule absorbs_len [OF "1.prems"])
    then have s': "length (sh_buf ?s) = (if length (sh_buf s) = 64 then 1 else Suc (length (sh_buf s)))"
      by (simp add: sha_update_def sha_feed_foldl feed_byte_def flush_full_def process_block_def)
    have k: "(120 - length (sh_buf s) mod 64) mod 64 = Suc ((120 - length (sh_buf ?s) mod 64) mod 64)"
    proof (cases "length (sh_buf s) < 56")
      case True
      have "(120 - n) mod 64 = 56 - n" if "n \<le> 56" for n :: nat
        using that mod_add_self2 [of "56 - n" 64] by simp
      from this [of "length (sh_buf s)"] this [of "Suc (length (sh_buf s))"] show ?thesis
        using True by (simp add: s')
    next
      case f: False
      then show ?thesis using False le by (auto simp: s' mod_if)
    qed
    have IH: "length (sh_buf (pad_zeros ?s)) = 56 \<and>
        absorbs (pad_zeros ?s) ((m @ [0]) @ replicate ((120 - length (sh_buf ?s) mod 64) mod 64) 0)"
      using False le by (intro "1.IH" absorbs_update "1.prems") simp
    then show ?thesis
      using False le by (simp add: pad_zeros.simps [of s] k)
  qed
qed

lemma finalize_spec:
  assumes "absorbs s m" and "sh_total s = of_nat (length m)"
  shows "sha_finalize s = sha256_spec m"
proof -
  define s1 where "s1 = pad_zeros (sha_update [0x80] s)"
  define z where "z = replicate ((120 - Suc (length m) mod 64) mod 64) (0 :: u8)"
  define lb where "lb = be_bytes 8 (of_nat (length m) * 8 :: u64)"
  have a: "absorbs (sha_update [0x80] s) (m @ [0x80])"
    using assms(1) by (rule absorbs_update)
  have "length (sh_buf s1) = 56" "absorbs s1 ((m @ [0x80]) @ z)"
    using absorbs_pad_zeros [OF a] absorbs_mod [OF a] by (simp_all add: s1_def z_def)
  then obtain bs where bs: "m @ [0x80] @ z = concat bs @ sh_buf s1" "\<forall>b \<in> set bs. length b = 64"
      "sh_h s1 = foldl compress (sh_h sha_init) bs" and len: "length (sh_buf s1) = 56"
    by (auto simp: absorbs_def)
  have "sha_pad m = concat (bs @ [sh_buf s1 @ lb])"
    using bs(1) by (simp add: sha_pad_def z_def lb_def)
  then have "blocks (sha_pad m) = bs @ [sh_buf s1 @ lb]"
    using blocks_concat [of "bs @ [sh_buf s1 @ lb]"] bs(2) len by (simp add: lb_def)
  moreover have "map (\<lambda>i. ucast (drop_bit (56 - i * 8) (of_nat (length m) * 8 :: u64))) [0..<8] = lb"
    by (simp add: lb_def be_bytes_def upt_rec)
  ultimately show ?thesis
    using bs(3) by (simp add: sha_finalize_def Let_def sha256_spec_def assms(2) process_block_def flip: s1_def)
qed

subsection \<open>The hexadecimal form\<close>

definition digest_hex :: "bytes \<Rightarrow> string" where
  "digest_hex d = concat (map hex_byte d)"

definition digest_nib :: "char \<Rightarrow> int" where
  "digest_nib c =
     (let n = int (of_char c) in
      if 48 \<le> n \<and> n \<le> 57 then n - 48
      else if 97 \<le> n \<and> n \<le> 102 then n - 97 + 10
      else if 65 \<le> n \<and> n \<le> 70 then n - 65 + 10
      else -1)"

fun digest_bytes :: "string \<Rightarrow> bytes result" where
  "digest_bytes (a # b # cs) =
     (let hi = digest_nib a; lo = digest_nib b in
      if hi < 0 \<or> lo < 0 then Err ''bad hex in digest''
      else (case digest_bytes cs of
              Err e \<Rightarrow> Err e
            | Ok d \<Rightarrow> Ok (word_of_int (hi * 16 + lo) # d)))"
| "digest_bytes _ = Ok []"

definition digest_from_hex :: "string \<Rightarrow> bytes result" where
  "digest_from_hex s =
     (let t = strip_0x (trim s) in
      if length t \<noteq> 64 then Err ''digest must be 64 hex chars'' else digest_bytes t)"

lemma digest_nib_khex: "n < 16 \<Longrightarrow> digest_nib (khex ! n) = int n"
proof -
  assume "n < 16"
  then have "n \<in> {0, 1, 2, 3, 4, 5, 6, 7, 8, 9, 10, 11, 12, 13, 14, 15}"
    by simp presburger
  then show ?thesis
    by (elim insertE emptyE) (simp_all add: khex_def digest_nib_def)
qed

lemma digest_bytes_hex: "digest_bytes (concat (map hex_byte d)) = Ok d"
proof (induction d)
  case (Cons b d)
  have "word_of_int (int (unat (drop_bit 4 b)) * 16 + int (unat (b AND 0xF))) = b"
  proof -
    have "unat (drop_bit 4 b) = unat b div 16"
      by (simp only: unat_drop_bit_eq) (simp add: drop_bit_eq_div)
    moreover have "unat (b AND 0xF) = unat b mod 16"
    proof -
      have "b AND 0xF = take_bit 4 b" by (simp add: take_bit_eq_mask mask_eq_exp_minus_1)
      then have "unat (b AND 0xF) = take_bit 4 (unat b)" by (simp only: unsigned_take_bit_eq)
      then show ?thesis by (simp add: take_bit_eq_mod)
    qed
    ultimately have "int (unat (drop_bit 4 b)) * 16 + int (unat (b AND 0xF)) = int (unat b)"
      by (simp flip: of_nat_mult of_nat_add add: of_nat_mult [of _ 16, simplified, symmetric])
    then show ?thesis by simp
  qed
  then show ?case
    using Cons.IH nib_lt_16 [of b] by (simp add: hex_byte_def digest_nib_khex)
qed simp

lemma hex_concat_chars: "c \<in> set (concat (map hex_byte bs)) \<Longrightarrow> \<exists>n < 16. c = khex ! n"
  using nib_lt_16 by (auto simp: hex_byte_def)

lemma hex_concat_clean:
  assumes "2 \<le> length (concat (map hex_byte bs))"
  shows "strip_0x (trim (concat (map hex_byte bs))) = concat (map hex_byte bs)"
proof -
  have "trim (concat (map hex_byte bs)) = concat (map hex_byte bs)"
    by (rule trim_id) (metis hex_concat_chars khex_cases)
  moreover have "concat (map hex_byte bs) ! 1 \<in> set (concat (map hex_byte bs))"
    using assms by (intro nth_mem) simp
  then obtain n where "n < 16" "concat (map hex_byte bs) ! 1 = khex ! n"
    using hex_concat_chars by blast
  then have "concat (map hex_byte bs) ! 1 \<noteq> CHR ''x''" "concat (map hex_byte bs) ! 1 \<noteq> CHR ''X''"
    using khex_cases by simp_all
  ultimately show ?thesis by (simp add: strip_0x_def)
qed

lemma length_regs_bytes: "length (regs_bytes r) = 32"
  by (cases r rule: regs_bytes.cases) simp

lemma length_sha256: "length (sha256 m) = 32"
  by (simp add: sha256_def sha_finalize_def Let_def length_regs_bytes)

lemma feed_byte_total: "feed_byte (s\<lparr>sh_total := n\<rparr>) b = (feed_byte s b)\<lparr>sh_total := n\<rparr>"
  by (cases s) (simp add: feed_byte_def flush_full_def process_block_def Let_def)

lemma feed_bytes_total:
  "foldl feed_byte (s\<lparr>sh_total := n\<rparr>) d = (foldl feed_byte s d)\<lparr>sh_total := n\<rparr>"
  by (induction d arbitrary: s) (simp_all add: feed_byte_total)

subsection \<open>Properties\<close>

text \<open>C19: The incremental hash with its lazy buffer and its byte-wise padding computes the
  digest of FIPS 180-4: the compression function folded over the blocks of the padded message.\<close>

theorem sha256_refines_spec: "sha256 m = sha256_spec m"
  unfolding sha256_def
  by (rule finalize_spec)
     (use absorbs_update [OF absorbs_init, of m] in
       \<open>simp_all add: total_update, simp_all add: sha_init_def total_update\<close>)

text \<open>However a message is cut into two updates, from any state that has absorbed a message
  the state after them is the state after one update with the whole.\<close>

theorem sha_update_append:
  assumes "length (sh_buf s) \<le> 64"
  shows "sha_update b (sha_update a s) = sha_update (a @ b) s"
proof -
  have "length (sh_buf (foldl feed_byte s a)) \<le> 64"
    using assms by (induction a arbitrary: s) (auto simp: length_feed_byte)
  then show ?thesis
    using assms by (simp add: sha_update_def sha_feed_foldl feed_bytes_total total_feed add.assoc)
qed

theorem sha_update_append_witness:
  "sha_update [2, 3] (sha_update [1] sha_init) = sha_update ([1] @ [2, 3]) sha_init"
  by (rule sha_update_append) (simp add: sha_init_def)

text \<open>A digest's 64 hexadecimal digits parse back to it.\<close>

theorem digest_hex_roundtrip: "digest_from_hex (digest_hex (sha256 m)) = Ok (sha256 m)"
  by (simp add: digest_from_hex_def digest_hex_def hex_concat_clean digest_bytes_hex length_sha256)

end
