(* ===== verification/Observation.thy ===== *)
theory Observation
  imports Codec Enums Binary64 Sha256
begin

section \<open>Observations\<close>

text \<open>
  \<^verbatim>\<open>include/servingobs/model/observation.hpp\<close> and \<^verbatim>\<open>src/observation.cpp\<close>: the typed
  observation with its authority envelope and partial payload, the field accessors, the
  canonical codec with every validation it does, and the derived observation id.
\<close>

unbundle bit_operations_syntax

subsection \<open>Data\<close>

datatype field_value =
    FvNull
  | FvBool bool
  | FvI64 i64
  | FvU64 u64
  | FvF64 f64
  | FvStr string
  | FvId id128
  | FvBytes bytes

type_synonym fields = "(string, field_value) omap"

record observation =
  o_id :: observation_id
  o_type :: obs_type
  o_source :: source_id
  o_worker :: worker_id
  o_boot :: worker_boot_id
  o_src_gen :: u64
  o_obs_gen :: u64
  o_epoch :: u64
  o_seq :: u64
  o_clock_domain :: string
  o_has_obs_ts :: bool
  o_obs_ts :: u64
  o_has_recv_ts :: bool
  o_recv_ts :: u64
  o_provenance :: provenance
  o_has_health :: bool
  o_health :: source_health
  o_has_confidence :: bool
  o_confidence :: f32
  o_fields :: fields

definition default_observation :: observation where [defaults]:
  "default_observation =
     \<lparr>o_id = id_null, o_type = OT_UNKNOWN, o_source = id_null, o_worker = id_null, o_boot = id_null,
      o_src_gen = 0, o_obs_gen = 0, o_epoch = 0, o_seq = 0, o_clock_domain = [],
      o_has_obs_ts = False, o_obs_ts = 0, o_has_recv_ts = False, o_recv_ts = 0,
      o_provenance = PV_UNKNOWN, o_has_health = False, o_health = SH_UNKNOWN,
      o_has_confidence = False, o_confidence = 0, o_fields = []\<rparr>"

subsection \<open>Accessors\<close>

definition u64_field :: "observation \<Rightarrow> string \<Rightarrow> u64 \<Rightarrow> u64" where
  "u64_field ob k def =
     (case map_of (o_fields ob) k of
        None \<Rightarrow> def
      | Some (FvU64 v) \<Rightarrow> v
      | Some (FvI64 v) \<Rightarrow> v
      | Some _ \<Rightarrow> def)"

definition i64_field :: "observation \<Rightarrow> string \<Rightarrow> i64 \<Rightarrow> i64" where
  "i64_field ob k def =
     (case map_of (o_fields ob) k of
        None \<Rightarrow> def
      | Some (FvI64 v) \<Rightarrow> v
      | Some (FvU64 v) \<Rightarrow> v
      | Some _ \<Rightarrow> def)"

definition f64_field :: "observation \<Rightarrow> string \<Rightarrow> f64 \<Rightarrow> f64" where
  "f64_field ob k def =
     (case map_of (o_fields ob) k of
        None \<Rightarrow> def
      | Some (FvF64 v) \<Rightarrow> v
      | Some (FvI64 v) \<Rightarrow> f64_of_i64 v
      | Some (FvU64 v) \<Rightarrow> f64_of_u64 v
      | Some _ \<Rightarrow> def)"

definition bool_field :: "observation \<Rightarrow> string \<Rightarrow> bool \<Rightarrow> bool" where
  "bool_field ob k def =
     (case map_of (o_fields ob) k of
        None \<Rightarrow> def
      | Some (FvBool v) \<Rightarrow> v
      | Some _ \<Rightarrow> def)"

definition str_field :: "observation \<Rightarrow> string \<Rightarrow> string \<Rightarrow> string" where
  "str_field ob k def =
     (case map_of (o_fields ob) k of
        None \<Rightarrow> def
      | Some (FvStr v) \<Rightarrow> v
      | Some _ \<Rightarrow> def)"

definition id_field :: "observation \<Rightarrow> string \<Rightarrow> id128" where
  "id_field ob k =
     (case map_of (o_fields ob) k of
        None \<Rightarrow> id_null
      | Some (FvId v) \<Rightarrow> v
      | Some _ \<Rightarrow> id_null)"

definition set_field :: "string \<Rightarrow> field_value \<Rightarrow> observation \<Rightarrow> observation" where
  "set_field k v ob = ob\<lparr>o_fields := omap_set k v (o_fields ob)\<rparr>"

definition o_request_id :: "observation \<Rightarrow> request_id" where
  "o_request_id ob = id_field ob ''request_id''"

definition links_request :: "observation \<Rightarrow> bool" where
  "links_request ob = (id_field ob ''request_id'' \<noteq> id_null)"

lemma set_field_get:
  "id_field (set_field k (FvId v) ob) k = v"
  "u64_field (set_field k (FvU64 n) ob) k d = n"
  by (simp_all add: id_field_def u64_field_def set_field_def)

lemma set_field_other:
  "k' \<noteq> k \<Longrightarrow> id_field (set_field k v ob) k' = id_field ob k'"
  "k' \<noteq> k \<Longrightarrow> u64_field (set_field k v ob) k' d = u64_field ob k' d"
  by (simp_all add: id_field_def u64_field_def set_field_def)

subsection \<open>Field values\<close>

definition write_fv :: "field_value \<Rightarrow> writer \<Rightarrow> writer" where
  "write_fv v =
     (case v of
        FvNull \<Rightarrow> wseq [write_u8 0]
      | FvBool x \<Rightarrow> wseq [write_u8 1, write_bool x]
      | FvI64 x \<Rightarrow> wseq [write_u8 2, write_i64 x]
      | FvU64 x \<Rightarrow> wseq [write_u8 3, write_u64 x]
      | FvF64 x \<Rightarrow> wseq [write_u8 4, write_f64 x]
      | FvStr x \<Rightarrow> wseq [write_u8 5, write_str x]
      | FvId x \<Rightarrow> wseq [write_u8 6, write_id x]
      | FvBytes x \<Rightarrow> wseq [write_u8 7, write_bytes x])"

definition read_fv_value :: "u8 \<Rightarrow> field_value rd" where
  "read_fv_value tag =
     (if tag = 0 then State_Monad.return FvNull
      else if tag = 1 then do { x \<leftarrow> r_bool; State_Monad.return (FvBool x) }
      else if tag = 2 then do { x \<leftarrow> r_i64; State_Monad.return (FvI64 x) }
      else if tag = 3 then do { x \<leftarrow> r_u64; State_Monad.return (FvU64 x) }
      else if tag = 4 then do { x \<leftarrow> r_f64; State_Monad.return (FvF64 x) }
      else if tag = 5 then do { x \<leftarrow> r_str; State_Monad.return (FvStr x) }
      else if tag = 6 then do { x \<leftarrow> r_id; State_Monad.return (FvId x) }
      else if tag = 7 then do { x \<leftarrow> r_bytes; State_Monad.return (FvBytes x) }
      else do {
        _ \<leftarrow> r_fail (''invalid field-value tag '' @ to_string_word tag);
        State_Monad.return FvNull })"

definition read_fv :: "field_value rd" where
  "read_fv = do {
     tag \<leftarrow> r_u8;
     good \<leftarrow> r_ok;
     if \<not> good then State_Monad.return FvNull else read_fv_value tag }"

text \<open>What the codec can carry: finite doubles, lengths of 32 bits.\<close>

fun fv_ok :: "field_value \<Rightarrow> bool" where
  "fv_ok (FvF64 x) = (\<not> f64_nonfinite x)"
| "fv_ok (FvStr s) = fits32 (length s)"
| "fv_ok (FvBytes b) = fits32 (length b)"
| "fv_ok _ = True"

lemma inert_fv_value [inert_intros]: "inert (read_fv_value tag)"
  unfolding read_fv_value_def by (intro inert_intros)

lemma inert_fv [inert_intros]: "inert read_fv"
  unfolding read_fv_def by (intro inert_intros)

lemma codes_fv:
  assumes "codes (read_fv_value tag) v bs"
  shows "codes read_fv v (tag # bs)"
proof -
  have "codes read_fv v ([tag] @ [] @ bs)"
    unfolding read_fv_def
    by (intro codes_bind [OF codes_u8] codes_bind [OF codes_ok] inert_intros) (simp add: assms)
  then show ?thesis by simp
qed

lemma fv_codesI:
  assumes "emits f bs" "codes m x bs" "read_fv_value tag = do { x \<leftarrow> m; State_Monad.return (g x) }"
  shows "\<exists>bs. emits (wseq [write_u8 tag, f]) bs \<and> codes read_fv (g x) bs"
proof (intro exI conjI)
  show "emits (wseq [write_u8 tag, f]) ([tag] @ bs @ [])"
    by (intro codec_intros assms(1))
  have "codes (read_fv_value tag) (g x) (bs @ [])"
    unfolding assms(3) by (rule codes_bind [OF assms(2) codes_return inert_return])
  then show "codes read_fv (g x) ([tag] @ bs @ [])"
    by (simp add: codes_fv)
qed

lemma fv_codes:
  assumes "fv_ok v"
  shows "\<exists>bs. emits (write_fv v) bs \<and> codes read_fv v bs"
proof (cases v)
  case FvNull
  have "emits (write_fv FvNull) ([0] @ [])" unfolding write_fv_def field_value.case by (intro codec_intros)
  moreover have "codes read_fv FvNull [0]"
    by (rule codes_fv) (simp add: read_fv_value_def codes_return)
  ultimately show ?thesis by (auto simp: FvNull)
next
  case (FvBool x)
  show ?thesis
    unfolding FvBool write_fv_def field_value.case
    by (rule fv_codesI [OF emits_bool codes_bool]) (use assms FvBool in \<open>simp_all add: read_fv_value_def\<close>)
next
  case (FvI64 x)
  show ?thesis
    unfolding FvI64 write_fv_def field_value.case
    by (rule fv_codesI [OF emits_i64 codes_words(4)]) (use assms FvI64 in \<open>simp_all add: read_fv_value_def\<close>)
next
  case (FvU64 x)
  show ?thesis
    unfolding FvU64 write_fv_def field_value.case
    by (rule fv_codesI [OF emits_u64 codes_words(3)]) (use assms FvU64 in \<open>simp_all add: read_fv_value_def\<close>)
next
  case (FvF64 x)
  show ?thesis
    unfolding FvF64 write_fv_def field_value.case
    by (rule fv_codesI [OF emits_f64 codes_f64]) (use assms FvF64 in \<open>simp_all add: read_fv_value_def\<close>)
next
  case (FvStr x)
  show ?thesis
    unfolding FvStr write_fv_def field_value.case
    by (rule fv_codesI [OF emits_str codes_str]) (use assms FvStr in \<open>simp_all add: read_fv_value_def\<close>)
next
  case (FvId x)
  show ?thesis
    unfolding FvId write_fv_def field_value.case
    by (rule fv_codesI [OF emits_id codes_id]) (use assms FvId in \<open>simp_all add: read_fv_value_def\<close>)
next
  case (FvBytes x)
  show ?thesis
    unfolding FvBytes write_fv_def field_value.case
    by (rule fv_codesI [OF emits_bytes codes_bytes]) (use assms FvBytes in \<open>simp_all add: read_fv_value_def\<close>)
qed

subsection \<open>The observation codec\<close>

primrec write_fields :: "fields \<Rightarrow> writer \<Rightarrow> writer" where
  "write_fields [] = wskip"
| "write_fields (kv # kvs) = wseq [write_str (fst kv), write_fv (snd kv), write_fields kvs]"

definition presence :: "observation \<Rightarrow> u8" where
  "presence ob =
     (if o_has_obs_ts ob then 1 else 0) OR (if o_has_recv_ts ob then 2 else 0) OR
     (if o_has_health ob then 4 else 0) OR (if o_has_confidence ob then 8 else 0)"

definition write_observation :: "observation \<Rightarrow> writer \<Rightarrow> writer" where
  "write_observation ob =
     wseq [write_id (o_id ob), write_u16 (obs_type_num (o_type ob)),
       write_id (o_source ob), write_id (o_worker ob), write_id (o_boot ob),
       write_u64 (o_src_gen ob), write_u64 (o_obs_gen ob), write_u64 (o_epoch ob), write_u64 (o_seq ob),
       write_str (o_clock_domain ob),
       write_u8 (presence ob),
       (if o_has_obs_ts ob then write_u64 (o_obs_ts ob) else wskip),
       (if o_has_recv_ts ob then write_u64 (o_recv_ts ob) else wskip),
       (if o_has_health ob then write_u8 (source_health_num (o_health ob)) else wskip),
       (if o_has_confidence ob then write_f32 (o_confidence ob) else wskip),
       write_u8 (provenance_num (o_provenance ob)),
       write_count (length (o_fields ob)),
       write_fields (o_fields ob)]"

text \<open>The field loop: \<^verbatim>\<open>emplace\<close> keeps the first of two fields with one key.\<close>

fun read_fields :: "nat \<Rightarrow> fields \<Rightarrow> fields result rd" where
  "read_fields 0 m = State_Monad.return (Ok m)"
| "read_fields (Suc n) m = do {
     key \<leftarrow> r_str;
     good \<leftarrow> r_ok;
     if \<not> good then do { e \<leftarrow> r_error; State_Monad.return (Err (''corrupt field key: '' @ e)) }
     else do {
       v \<leftarrow> read_fv;
       good' \<leftarrow> r_ok;
       if \<not> good' then do {
         e \<leftarrow> r_error;
         State_Monad.return (Err (''corrupt field value for '' @ [CHR 0x27] @ key @ [CHR 0x27] @ '': '' @ e)) }
       else read_fields n (omap_emplace key v m) } }"

text \<open>The optional part of the header: timestamps, health, confidence, in wire order.\<close>

definition read_presence :: "observation \<Rightarrow> observation rd" where
  "read_presence ob = do {
     pres \<leftarrow> r_u8;
     obs_ts \<leftarrow> (if bit pres 0 then r_u64 else State_Monad.return 0);
     recv_ts \<leftarrow> (if bit pres 1 then r_u64 else State_Monad.return 0);
     h \<leftarrow> (if bit pres 2 then r_u8 else State_Monad.return 0);
     conf \<leftarrow> (if bit pres 3 then r_f32 else State_Monad.return 0);
     State_Monad.return (ob\<lparr>
       o_has_obs_ts := bit pres 0, o_obs_ts := obs_ts,
       o_has_recv_ts := bit pres 1, o_recv_ts := recv_ts,
       o_has_health := bit pres 2,
       o_health := (if h \<le> source_health_num SH_REJECTED then source_health_of_num h else SH_UNKNOWN),
       o_has_confidence := bit pres 3, o_confidence := conf\<rparr>) }"

definition read_header :: "observation \<Rightarrow> observation rd" where
  "read_header ob = do {
     source \<leftarrow> r_id; worker \<leftarrow> r_id; boot \<leftarrow> r_id;
     src_gen \<leftarrow> r_u64; obs_gen \<leftarrow> r_u64; epoch \<leftarrow> r_u64; seq \<leftarrow> r_u64;
     clock_domain \<leftarrow> r_str;
     ob' \<leftarrow> read_presence (ob\<lparr>o_source := source, o_worker := worker, o_boot := boot,
       o_src_gen := src_gen, o_obs_gen := obs_gen, o_epoch := epoch, o_seq := seq,
       o_clock_domain := clock_domain\<rparr>);
     prov \<leftarrow> r_u8;
     State_Monad.return (ob'\<lparr>o_provenance :=
       (if prov \<le> provenance_num PV_HEURISTIC then provenance_of_num prov else PV_UNKNOWN)\<rparr>) }"

definition max_field_count :: u64 where
  "max_field_count = 16777216"

definition read_observation :: "observation result rd" where
  "read_observation = do {
     i \<leftarrow> r_id;
     t \<leftarrow> r_u16;
     if \<not> (obs_type_num OT_UNKNOWN \<le> t \<and> t \<le> obs_type_num OT_CAPACITY_STATE)
     then State_Monad.return (Err (''invalid observation type '' @ to_string_word t))
     else do {
       ob \<leftarrow> read_header (default_observation\<lparr>o_id := i, o_type := obs_type_of_num t\<rparr>);
       fcount \<leftarrow> r_count;
       good \<leftarrow> r_ok;
       if \<not> good then do { e \<leftarrow> r_error; State_Monad.return (Err (''corrupt observation header: '' @ e)) }
       else if max_field_count < fcount then State_Monad.return (Err ''field count overflow'')
       else do {
         fs \<leftarrow> read_fields (unat fcount) [];
         (case fs of
            Err e \<Rightarrow> State_Monad.return (Err e)
          | Ok m \<Rightarrow> State_Monad.return (Ok (ob\<lparr>o_fields := m\<rparr>))) } } }"

definition encode_observation_payload :: "observation \<Rightarrow> bytes result" where
  "encode_observation_payload ob = write_observation ob (Ok [])"

definition observation_digest :: "observation \<Rightarrow> bytes result" where
  "observation_digest ob =
     (case encode_observation_payload ob of Err e \<Rightarrow> Err e | Ok b \<Rightarrow> Ok (sha256 b))"

definition read_observation_payload :: "bytes \<Rightarrow> observation result" where
  "read_observation_payload b =
     (case run_state read_observation (mk_reader b) of
        (Err e, r) \<Rightarrow> Err e
      | (Ok ob, r) \<Rightarrow>
          if \<not> fst (run_state r_require_end r) then Err ''observation payload trailing garbage''
          else Ok ob)"

subsection \<open>What is written is what is read\<close>

text \<open>
  An observation the codec can carry: absent optional fields hold their defaults, the
  payload is a proper map with at most \<open>max_field_count\<close> entries, lengths fit 32 bits and
  doubles are finite.
\<close>

definition fields_ok :: "fields \<Rightarrow> bool" where
  "fields_ok m \<longleftrightarrow> omap_ok m \<and> (\<forall>kv \<in> set m. fits32 (length (fst kv)) \<and> fv_ok (snd kv))"

definition obs_ok :: "observation \<Rightarrow> bool" where
  "obs_ok ob \<longleftrightarrow>
     fits32 (length (o_clock_domain ob)) \<and>
     fields_ok (o_fields ob) \<and> length (o_fields ob) \<le> unat max_field_count \<and>
     (o_has_obs_ts ob \<or> o_obs_ts ob = 0) \<and> (o_has_recv_ts ob \<or> o_recv_ts ob = 0) \<and>
     (o_has_health ob \<or> o_health ob = SH_UNKNOWN) \<and> (o_has_confidence ob \<or> o_confidence ob = 0)"

lemma inert_fields [inert_intros]: "inert (read_fields n m)"
  by (induction n m rule: read_fields.induct) (auto intro!: inert_intros)

lemma inert_presence [inert_intros]: "inert (read_presence ob)"
  unfolding read_presence_def by (intro inert_intros)

lemma inert_header [inert_intros]: "inert (read_header ob)"
  unfolding read_header_def by (intro inert_intros)

lemma inert_observation [inert_intros]: "inert read_observation"
  unfolding read_observation_def by (intro inert_intros)

lemma fields_codes:
  assumes "fields_ok (m @ kvs)"
  shows "\<exists>bs. emits (write_fields kvs) bs \<and> codes (read_fields (length kvs) m) (Ok (m @ kvs)) bs"
  using assms
proof (induction kvs arbitrary: m)
  case Nil
  then show ?case by (auto intro: codec_intros)
next
  case (Cons kv kvs)
  obtain k v where kv: "kv = (k, v)" by (cases kv)
  have "omap_ok ((m @ [(k, v)]) @ kvs)"
    using Cons.prems by (simp add: fields_ok_def kv)
  then have "omap_ok (m @ [(k, v)])"
    by (rule omap_ok_appendD [THEN conjunct1])
  then have m: "omap_emplace k v m = m @ [(k, v)]"
    by (intro omap_emplace_append conjunct1 [OF omap_ok_snocD])
  obtain bs where bs: "emits (write_fields kvs) bs"
      "codes (read_fields (length kvs) (m @ [(k, v)])) (Ok ((m @ [(k, v)]) @ kvs)) bs"
    using Cons.IH [of "m @ [(k, v)]"] Cons.prems by (auto simp: kv)
  have k: "fits32 (length k)" and v: "fv_ok v"
    using Cons.prems by (simp_all add: fields_ok_def kv)
  obtain vb where vb: "emits (write_fv v) vb" "codes read_fv v vb"
    using fv_codes [OF v] by blast
  let ?kb = "be_bytes 4 (of_nat (length k) :: u32) @ str_bytes k"
  have "emits (write_fields (kv # kvs)) (?kb @ vb @ bs @ [])"
    unfolding write_fields.simps kv fst_conv snd_conv by (intro codec_intros k vb bs)
  moreover have "codes (read_fields (length (kv # kvs)) m) (Ok (m @ kv # kvs)) (?kb @ [] @ vb @ [] @ bs)"
    unfolding list.size(4) add_0_right add_Suc_right read_fields.simps
    by (rule codes_bind [OF codes_str [OF k]], rule codes_bind [OF codes_ok],
        simp only: not_True_eq_False if_False, rule codes_bind [OF vb(2)], rule codes_bind [OF codes_ok],
        use bs(2) in \<open>simp add: m kv\<close>)
       (intro inert_intros)+
  ultimately show ?case by auto
qed

lemma bit_presence:
  "bit (presence ob) 0 = o_has_obs_ts ob" "bit (presence ob) 1 = o_has_recv_ts ob"
  "bit (presence ob) 2 = o_has_health ob" "bit (presence ob) 3 = o_has_confidence ob"
  by (simp_all add: presence_def bit_simps)

definition presence_bytes :: "observation \<Rightarrow> bytes" where
  "presence_bytes ob =
     [presence ob] @
     (if o_has_obs_ts ob then be_bytes 8 (o_obs_ts ob) else []) @
     (if o_has_recv_ts ob then be_bytes 8 (o_recv_ts ob) else []) @
     (if o_has_health ob then [source_health_num (o_health ob)] else []) @
     (if o_has_confidence ob then be_bytes 4 (o_confidence ob) else [])"

definition header_bytes :: "observation \<Rightarrow> bytes" where
  "header_bytes ob =
     to_bytes (o_source ob) @ to_bytes (o_worker ob) @ to_bytes (o_boot ob) @
     be_bytes 8 (o_src_gen ob) @ be_bytes 8 (o_obs_gen ob) @ be_bytes 8 (o_epoch ob) @
     be_bytes 8 (o_seq ob) @
     (be_bytes 4 (of_nat (length (o_clock_domain ob)) :: u32) @ str_bytes (o_clock_domain ob)) @
     presence_bytes ob @ [provenance_num (o_provenance ob)]"

lemma source_health_num_le': "source_health_num h \<le> source_health_num SH_REJECTED"
  using source_health_num_le by simp

lemma provenance_num_le': "provenance_num p \<le> provenance_num PV_HEURISTIC"
  using provenance_num_le by simp

lemma obs_type_num_range:
  "(obs_type_num OT_UNKNOWN \<le> obs_type_num t \<and> obs_type_num t \<le> obs_type_num OT_CAPACITY_STATE) = True"
  using obs_type_num_le by simp

lemma codes_presence:
  assumes "obs_ok t"
  shows "codes (read_presence ob)
     (ob\<lparr>o_has_obs_ts := o_has_obs_ts t, o_obs_ts := o_obs_ts t,
         o_has_recv_ts := o_has_recv_ts t, o_recv_ts := o_recv_ts t,
         o_has_health := o_has_health t, o_health := o_health t,
         o_has_confidence := o_has_confidence t, o_confidence := o_confidence t\<rparr>)
     (presence_bytes t)"
proof -
  have d: "\<not> o_has_obs_ts t \<Longrightarrow> 0 = o_obs_ts t" "\<not> o_has_recv_ts t \<Longrightarrow> 0 = o_recv_ts t"
      "\<not> o_has_health t \<Longrightarrow> 0 = source_health_num (o_health t)"
      "\<not> o_has_confidence t \<Longrightarrow> 0 = o_confidence t"
    using assms by (auto simp: obs_ok_def)
  have "codes (read_presence ob)
     (ob\<lparr>o_has_obs_ts := o_has_obs_ts t, o_obs_ts := o_obs_ts t,
         o_has_recv_ts := o_has_recv_ts t, o_recv_ts := o_recv_ts t,
         o_has_health := o_has_health t, o_health := o_health t,
         o_has_confidence := o_has_confidence t, o_confidence := o_confidence t\<rparr>)
     ([presence t] @
     (if o_has_obs_ts t then be_bytes 8 (o_obs_ts t) else []) @
     (if o_has_recv_ts t then be_bytes 8 (o_recv_ts t) else []) @
     (if o_has_health t then [source_health_num (o_health t)] else []) @
     (if o_has_confidence t then be_bytes 4 (o_confidence t) else []) @ [])"
    unfolding read_presence_def
    by (rule codes_bind [OF codes_u8],
        rule codes_bind [OF codes_opt [OF bit_presence(1) codes_words(3) d(1)]],
        assumption,
        rule codes_bind [OF codes_opt [OF bit_presence(2) codes_words(3) d(2)]],
        assumption,
        rule codes_bind [OF codes_opt [OF bit_presence(3) codes_u8 d(3)]],
        assumption,
        rule codes_bind [OF codes_opt [OF bit_presence(4) codes_words(5) d(4)]],
        assumption,
        rule codes_return_eq,
        simp only: bit_presence source_health_num_le' if_True source_health_of_num_num)
       (intro inert_intros)+
  then show ?thesis by (simp add: presence_bytes_def)
qed

lemma codes_header:
  assumes t: "obs_ok t"
    and ob: "ob = default_observation\<lparr>o_id := o_id t, o_type := o_type t\<rparr>"
  shows "codes (read_header ob) (t\<lparr>o_fields := []\<rparr>) (header_bytes t)"
proof -
  have clock: "fits32 (length (o_clock_domain t))"
    using t by (simp add: obs_ok_def)
  have "codes (read_header ob) (t\<lparr>o_fields := []\<rparr>)
    (to_bytes (o_source t) @ to_bytes (o_worker t) @ to_bytes (o_boot t) @
     be_bytes 8 (o_src_gen t) @ be_bytes 8 (o_obs_gen t) @ be_bytes 8 (o_epoch t) @
     be_bytes 8 (o_seq t) @
     (be_bytes 4 (of_nat (length (o_clock_domain t)) :: u32) @ str_bytes (o_clock_domain t)) @
     presence_bytes t @ [provenance_num (o_provenance t)] @ [])"
    unfolding read_header_def
    by (rule codes_bind [OF codes_id], rule codes_bind [OF codes_id], rule codes_bind [OF codes_id],
        rule codes_bind [OF codes_words(3)], rule codes_bind [OF codes_words(3)],
        rule codes_bind [OF codes_words(3)], rule codes_bind [OF codes_words(3)],
        rule codes_bind [OF codes_str [OF clock]],
        rule codes_bind [OF codes_presence [OF t]],
        rule codes_bind [OF codes_u8], rule codes_return_eq,
        simp only: provenance_num_le' if_True provenance_of_num_num,
        simp add: ob default_observation_def)
       (intro inert_intros)+
  then show ?thesis by (simp add: header_bytes_def)
qed

text \<open>The whole observation: its identity, its type, the header, the counted fields.\<close>

lemma codes_observation:
  assumes t: "obs_ok t" and fs: "codes (read_fields (length (o_fields t)) []) (Ok (o_fields t)) fb"
  shows "codes read_observation (Ok t)
    (to_bytes (o_id t) @ be_bytes 2 (obs_type_num (o_type t)) @ header_bytes t @
     be_bytes 4 (of_nat (length (o_fields t)) :: u32) @ fb)"
proof -
  have n: "fits32 (length (o_fields t))" "length (o_fields t) \<le> unat max_field_count"
    using t by (simp_all add: obs_ok_def fits32_def max_field_count_def)
  have c: "unat (of_nat (length (o_fields t)) :: u64) = length (o_fields t)"
    using n(2) by (simp add: unat_of_nat max_field_count_def)
  then have lt: "\<not> max_field_count < (of_nat (length (o_fields t)) :: u64)"
    using n(2) by (simp add: word_less_nat_alt)
  have "codes read_observation (Ok t)
    (to_bytes (o_id t) @ be_bytes 2 (obs_type_num (o_type t)) @ header_bytes t @
     be_bytes 4 (of_nat (length (o_fields t)) :: u32) @ [] @ fb @ [])"
    unfolding read_observation_def
    by (rule codes_bind [OF codes_id], rule codes_bind [OF codes_words(1)],
        simp only: obs_type_num_range not_True_eq_False if_False obs_type_of_num_num,
        rule codes_bind [OF codes_header [OF t refl]],
        rule codes_bind [OF codes_count [OF n(1)]],
        rule codes_bind [OF codes_ok],
        simp only: not_True_eq_False if_False lt c,
        rule codes_bind [OF fs], simp only: sum.case, rule codes_return_eq, simp)
       (intro inert_intros)+
  then show ?thesis by simp
qed

lemma emits_observation_fits:
  assumes f: "fits32 (length (o_clock_domain t))" "fits32 (length (o_fields t))"
    and fs: "emits (write_fields (o_fields t)) fb"
  shows "emits (write_observation t)
    (to_bytes (o_id t) @ be_bytes 2 (obs_type_num (o_type t)) @ header_bytes t @
     be_bytes 4 (of_nat (length (o_fields t)) :: u32) @ fb)"
proof -
  have "emits (write_observation t)
    (to_bytes (o_id t) @ be_bytes 2 (obs_type_num (o_type t)) @
     to_bytes (o_source t) @ to_bytes (o_worker t) @ to_bytes (o_boot t) @
     be_bytes 8 (o_src_gen t) @ be_bytes 8 (o_obs_gen t) @ be_bytes 8 (o_epoch t) @
     be_bytes 8 (o_seq t) @
     (be_bytes 4 (of_nat (length (o_clock_domain t)) :: u32) @ str_bytes (o_clock_domain t)) @
     [presence t] @
     (if o_has_obs_ts t then be_bytes 8 (o_obs_ts t) else []) @
     (if o_has_recv_ts t then be_bytes 8 (o_recv_ts t) else []) @
     (if o_has_health t then [source_health_num (o_health t)] else []) @
     (if o_has_confidence t then be_bytes 4 (o_confidence t) else []) @
     [provenance_num (o_provenance t)] @
     be_bytes 4 (of_nat (length (o_fields t)) :: u32) @ fb @ [])"
    unfolding write_observation_def by (intro codec_intros f fs)
  then show ?thesis by (simp add: header_bytes_def presence_bytes_def)
qed

lemma emits_observation:
  assumes "obs_ok t" and "emits (write_fields (o_fields t)) fb"
  shows "emits (write_observation t)
    (to_bytes (o_id t) @ be_bytes 2 (obs_type_num (o_type t)) @ header_bytes t @
     be_bytes 4 (of_nat (length (o_fields t)) :: u32) @ fb)"
  using assms by (intro emits_observation_fits) (simp_all add: obs_ok_def fits32_def max_field_count_def)

lemma obs_codes:
  assumes "obs_ok t"
  shows "\<exists>bs. emits (write_observation t) bs \<and> codes read_observation (Ok t) bs"
proof -
  have "fields_ok ([] @ o_fields t)"
    using assms by (simp add: obs_ok_def)
  then obtain fb where "emits (write_fields (o_fields t)) fb"
      "codes (read_fields (length (o_fields t)) []) (Ok (o_fields t)) fb"
    using fields_codes [OF \<open>fields_ok ([] @ o_fields t)\<close>] by auto
  then show ?thesis
    using emits_observation [OF assms] codes_observation [OF assms] by blast
qed

interpretation fv_codec: codec write_fv read_fv "\<lambda>v. v" fv_ok
  by unfold_locales (auto intro: inert_fv fv_codes)

interpretation obs_payload: checked_payload write_observation read_observation Ok obs_ok
    encode_observation_payload read_observation_payload
proof unfold_locales
  show "inert read_observation" by (rule inert_observation)
  show "\<And>v. obs_ok v \<Longrightarrow> \<exists>bs. emits (write_observation v) bs \<and> codes read_observation (Ok v) bs"
    by (rule obs_codes)
qed (auto simp: encode_observation_payload_def read_observation_payload_def r_require_end_def
       mk_reader_def split: sum.splits prod.splits if_splits)

subsection \<open>Whatever is decoded is well formed\<close>

lemma yields_fv: "yields read_fv fv_ok"
proof -
  have "yields (read_fv_value tag) fv_ok" for tag
    unfolding read_fv_value_def
    by (intro yields_if yields_return yields_bind [OF yields_any] yields_bind [OF yields_f64]
          yields_bind [OF yields_str] yields_bind [OF yields_bytes] inert_intros) simp_all
  then show ?thesis
    unfolding read_fv_def
    by (intro yields_bind [OF yields_any] yields_if yields_return inert_intros) simp_all
qed

lemma fields_ok_emplace:
  "fields_ok m \<Longrightarrow> fits32 (length k) \<Longrightarrow> fv_ok v \<Longrightarrow> fields_ok (omap_emplace k v m)"
  by (auto simp: fields_ok_def omap_emplace_def set_omap_set)

lemma length_omap_emplace: "length (omap_emplace k v m) \<le> Suc (length m)"
  by (simp add: omap_emplace_def length_omap_set)

definition fields_result :: "nat \<Rightarrow> fields result \<Rightarrow> bool" where
  "fields_result n res = (case res of Err e \<Rightarrow> True | Ok m \<Rightarrow> fields_ok m \<and> length m \<le> n)"

lemma yields_fields:
  "fields_ok m \<Longrightarrow> length m + n \<le> k \<Longrightarrow> yields (read_fields n m) (fields_result k)"
proof (induction n arbitrary: m)
  case 0
  then show ?case by (auto intro!: yields_return simp: fields_result_def)
next
  case (Suc n)
  have step: "yields (read_fields n (omap_emplace key v m)) (fields_result k)"
    if "fits32 (length key)" "fv_ok v" for key v
    using Suc fields_ok_emplace [OF Suc.prems(1) that] length_omap_emplace [of key v m] by force
  show ?case
    unfolding read_fields.simps
    by (rule yields_bind [OF yields_str], rule yields_bind [OF yields_any], rule yields_if,
        rule yields_bind [OF yields_any], rule yields_return, simp add: fields_result_def,
        intro inert_intros, rule yields_bind [OF yields_fv], rule yields_bind [OF yields_any],
        rule yields_if, rule yields_bind [OF yields_any], rule yields_return,
        simp add: fields_result_def, intro inert_intros, erule (1) step)
       (intro inert_intros)+
qed

definition header_ok :: "observation \<Rightarrow> bool" where
  "header_ok ob \<longleftrightarrow>
     fits32 (length (o_clock_domain ob)) \<and>
     (o_has_obs_ts ob \<or> o_obs_ts ob = 0) \<and> (o_has_recv_ts ob \<or> o_recv_ts ob = 0) \<and>
     (o_has_health ob \<or> o_health ob = SH_UNKNOWN) \<and> (o_has_confidence ob \<or> o_confidence ob = 0)"

lemma yields_opt: "yields (if c then m else State_Monad.return d) (\<lambda>x. c \<or> x = d)"
  by (simp add: yields_any yields_return)

lemma yields_presence:
  "fits32 (length (o_clock_domain ob)) \<Longrightarrow> yields (read_presence ob) header_ok"
  unfolding read_presence_def
  by (rule yields_bind [OF yields_any], rule yields_bind [OF yields_opt],
      rule yields_bind [OF yields_opt], rule yields_bind [OF yields_opt],
      rule yields_bind [OF yields_opt], rule yields_return)
     (auto simp: header_ok_def source_health_of_num_def source_healths_def intro!: inert_intros)

lemma yields_header: "yields (read_header ob) header_ok"
  unfolding read_header_def
  by (rule yields_bind [OF yields_any], rule yields_bind [OF yields_any],
      rule yields_bind [OF yields_any], rule yields_bind [OF yields_any],
      rule yields_bind [OF yields_any], rule yields_bind [OF yields_any],
      rule yields_bind [OF yields_any], rule yields_bind [OF yields_str],
      rule yields_bind [OF yields_presence], simp,
      rule yields_bind [OF yields_any], rule yields_return, simp add: header_ok_def)
     (intro inert_intros)+

lemma yields_observation:
  "yields read_observation (\<lambda>res. case res of Err e \<Rightarrow> True | Ok ob \<Rightarrow> obs_ok ob)"
proof -
  have fs: "yields (read_fields (unat n) []) (fields_result (unat max_field_count))"
    if "\<not> max_field_count < n" for n
    using that by (intro yields_fields) (simp_all add: fields_ok_def word_le_nat_alt not_less)
  show ?thesis
    unfolding read_observation_def
    by (rule yields_bind [OF yields_any], rule yields_bind [OF yields_any], rule yields_if,
        rule yields_return, simp, rule yields_bind [OF yields_header],
        rule yields_bind [OF yields_any], rule yields_bind [OF yields_any], rule yields_if,
        rule yields_bind [OF yields_any], rule yields_return, simp, intro inert_intros,
        rule yields_if, rule yields_return, simp, erule yields_bind [OF fs])
       (auto simp: fields_result_def header_ok_def obs_ok_def
         intro!: yields_return inert_intros split: sum.splits)
qed

lemma decode_obs_ok:
  assumes "read_observation_payload b = Ok ob"
  shows "obs_ok ob"
proof -
  obtain r where r: "run_state read_observation (mk_reader b) = (Ok ob, r)" "\<not> rd_failed r"
    using assms
    by (auto simp: read_observation_payload_def r_require_end_def split: prod.splits sum.splits if_splits)
  show ?thesis using yieldsD [OF yields_observation r] by simp
qed

subsection \<open>The derived observation id\<close>

text \<open>The 58 bytes that are hashed, and the id they give.\<close>

definition observation_id_input :: "id128 \<Rightarrow> id128 \<Rightarrow> id128 \<Rightarrow> u64 \<Rightarrow> obs_type \<Rightarrow> bytes" where
  "observation_id_input source worker boot seq t =
     to_bytes source @ to_bytes worker @ to_bytes boot @ be_bytes 8 seq @ be_bytes 2 (obs_type_num t)"

definition derive_observation_id :: "id128 \<Rightarrow> id128 \<Rightarrow> id128 \<Rightarrow> u64 \<Rightarrow> obs_type \<Rightarrow> observation_id" where
  "derive_observation_id source worker boot seq t =
     derive 0x4F4253 (observation_id_input source worker boot seq t)"

lemma observation_id_input_eq:
  "observation_id_input s w b q t = observation_id_input s' w' b' q' t' \<longleftrightarrow>
     s = s' \<and> w = w' \<and> b = b' \<and> q = q' \<and> t = t'"
proof -
  have "obs_type_num t = obs_type_num t' \<Longrightarrow> t = t'"
    by (metis obs_type_of_num_num)
  then show ?thesis
    by (auto simp: observation_id_input_def be_bytes_inj dest!: to_bytes_inj)
qed

lemma hash_collides:
  fixes f :: "id128 \<Rightarrow> id128 \<Rightarrow> id128"
  shows "\<exists>s w s' w'. (s, w) \<noteq> (s', w') \<and> f s w = f s' w'"
proof (rule ccontr)
  assume "\<not> ?thesis"
  then have "inj (case_prod f)" by (auto simp: inj_on_def)
  then have "card (UNIV :: (id128 \<times> id128) set) \<le> card (UNIV :: id128 set)"
    by (metis card_inj_on_le finite subset_UNIV)
  moreover have "card {Id128 0 0, Id128 0 1} \<le> card (UNIV :: id128 set)"
    by (intro card_mono) simp_all
  ultimately show False
    by (simp add: card_cartesian_product flip: UNIV_Times_UNIV)
qed

subsection \<open>Properties\<close>

text \<open>The observation the witnesses use: a request id, a duration, a timestamp and a health.\<close>

definition sample_observation :: observation where
  "sample_observation = default_observation\<lparr>
     o_id := Id128 7 9, o_type := OT_REQUEST, o_source := Id128 0 1, o_worker := Id128 0 2,
     o_boot := Id128 0 3, o_src_gen := 1, o_obs_gen := 1, o_epoch := 5, o_seq := 4,
     o_clock_domain := ''mono'', o_has_obs_ts := True, o_obs_ts := 1000,
     o_has_health := True, o_health := SH_HEALTHY,
     o_fields := [(''request_id'', FvId (Id128 1 1)), (''wait_ns'', FvU64 250)]\<rparr>"

lemma obs_ok_sample: "obs_ok sample_observation"
  by (simp add: obs_ok_def sample_observation_def default_observation_def fits32_def fields_ok_def
        max_field_count_def list_less_def less_char_def)

text \<open>C17: What survives encoding and decoding is exactly what the codec can represent: an observation is
  encoded without error to bytes that decode to it, every envelope field and payload field
  included, if and only if its fields form a proper map of bounded size with finite doubles and
  texts of 32-bit length, and its absent optional parts are default (\<open>obs_ok\<close>).\<close>

theorem observation_roundtrip:
  "(\<exists>bs. encode_observation_payload ob = Ok bs \<and> read_observation_payload bs = Ok ob) \<longleftrightarrow> obs_ok ob"
  using obs_payload.encode_roundtrip [of ob] decode_obs_ok by blast

lemma sample_roundtrip:
  "\<exists>bs. encode_observation_payload sample_observation = Ok bs \<and>
     read_observation_payload bs = Ok sample_observation"
  by (rule obs_payload.encode_roundtrip [OF obs_ok_sample])

text \<open>The observation decoder rejects every truncation and every extension of an encoding:
  of the byte strings comparable with it by prefix, only the encoding itself decodes.\<close>

theorem observation_payload_exact:
  assumes "obs_ok ob" and "encode_observation_payload ob = Ok bs"
    and "prefix p bs \<or> prefix bs p" and "read_observation_payload p = Ok ob'"
  shows "p = bs \<and> ob' = ob"
  using assms by (rule obs_payload.decode_exact)

theorem observation_payload_exact_witness:
  "\<exists>bs p ob'. encode_observation_payload sample_observation = Ok bs \<and> prefix p bs \<and>
     read_observation_payload p = Ok ob' \<and> p = bs \<and> ob' = sample_observation"
proof -
  obtain bs where bs: "encode_observation_payload sample_observation = Ok bs"
      "read_observation_payload bs = Ok sample_observation"
    using obs_payload.encode_roundtrip [OF obs_ok_sample] by blast
  then show ?thesis
    using observation_payload_exact [OF obs_ok_sample bs(1) _ bs(2)] by auto
qed

text \<open>C18: Whatever bytes the decoder accepts, the observation it returns is well formed: its
  fields form a proper map of bounded size, its doubles are finite, its optional parts are
  default when absent; so encoding it succeeds and decoding that gives it back.\<close>

theorem decoded_observation_normal:
  assumes "read_observation_payload b = Ok ob"
  shows "obs_ok ob \<and> (\<exists>bs. encode_observation_payload ob = Ok bs \<and> read_observation_payload bs = Ok ob)"
  using decode_obs_ok [OF assms] obs_payload.encode_roundtrip by blast

theorem decoded_observation_normal_witness:
  "\<exists>b. read_observation_payload b = Ok sample_observation \<and>
     (\<exists>bs. encode_observation_payload sample_observation = Ok bs \<and>
        read_observation_payload bs = Ok sample_observation)"
proof -
  obtain b where b: "read_observation_payload b = Ok sample_observation"
    using obs_payload.encode_roundtrip [OF obs_ok_sample] by blast
  then show ?thesis
    using decoded_observation_normal [OF b] by blast
qed

text \<open>The derived observation id is never null and hashes a buffer that determines source,
  worker, boot, sequence number and type, but the id itself cannot separate all of them:
  whatever boot, sequence number and type, two different (source, worker) pairs share an id.\<close>

theorem observation_id_hash:
  "\<not> is_null (derive_observation_id s w b q t) \<and>
   inj (\<lambda>(s, w, b, q, t). observation_id_input s w b q t) \<and>
   (\<exists>s w s' w'. (s, w) \<noteq> (s', w') \<and>
      derive_observation_id s w b q t = derive_observation_id s' w' b q t)"
  using derive_not_null hash_collides [of "\<lambda>s w. derive_observation_id s w b q t"]
  by (auto simp: derive_observation_id_def observation_id_input_eq inj_on_def)

text \<open>A health byte outside the enum is not rejected: on presence byte 4 (health only) the
  reader stays good and the observation carries the health UNKNOWN.\<close>

theorem bad_health_byte_accepted:
  assumes "source_health_num SH_REJECTED < h"
  shows "run_state (read_presence ob) (mk_reader (4 # h # rest)) =
    (ob\<lparr>o_has_obs_ts := False, o_obs_ts := 0, o_has_recv_ts := False, o_recv_ts := 0,
        o_has_health := True, o_health := SH_UNKNOWN,
        o_has_confidence := False, o_confidence := 0\<rparr>, mk_reader rest)"
  using assms by (simp add: read_presence_def r_u8_def mk_reader_def bit_simps)

theorem bad_health_byte_accepted_witness:
  "run_state (read_presence default_observation) (mk_reader [4, 200]) =
    (default_observation\<lparr>o_has_health := True\<rparr>, mk_reader [])"
  using bad_health_byte_accepted [of 200 default_observation "[]"]
  by (simp add: default_observation_def)

subsection \<open>Doubles that are written but not read\<close>

definition fv_fits :: "field_value \<Rightarrow> bool" where
  "fv_fits v = (case v of FvStr s \<Rightarrow> fits32 (length s) | FvBytes b \<Rightarrow> fits32 (length b) | _ \<Rightarrow> True)"

lemma fv_fits_cases: "fv_fits v \<Longrightarrow> fv_ok v \<or> (\<exists>x. v = FvF64 x \<and> f64_nonfinite x)"
  by (cases v) (auto simp: fv_fits_def)

lemma emits_nonfinite: "emits (write_fv (FvF64 x)) ([4] @ be_bytes 8 x @ [])"
  unfolding write_fv_def by (simp only: field_value.case) (intro codec_intros)

lemma fv_emits: "fv_fits v \<Longrightarrow> \<exists>bs. emits (write_fv v) bs"
  using fv_fits_cases fv_codes emits_nonfinite by blast

lemma fields_emits:
  "list_all (\<lambda>kv. fits32 (length (fst kv)) \<and> fv_fits (snd kv)) kvs \<Longrightarrow> \<exists>bs. emits (write_fields kvs) bs"
proof (induction kvs)
  case (Cons kv kvs)
  then obtain bs vb where "emits (write_fields kvs) bs" "emits (write_fv (snd kv)) vb"
    using fv_emits by fastforce
  moreover have "fits32 (length (fst kv))" using Cons.prems by simp
  ultimately have "emits (write_fields (kv # kvs)) ((be_bytes 4 (of_nat (length (fst kv)) :: u32) @ str_bytes (fst kv)) @ vb @ bs @ [])"
    unfolding write_fields.simps by (intro codec_intros)
  then show ?case by blast
qed (auto intro: codec_intros)

lemma run_fv_nonfinite:
  assumes "f64_nonfinite x"
  shows "rd_failed (snd (run_state read_fv (mk_reader (([4] @ be_bytes 8 x @ []) @ t))))"
  using codes_run [OF codes_words(3) [of x], of t] codes_run [OF codes_u8 [of 4], of "be_bytes 8 x @ t"] assms
  by (simp add: read_fv_def read_fv_value_def r_f64_def r_fail_def rd_fail_def r_ok_def mk_reader_def)

lemma read_fields_nonfinite:
  assumes "list_all (\<lambda>kv. fits32 (length (fst kv)) \<and> fv_ok (snd kv)) good" and "fits32 (length k)"
    and "f64_nonfinite x" and "emits (write_fields (good @ (k, FvF64 x) # later)) fb"
    and "list_all (\<lambda>kv. fits32 (length (fst kv)) \<and> fv_fits (snd kv)) later"
  shows "\<exists>e r. run_state (read_fields (length good + Suc j) m) (mk_reader fb) = (Err e, r)"
  using assms(1,4)
proof (induction good arbitrary: m fb)
  case Nil
  let ?kb = "be_bytes 4 (of_nat (length k) :: u32) @ str_bytes k" and ?vb = "[4] @ be_bytes 8 x @ []"
  obtain mb where "emits (write_fields later) mb" using fields_emits [OF assms(5)] by blast
  then have "emits (write_fields ((k, FvF64 x) # later)) (?kb @ ?vb @ mb @ [])"
    unfolding write_fields.simps fst_conv snd_conv using assms(2) emits_nonfinite by (intro codec_intros)
  then have fb: "fb = ?kb @ ?vb @ mb" using emits_unique Nil.prems(2) by fastforce
  have "run_state r_str (mk_reader fb) = (k, mk_reader (?vb @ mb))"
    using codes_run [OF codes_str [OF assms(2)], of "?vb @ mb"] by (simp add: fb)
  then show ?case
    using run_fv_nonfinite [OF assms(3), of mb]
    by (auto simp: r_ok_def r_error_def mk_reader_def split: prod.split)
next
  case (Cons kv good)
  let ?kb = "be_bytes 4 (of_nat (length (fst kv)) :: u32) @ str_bytes (fst kv)"
  have kv: "fits32 (length (fst kv))" "fv_ok (snd kv)" using Cons.prems(1) by simp_all
  obtain vb where vb: "emits (write_fv (snd kv)) vb" "codes read_fv (snd kv) vb" using fv_codes [OF kv(2)] by blast
  have "fv_fits v" if "fv_ok v" for v using that by (cases v) (simp_all add: fv_fits_def)
  then have "list_all (\<lambda>kv. fits32 (length (fst kv)) \<and> fv_fits (snd kv)) (good @ (k, FvF64 x) # later)"
    using Cons.prems(1) assms(2,5) by (auto simp: list_all_iff fv_fits_def)
  then obtain rb where rb: "emits (write_fields (good @ (k, FvF64 x) # later)) rb" using fields_emits by blast
  then have "emits (write_fields (kv # good @ (k, FvF64 x) # later)) (?kb @ vb @ rb @ [])"
    unfolding write_fields.simps using kv(1) vb(1) by (intro codec_intros)
  then have fb: "fb = ?kb @ vb @ rb" using emits_unique Cons.prems(2) by fastforce
  have "run_state r_str (mk_reader fb) = (fst kv, mk_reader (vb @ rb))"
    using codes_run [OF codes_str [OF kv(1)], of "vb @ rb"] by (simp add: fb)
  moreover have "run_state read_fv (mk_reader (vb @ rb)) = (snd kv, mk_reader rb)"
    by (rule codes_run [OF vb(2)])
  moreover obtain e r where "run_state (read_fields (length good + Suc j) (omap_emplace (fst kv) (snd kv) m)) (mk_reader rb) = (Err e, r)"
    using Cons.IH [OF _ rb] Cons.prems(1) by fastforce
  ultimately show ?case by (simp add: r_ok_def mk_reader_def)
qed

text \<open>An observation the writer accepts: everything fits, whatever its doubles are.\<close>

definition writable :: "observation \<Rightarrow> bool" where
  "writable ob \<longleftrightarrow> obs_ok (ob\<lparr>o_fields := []\<rparr>) \<and> length (o_fields ob) \<le> unat max_field_count \<and>
     list_all (\<lambda>kv. fits32 (length (fst kv)) \<and> fv_fits (snd kv)) (o_fields ob)"

lemma f64_inf_nonfinite: "f64_nonfinite (f64_inf s)"
  by (cases s) (simp_all add: f64_nonfinite_def f64_inf_def f64_sign_bit_def f64_inf_bits_def)

lemma nonfinite_rejected:
  assumes "writable ob" and "(k, FvF64 x) \<in> set (o_fields ob)" and "f64_nonfinite x"
  shows "\<exists>bs e. encode_observation_payload ob = Ok bs \<and> read_observation_payload bs = Err e"
proof -
  let ?t = "ob\<lparr>o_fields := []\<rparr>" and ?n = "length (o_fields ob)"
  have t: "obs_ok ?t" and n: "?n \<le> unat max_field_count"
    and fits: "list_all (\<lambda>kv. fits32 (length (fst kv)) \<and> fv_fits (snd kv)) (o_fields ob)"
    using assms(1) by (simp_all add: writable_def)
  have "\<exists>kv \<in> set (o_fields ob). \<not> fv_ok (snd kv)" using assms(2,3) by force
  then obtain good kv later where split: "o_fields ob = good @ kv # later" "\<not> fv_ok (snd kv)"
      "\<forall>kv \<in> set good. fv_ok (snd kv)"
    using split_list_first_prop [of "o_fields ob" "\<lambda>kv. \<not> fv_ok (snd kv)"] by blast
  have "fv_fits (snd kv)" using fits by (simp add: split(1))
  then obtain y where "snd kv = FvF64 y" "f64_nonfinite y"
    using fv_fits_cases [of "snd kv"] split(2) by blast
  then have y: "kv = (fst kv, FvF64 y)" "f64_nonfinite y" by (cases kv; simp)+
  obtain fb where fb: "emits (write_fields (o_fields ob)) fb" using fields_emits [OF fits] by blast
  have n32: "fits32 ?n" using n by (simp add: fits32_def max_field_count_def)
  let ?bs = "to_bytes (o_id ob) @ be_bytes 2 (obs_type_num (o_type ob)) @ header_bytes ?t @
     be_bytes 4 (of_nat ?n :: u32) @ fb"
  have hdr: "header_bytes ?t = header_bytes ob" by (simp add: header_bytes_def presence_bytes_def presence_def)
  have clock: "fits32 (length (o_clock_domain ob))" using t by (simp add: obs_ok_def)
  have "emits (write_observation ob) ?bs"
    unfolding hdr by (rule emits_observation_fits [OF clock n32 fb])
  then have enc: "encode_observation_payload ob = Ok ?bs"
    using emits_run [of _ _ "[]"] by (simp add: encode_observation_payload_def)
  have "list_all (\<lambda>kv. fits32 (length (fst kv)) \<and> fv_ok (snd kv)) good" "fits32 (length (fst kv))"
    "list_all (\<lambda>kv. fits32 (length (fst kv)) \<and> fv_fits (snd kv)) later"
    using fits split(1,3) by (auto simp: list_all_iff)
  then obtain e r where fields: "run_state (read_fields ?n []) (mk_reader fb) = (Err e, r)"
    using read_fields_nonfinite [of good "fst kv" y later fb "length later" "[]"] fb y split(1) by auto
  have c: "unat (of_nat ?n :: u64) = ?n" using n by (simp add: unat_of_nat max_field_count_def)
  have lt: "\<not> max_field_count < (of_nat ?n :: u64)" using n by (simp add: word_less_nat_alt c)
  have "run_state read_observation (mk_reader ?bs) = (Err e, r)"
    using codes_run [OF codes_id] codes_run [OF codes_words(1)] codes_run [OF codes_header [OF t refl]]
      codes_run [OF codes_count [OF n32]] codes_run [OF codes_ok, of fb] fields
    by (simp add: read_observation_def obs_type_num_le c lt)
  then show ?thesis using enc by (simp add: read_observation_payload_def)
qed

text \<open>C39: The writer and the reader disagree on infinities and NaN: an observation with such a field is
  encoded without error, and its encoding is rejected by the decoder.\<close>

theorem nonfinite_unreadable:
  assumes "writable ob" and "(k, FvF64 x) \<in> set (o_fields ob)" and "f64_nonfinite x"
  shows "\<exists>bs e. encode_observation_payload ob = Ok bs \<and> read_observation_payload bs = Err e"
  using assms by (rule nonfinite_rejected)

theorem nonfinite_unreadable_witness:
  "\<exists>bs e. encode_observation_payload (default_observation\<lparr>o_fields := [(''gpu_ms'', FvF64 (f64_inf False))]\<rparr>) = Ok bs \<and>
    read_observation_payload bs = Err e"
proof (rule nonfinite_unreadable [where k = "''gpu_ms''" and x = "f64_inf False"])
  show "writable (default_observation\<lparr>o_fields := [(''gpu_ms'', FvF64 (f64_inf False))]\<rparr>)"
    by (simp add: writable_def obs_ok_def fields_ok_def default_observation_def fits32_def max_field_count_def fv_fits_def)
  show "(''gpu_ms'', FvF64 (f64_inf False)) \<in>
      set (o_fields (default_observation\<lparr>o_fields := [(''gpu_ms'', FvF64 (f64_inf False))]\<rparr>))"
    by simp
qed (rule f64_inf_nonfinite)

end
