(* ===== verification/Trace.thy ===== *)
theory Trace
  imports Observation
begin

section \<open>Request traces\<close>

text \<open>
  \<^verbatim>\<open>include/servingobs/trace/trace.hpp\<close> and \<^verbatim>\<open>src/trace.cpp\<close>: the timeline order of a
  request's observations, the identity and epoch summary, the timeline, the phase intervals and
  the outcome. The order is an instance of the locale \<open>sort_order\<close>, so what the trace says does
  not depend on the order in which the evidence arrived. The JSON view is
  in \<open>Views\<close>.
\<close>

subsection \<open>Phases\<close>

datatype phase =
    PH_ARRIVAL | PH_ADMISSION | PH_QUEUE | PH_BATCH_WAIT | PH_DISPATCH | PH_TRANSFER | PH_PREFILL
  | PH_FIRST_TOKEN | PH_DECODE | PH_SPECULATION | PH_RETRY | PH_RECOVERY | PH_COMPLETION | PH_TOTAL

fun phase_num :: "phase \<Rightarrow> nat" where
  "phase_num PH_ARRIVAL = 0"
| "phase_num PH_ADMISSION = 1"
| "phase_num PH_QUEUE = 2"
| "phase_num PH_BATCH_WAIT = 3"
| "phase_num PH_DISPATCH = 4"
| "phase_num PH_TRANSFER = 5"
| "phase_num PH_PREFILL = 6"
| "phase_num PH_FIRST_TOKEN = 7"
| "phase_num PH_DECODE = 8"
| "phase_num PH_SPECULATION = 9"
| "phase_num PH_RETRY = 10"
| "phase_num PH_RECOVERY = 11"
| "phase_num PH_COMPLETION = 12"
| "phase_num PH_TOTAL = 13"

fun phase_name :: "phase \<Rightarrow> string" where
  "phase_name PH_ARRIVAL = ''arrival''"
| "phase_name PH_ADMISSION = ''admission''"
| "phase_name PH_QUEUE = ''queue''"
| "phase_name PH_BATCH_WAIT = ''batch_wait''"
| "phase_name PH_DISPATCH = ''dispatch''"
| "phase_name PH_TRANSFER = ''transfer''"
| "phase_name PH_PREFILL = ''prefill''"
| "phase_name PH_FIRST_TOKEN = ''first_token''"
| "phase_name PH_DECODE = ''decode''"
| "phase_name PH_SPECULATION = ''speculation''"
| "phase_name PH_RETRY = ''retry''"
| "phase_name PH_RECOVERY = ''recovery''"
| "phase_name PH_COMPLETION = ''completion''"
| "phase_name PH_TOTAL = ''total''"

lemma phase_num_inject [simp]: "phase_num p = phase_num q \<longleftrightarrow> p = q"
  by (cases p; cases q) simp_all

lemma phase_num_less: "phase_num p < 14"
  by (cases p) simp_all

record phase_interval =
  p_phase :: phase
  p_exists :: bool
  p_start :: u64
  p_end :: u64
  p_provenance :: provenance
  p_source :: string
  p_detail :: string

definition default_phase :: phase_interval where [defaults]:
  "default_phase = \<lparr>p_phase = PH_TOTAL, p_exists = False, p_start = 0, p_end = 0,
     p_provenance = PV_UNKNOWN, p_source = [], p_detail = []\<rparr>"

type_synonym phases = "phase_interval list" \<comment> \<open>the array of 14, indexed by phase\<close>

definition no_phases :: phases where
  "no_phases = replicate 14 default_phase"

definition add_phase :: "phase \<Rightarrow> u64 \<Rightarrow> u64 \<Rightarrow> provenance \<Rightarrow> string \<Rightarrow> string \<Rightarrow> phases \<Rightarrow> phases" where
  "add_phase p start end_ts prov source detail ps = ps[phase_num p :=
     \<lparr>p_phase = p, p_exists = True, p_start = start, p_end = end_ts, p_provenance = prov,
      p_source = source, p_detail = detail\<rparr>]"

definition get_phase :: "phase \<Rightarrow> phases \<Rightarrow> phase_interval" where
  "get_phase p ps = ps ! phase_num p"

definition has_phase :: "phase \<Rightarrow> phases \<Rightarrow> bool" where
  "has_phase p ps = p_exists (ps ! phase_num p)"

subsection \<open>The trace\<close>

record trace_event =
  e_ordinal :: u32
  e_type :: obs_type
  e_ts :: u64
  e_has_ts :: bool
  e_provenance :: provenance
  e_source :: source_id
  e_worker :: worker_id
  e_boot :: worker_boot_id
  e_src_gen :: u64
  e_obs_gen :: u64
  e_epoch :: u64
  e_seq :: u64
  e_label :: string
  e_fields :: fields

record request_trace =
  tr_trace_id :: trace_id
  tr_request_id :: request_id
  tr_tenant :: id128
  tr_workload :: id128
  tr_model :: id128
  tr_model_rev :: id128
  tr_adapter :: id128
  tr_evidence :: "observation list"
  tr_timeline :: "trace_event list"
  tr_phases :: phases
  tr_outcome :: outcome
  tr_terminal_reason :: string
  tr_min_epoch :: u64
  tr_max_epoch :: u64
  tr_spans_multiple_epochs :: bool
  tr_boots :: "worker_boot_id list"
  tr_src_gens :: "u64 list"
  tr_obs_gens :: "u64 list"

definition new_trace :: "request_id \<Rightarrow> request_trace" where
  "new_trace rid =
     \<lparr>tr_trace_id = derive 0x5154 (to_bytes rid), tr_request_id = rid,
      tr_tenant = id_null, tr_workload = id_null, tr_model = id_null, tr_model_rev = id_null,
      tr_adapter = id_null, tr_evidence = [], tr_timeline = [], tr_phases = no_phases,
      tr_outcome = OC_UNKNOWN, tr_terminal_reason = [], tr_min_epoch = 0, tr_max_epoch = 0,
      tr_spans_multiple_epochs = False, tr_boots = [], tr_src_gens = [], tr_obs_gens = []\<rparr>"

text \<open>A timestamp, and whether it is one of the receive clock.\<close>

record timed_obs =
  t_ts :: u64
  t_recv :: bool

definition obs_time :: "observation \<Rightarrow> timed_obs" where
  "obs_time ob =
     (if o_has_recv_ts ob then \<lparr>t_ts = o_recv_ts ob, t_recv = True\<rparr>
      else if o_has_obs_ts ob then \<lparr>t_ts = o_obs_ts ob, t_recv = False\<rparr>
      else \<lparr>t_ts = 0, t_recv = False\<rparr>)"

text \<open>The comparator of \<^verbatim>\<open>std::sort\<close>: time, receive clock first, sequence number, id.\<close>

definition timeline_before :: "observation \<Rightarrow> observation \<Rightarrow> bool" where
  "timeline_before a b =
     (let ta = obs_time a; tb = obs_time b
      in if t_ts ta \<noteq> t_ts tb then t_ts ta < t_ts tb
         else if t_recv ta \<noteq> t_recv tb then t_recv ta \<and> \<not> t_recv tb
         else if o_seq a \<noteq> o_seq b then o_seq a < o_seq b
         else o_id a < o_id b)"

interpretation timeline: sort_order timeline_before
  by unfold_locales (auto simp: timeline_before_def Let_def split: if_splits)

subsection \<open>Summary and timeline\<close>

definition add_once :: "'a \<Rightarrow> 'a list \<Rightarrow> 'a list" where
  "add_once x xs = (if x \<in> set xs then xs else xs @ [x])"

definition snapshot_step :: "observation \<Rightarrow> request_trace \<Rightarrow> request_trace" where
  "snapshot_step ob tr = tr\<lparr>
     tr_tenant := (if is_null (tr_tenant tr) then id_field ob ''tenant_id'' else tr_tenant tr),
     tr_workload := (if is_null (tr_workload tr) then id_field ob ''workload_id'' else tr_workload tr),
     tr_model := (if is_null (tr_model tr) then id_field ob ''model_id'' else tr_model tr),
     tr_model_rev := (if is_null (tr_model_rev tr) then id_field ob ''model_rev_id'' else tr_model_rev tr),
     tr_adapter := (if is_null (tr_adapter tr) then id_field ob ''adapter_id'' else tr_adapter tr),
     tr_boots := add_once (o_boot ob) (tr_boots tr),
     tr_src_gens := add_once (o_src_gen ob) (tr_src_gens tr),
     tr_obs_gens := add_once (o_obs_gen ob) (tr_obs_gens tr),
     tr_min_epoch := (if tr_min_epoch tr = 0 \<or> o_epoch ob < tr_min_epoch tr then o_epoch ob
                      else tr_min_epoch tr),
     tr_max_epoch := (if tr_max_epoch tr < o_epoch ob then o_epoch ob else tr_max_epoch tr)\<rparr>"

definition trace_event_of :: "u32 \<Rightarrow> observation \<Rightarrow> trace_event" where
  "trace_event_of ord ob =
     (let t = obs_time ob
      in \<lparr>e_ordinal = ord, e_type = o_type ob, e_ts = t_ts t, e_has_ts = (t_ts t \<noteq> 0),
          e_provenance = o_provenance ob, e_source = o_source ob, e_worker = o_worker ob,
          e_boot = o_boot ob, e_src_gen = o_src_gen ob, e_obs_gen = o_obs_gen ob,
          e_epoch = o_epoch ob, e_seq = o_seq ob, e_label = obs_type_name (o_type ob),
          e_fields = o_fields ob\<rparr>)"

fun timeline_from :: "u32 \<Rightarrow> observation list \<Rightarrow> trace_event list" where
  "timeline_from ord [] = []"
| "timeline_from ord (ob # obs) = trace_event_of ord ob # timeline_from (ord + 1) obs"

subsection \<open>Phase extraction\<close>

definition first_obs :: "observation list \<Rightarrow> obs_type \<Rightarrow> observation option" where
  "first_obs obs t = find (\<lambda>ob. o_type ob = t) obs"

definition last_obs :: "observation list \<Rightarrow> obs_type \<Rightarrow> observation option" where
  "last_obs obs t = find (\<lambda>ob. o_type ob = t) (rev obs)"

definition count_obs :: "observation list \<Rightarrow> obs_type \<Rightarrow> nat" where
  "count_obs obs t = length (filter (\<lambda>ob. o_type ob = t) obs)"

definition tdom :: "observation option \<Rightarrow> timed_obs" where
  "tdom ob = (case ob of None \<Rightarrow> \<lparr>t_ts = 0, t_recv = False\<rparr> | Some x \<Rightarrow> obs_time x)"

definition span_provenance :: "timed_obs \<Rightarrow> timed_obs \<Rightarrow> provenance" where
  "span_provenance s e = (if t_recv s \<and> t_recv e then PV_MEASURED else PV_RECONSTRUCTED)"

text \<open>The two shapes most phases have: a point, and a span between two observations.\<close>

definition add_point :: "phase \<Rightarrow> string \<Rightarrow> observation option \<Rightarrow> phases \<Rightarrow> phases" where
  "add_point p detail x ps =
     (case x of
        None \<Rightarrow> ps
      | Some ob \<Rightarrow>
          if t_ts (obs_time ob) \<noteq> 0
          then add_phase p (t_ts (obs_time ob)) (t_ts (obs_time ob)) (o_provenance ob)
                 (to_hex (o_source ob)) detail ps
          else ps)"

definition add_span :: "phase \<Rightarrow> string \<Rightarrow> observation option \<Rightarrow> observation option \<Rightarrow> phases \<Rightarrow> phases" where
  "add_span p detail x y ps =
     (case (x, y) of
        (Some s, Some e) \<Rightarrow>
          if t_ts (obs_time s) \<noteq> 0 \<and> t_ts (obs_time e) \<noteq> 0
          then add_phase p (t_ts (obs_time s)) (t_ts (obs_time e))
                 (span_provenance (obs_time s) (obs_time e)) (to_hex (o_source s)) detail ps
          else ps
      | _ \<Rightarrow> ps)"

definition arrival_time :: "observation list \<Rightarrow> timed_obs" where
  "arrival_time obs =
     (let a = tdom (first_obs obs OT_REQUEST);
          a1 = (if t_ts a = 0 then tdom (first_obs obs OT_QUEUE_ENTER) else a)
      in if t_ts a1 = 0 \<and> obs \<noteq> [] then obs_time (hd obs) else a1)"

definition completion_time :: "observation list \<Rightarrow> timed_obs" where
  "completion_time obs =
     (let c = tdom (last_obs obs OT_COMPLETION)
      in if t_ts c = 0 \<and> obs \<noteq> [] then obs_time (last obs) else c)"

definition add_arrival :: "observation list \<Rightarrow> phases \<Rightarrow> phases" where
  "add_arrival obs ps =
     (let a = arrival_time obs; req = first_obs obs OT_REQUEST
      in if t_ts a \<noteq> 0
         then add_phase PH_ARRIVAL (t_ts a) (t_ts a)
                (case req of None \<Rightarrow> PV_RECONSTRUCTED | Some r \<Rightarrow> o_provenance r)
                (case req of None \<Rightarrow> [] | Some r \<Rightarrow> to_hex (o_source r)) ''arrival'' ps
         else ps)"

definition add_queue :: "observation list \<Rightarrow> phases \<Rightarrow> phases" where
  "add_queue obs =
     add_span PH_QUEUE (''queue residence ('' @ dec_string (count_obs obs OT_QUEUE_ENTER) @ '' enter)'')
       (first_obs obs OT_QUEUE_ENTER) (last_obs obs OT_QUEUE_LEAVE)"

definition add_batch_wait :: "observation list \<Rightarrow> phases \<Rightarrow> phases" where
  "add_batch_wait obs ps =
     (let bf = first_obs obs OT_BATCH_FORM; bs = first_obs obs OT_BATCH_SEAL;
          disp = first_obs obs OT_DISPATCH
      in if (bf \<noteq> None \<or> bs \<noteq> None) \<and> disp \<noteq> None \<and> t_ts (tdom disp) \<noteq> 0
         then (let x = the (if bf \<noteq> None then bf else bs); s = obs_time x; e = tdom disp
               in add_phase PH_BATCH_WAIT (t_ts s) (t_ts e) (span_provenance s e)
                    (to_hex (o_source x)) ''batch wait'' ps)
         else ps)"

definition add_dispatch :: "observation list \<Rightarrow> phases \<Rightarrow> phases" where
  "add_dispatch obs ps =
     (case first_obs obs OT_DISPATCH of
        None \<Rightarrow> ps
      | Some disp \<Rightarrow>
          if t_ts (obs_time disp) \<noteq> 0
          then (let s = obs_time disp;
                    e = tdom (first_obs obs OT_PREFILL_START);
                    e1 = (if t_ts e = 0 then tdom (first_obs obs OT_DECODE_STEP_START) else e);
                    e2 = (if t_ts e1 < t_ts s then e1\<lparr>t_ts := t_ts s\<rparr> else e1)
                in add_phase PH_DISPATCH (t_ts s) (t_ts e2) (span_provenance s e2)
                     (to_hex (o_source disp)) ''dispatch -> start of execution'' ps)
          else ps)"

definition add_decode :: "observation list \<Rightarrow> phases \<Rightarrow> phases" where
  "add_decode obs ps =
     (let pe = tdom (last_obs obs OT_PREFILL_END)
      in case (first_obs obs OT_DECODE_STEP_START, last_obs obs OT_DECODE_STEP_END) of
           (Some ds, Some de) \<Rightarrow>
             (let dss = obs_time ds; dse = obs_time de
              in if t_ts dss \<noteq> 0 \<and> t_ts dse \<noteq> 0
                 then (let base = (if t_ts pe \<noteq> 0 then pe else dss);
                           ft_end = (if t_ts dse < t_ts base then dss else dse)
                       in add_phase PH_DECODE (t_ts dss) (t_ts dse) (span_provenance dss dse)
                            (to_hex (o_source ds))
                            (''decode ('' @ dec_string (count_obs obs OT_DECODE_STEP_START) @ '' steps)'')
                            (add_phase PH_FIRST_TOKEN (t_ts base) (t_ts ft_end) PV_RECONSTRUCTED
                               (to_hex (o_source ds)) ''first token'' ps))
                 else ps)
         | _ \<Rightarrow> ps)"

definition add_total :: "observation list \<Rightarrow> phases \<Rightarrow> phases" where
  "add_total obs ps =
     (let a = arrival_time obs; c = completion_time obs
      in if t_ts a \<noteq> 0
         then (let l = (if t_ts c \<noteq> 0 then c else if obs = [] then a else obs_time (last obs));
                   l1 = (if t_ts l < t_ts a then l\<lparr>t_ts := t_ts a\<rparr> else l)
               in add_phase PH_TOTAL (t_ts a) (t_ts l1) PV_RECONSTRUCTED [] ''total'' ps)
         else ps)"

text \<open>The phases in the order the code adds them.\<close>

definition extract_phases :: "observation list \<Rightarrow> phases" where
  "extract_phases obs =
     fold (\<lambda>f ps. f ps)
       [add_arrival obs,
        add_point PH_ADMISSION ''admission'' (first_obs obs OT_ADMISSION),
        add_queue obs, add_batch_wait obs, add_dispatch obs,
        add_span PH_TRANSFER ''transfer'' (first_obs obs OT_TRANSFER_START) (last_obs obs OT_TRANSFER_END),
        add_span PH_PREFILL ''prefill'' (first_obs obs OT_PREFILL_START) (last_obs obs OT_PREFILL_END),
        add_decode obs,
        add_span PH_SPECULATION ''speculation'' (first_obs obs OT_SPECULATION_START)
          (last_obs obs OT_SPECULATION_VERIFY),
        add_point PH_RETRY (''retry ('' @ dec_string (count_obs obs OT_RETRY) @ '' events)'')
          (first_obs obs OT_RETRY),
        add_point PH_RECOVERY ''recovery'' (first_obs obs OT_RECOVERY),
        add_point PH_COMPLETION ''completion'' (last_obs obs OT_COMPLETION),
        add_total obs]
       no_phases"

subsection \<open>Outcome and reconstruction\<close>

definition trace_outcome :: "observation list \<Rightarrow> outcome \<times> string" where
  "trace_outcome obs =
     (let comp = last_obs obs OT_COMPLETION;
          first = (case comp of
              Some c \<Rightarrow> (outcome_from_code (str_field c ''outcome'' []), str_field c ''reason'' [])
            | None \<Rightarrow>
                (case first_obs obs OT_CANCEL of
                   Some x \<Rightarrow> (OC_CANCELLED, str_field x ''reason'' [])
                 | None \<Rightarrow>
                     (case first_obs obs OT_FAILURE of
                        Some f \<Rightarrow> (OC_FAILED, str_field f ''reason'' [])
                      | None \<Rightarrow> (OC_UNKNOWN, []))))
      in if fst first = OC_UNKNOWN
         then if 0 < count_obs obs OT_FAILURE \<and> comp = None then (OC_FAILED, snd first)
              else if comp \<noteq> None then (OC_COMPLETED, snd first)
              else first
         else first)"

definition reconstruct_trace :: "observation list \<Rightarrow> request_id \<Rightarrow> request_trace" where
  "reconstruct_trace obs_in rid =
     (let obs = cpp_sort timeline_before obs_in;
          tr = fold snapshot_step obs ((new_trace rid)\<lparr>tr_evidence := obs\<rparr>)
      in tr\<lparr>tr_spans_multiple_epochs := (tr_min_epoch tr \<noteq> tr_max_epoch tr),
            tr_timeline := timeline_from 0 obs,
            tr_phases := extract_phases obs,
            tr_outcome := fst (trace_outcome obs),
            tr_terminal_reason := snd (trace_outcome obs)\<rparr>)"

subsection \<open>What the summary holds\<close>

lemma add_once_set [simp]: "set (add_once x xs) = insert x (set xs)"
  by (auto simp: add_once_def)

lemma add_once_distinct [simp]: "distinct (add_once x xs) = distinct xs"
  by (simp add: add_once_def)

lemma snapshot_fold_sets:
  "set (tr_boots (fold snapshot_step obs tr)) = set (tr_boots tr) \<union> o_boot ` set obs"
  "set (tr_src_gens (fold snapshot_step obs tr)) = set (tr_src_gens tr) \<union> o_src_gen ` set obs"
  "set (tr_obs_gens (fold snapshot_step obs tr)) = set (tr_obs_gens tr) \<union> o_obs_gen ` set obs"
  "distinct (tr_boots (fold snapshot_step obs tr)) = distinct (tr_boots tr)"
  "distinct (tr_src_gens (fold snapshot_step obs tr)) = distinct (tr_src_gens tr)"
  "distinct (tr_obs_gens (fold snapshot_step obs tr)) = distinct (tr_obs_gens tr)"
  by (induction obs arbitrary: tr) (simp_all add: snapshot_step_def)

lemma snapshot_fold_evidence [simp]:
  "tr_evidence (fold snapshot_step obs tr) = tr_evidence tr"
  "tr_request_id (fold snapshot_step obs tr) = tr_request_id tr"
  by (induction obs arbitrary: tr) (simp_all add: snapshot_step_def)

lemma snapshot_max_epoch:
  "tr_max_epoch (fold snapshot_step obs tr) = Max (insert (tr_max_epoch tr) (o_epoch ` set obs))"
proof (induction obs arbitrary: tr)
  case (Cons ob obs)
  have "tr_max_epoch (snapshot_step ob tr) = max (tr_max_epoch tr) (o_epoch ob)"
    by (auto simp: snapshot_step_def max_def)
  then show ?case
    by (cases "obs = []") (simp_all add: Cons.IH max.assoc max.left_commute)
qed simp

lemma snapshot_min_epoch:
  "0 < tr_min_epoch tr \<Longrightarrow> 0 \<notin> o_epoch ` set obs \<Longrightarrow>
     tr_min_epoch (fold snapshot_step obs tr) = Min (insert (tr_min_epoch tr) (o_epoch ` set obs))"
proof (induction obs arbitrary: tr)
  case (Cons ob obs)
  have m: "tr_min_epoch (snapshot_step ob tr) = min (tr_min_epoch tr) (o_epoch ob)"
    using Cons.prems by (auto simp: snapshot_step_def min_def)
  moreover have "0 < tr_min_epoch (snapshot_step ob tr)"
    using Cons.prems m by (auto simp: min_def word_gt_0)
  ultimately show ?case
    using Cons by (cases "obs = []") (simp_all add: min.assoc min.left_commute)
qed simp

lemma length_timeline [simp]: "length (timeline_from n obs) = length obs"
  by (induction n obs rule: timeline_from.induct) auto

lemma nth_timeline:
  "i < length obs \<Longrightarrow> timeline_from n obs ! i = trace_event_of (n + of_nat i) (obs ! i)"
  by (induction n obs arbitrary: i rule: timeline_from.induct)
     (auto simp: nth_Cons add.assoc split: nat.split)

lemma timeline_before_ts: "\<not> timeline_before b a \<Longrightarrow> t_ts (obs_time a) \<le> t_ts (obs_time b)"
  by (auto simp: timeline_before_def Let_def split: if_splits)

lemma sorted_timeline_ts:
  "sorted_by timeline_before obs \<Longrightarrow> sorted (map (\<lambda>ob. t_ts (obs_time ob)) obs)"
  unfolding sorted_by_def sorted_wrt_map
  by (erule sorted_wrt_mono_rel [rotated]) (rule timeline_before_ts)

subsection \<open>What holds of every phase\<close>

text \<open>
  A receive-clock reading of the evidence; the phases that are points, clamped, or derived; and
  what the extraction guarantees of an interval.
\<close>

definition recv_reading :: "observation list \<Rightarrow> u64 \<Rightarrow> bool" where
  "recv_reading obs ts = (\<exists>ob \<in> set obs. o_has_recv_ts ob \<and> o_recv_ts ob = ts)"

definition ordered_phases :: "phase set" where
  "ordered_phases = {PH_ARRIVAL, PH_ADMISSION, PH_DISPATCH, PH_RETRY, PH_RECOVERY, PH_COMPLETION, PH_TOTAL}"

definition point_phases :: "phase set" where
  "point_phases = {PH_ARRIVAL, PH_ADMISSION, PH_RETRY, PH_RECOVERY, PH_COMPLETION}"

text \<open>The observation a point phase is read from; an arrival takes its label from the REQUEST, if there is one.\<close>

definition point_source :: "observation list \<Rightarrow> phase_interval \<Rightarrow> bool" where
  "point_source obs i \<longleftrightarrow>
     (if p_phase i = PH_ARRIVAL
      then (\<exists>ob \<in> set obs. o_type ob = OT_REQUEST \<and> p_provenance i = o_provenance ob) \<or>
           OT_REQUEST \<notin> o_type ` set obs \<and> p_provenance i = PV_RECONSTRUCTED
      else \<exists>ob \<in> set obs.
        (p_phase i, o_type ob) \<in> {(PH_ADMISSION, OT_ADMISSION), (PH_RETRY, OT_RETRY), (PH_RECOVERY, OT_RECOVERY),
          (PH_COMPLETION, OT_COMPLETION)} \<and>
        t_ts (obs_time ob) = p_start i \<and> p_provenance i = o_provenance ob)"

definition phase_sound :: "observation list \<Rightarrow> phase_interval \<Rightarrow> bool" where
  "phase_sound obs i \<longleftrightarrow>
     (p_phase i \<in> ordered_phases \<longrightarrow> p_start i \<le> p_end i) \<and>
     (p_phase i \<in> point_phases \<longrightarrow> p_start i = p_end i \<and> point_source obs i) \<and>
     (p_phase i \<in> {PH_FIRST_TOKEN, PH_TOTAL} \<longrightarrow> p_provenance i = PV_RECONSTRUCTED) \<and>
     (p_phase i \<notin> point_phases \<longrightarrow> p_provenance i = PV_MEASURED \<longrightarrow>
        recv_reading obs (p_start i) \<and> recv_reading obs (p_end i))"

definition phases_ok :: "observation list \<Rightarrow> phases \<Rightarrow> bool" where
  "phases_ok obs ps \<longleftrightarrow>
     length ps = 14 \<and> (\<forall>p. p_exists (get_phase p ps) \<longrightarrow> p_phase (get_phase p ps) = p) \<and>
     (\<forall>i \<in> set ps. p_exists i \<longrightarrow> phase_sound obs i)"

lemma phases_ok_none: "phases_ok obs no_phases"
  using phase_num_less by (simp add: phases_ok_def no_phases_def get_phase_def default_phase_def)

lemma phases_ok_add:
  assumes "phases_ok obs ps"
    and "phase_sound obs \<lparr>p_phase = p, p_exists = True, p_start = s, p_end = e, p_provenance = pv,
           p_source = src, p_detail = d\<rparr>"
  shows "phases_ok obs (add_phase p s e pv src d ps)"
  using assms set_update_subset_insert [of ps "phase_num p"] phase_num_less
  by (auto simp: phases_ok_def add_phase_def get_phase_def nth_list_update dest!: subsetD)

lemma first_obs_in: "first_obs obs t = Some ob \<Longrightarrow> ob \<in> set obs \<and> o_type ob = t"
  by (auto simp: first_obs_def find_Some_iff)

lemma last_obs_in: "last_obs obs t = Some ob \<Longrightarrow> ob \<in> set obs \<and> o_type ob = t"
  unfolding last_obs_def by (metis (mono_tags, lifting) find_Some_iff nth_mem set_rev)

lemma recv_reading_time: "ob \<in> set obs \<Longrightarrow> t_recv (obs_time ob) \<Longrightarrow> recv_reading obs (t_ts (obs_time ob))"
  by (auto simp: recv_reading_def obs_time_def split: if_splits)

lemma recv_reading_tdom:
  "t_recv (tdom x) \<Longrightarrow> (\<And>ob. x = Some ob \<Longrightarrow> ob \<in> set obs) \<Longrightarrow> recv_reading obs (t_ts (tdom x))"
  by (cases x) (auto simp: tdom_def recv_reading_time)

lemma phases_ok_point:
  assumes "phases_ok obs ps" and "x \<in> {first_obs obs t, last_obs obs t}"
    and "(p, t) \<in> {(PH_ADMISSION, OT_ADMISSION), (PH_RETRY, OT_RETRY), (PH_RECOVERY, OT_RECOVERY), (PH_COMPLETION, OT_COMPLETION)}"
  shows "phases_ok obs (add_point p d x ps)"
proof (cases x)
  case (Some ob)
  then have "ob \<in> set obs" "o_type ob = t" using assms(2) first_obs_in last_obs_in by auto
  then have "point_source obs \<lparr>p_phase = p, p_exists = True, p_start = t_ts (obs_time ob), p_end = t_ts (obs_time ob),
      p_provenance = o_provenance ob, p_source = to_hex (o_source ob), p_detail = d\<rparr>"
    using assms(3) unfolding point_source_def by auto
  then have "phase_sound obs \<lparr>p_phase = p, p_exists = True, p_start = t_ts (obs_time ob), p_end = t_ts (obs_time ob),
      p_provenance = o_provenance ob, p_source = to_hex (o_source ob), p_detail = d\<rparr>"
    using assms(3) by (auto simp: phase_sound_def point_phases_def)
  then show ?thesis using assms(1) by (simp add: Some add_point_def phases_ok_add)
qed (use assms(1) in \<open>simp add: add_point_def\<close>)

lemma phases_ok_span:
  assumes "phases_ok obs ps" and "p \<notin> ordered_phases" and "p \<notin> point_phases" and "p \<noteq> PH_FIRST_TOKEN"
    and "\<And>ob. x = Some ob \<Longrightarrow> ob \<in> set obs" and "\<And>ob. y = Some ob \<Longrightarrow> ob \<in> set obs"
  shows "phases_ok obs (add_span p d x y ps)"
  using assms
  by (auto simp: add_span_def phase_sound_def span_provenance_def ordered_phases_def intro!: phases_ok_add recv_reading_time
        split: option.split if_splits)

lemma phases_ok_arrival: "phases_ok obs ps \<Longrightarrow> phases_ok obs (add_arrival obs ps)"
proof -
  assume ok: "phases_ok obs ps"
  have "point_source obs \<lparr>p_phase = PH_ARRIVAL, p_exists = True, p_start = t, p_end = t,
      p_provenance = (case first_obs obs OT_REQUEST of None \<Rightarrow> PV_RECONSTRUCTED | Some r \<Rightarrow> o_provenance r),
      p_source = s, p_detail = d\<rparr>" for t s d
  proof (cases "first_obs obs OT_REQUEST")
    case None
    then have "OT_REQUEST \<notin> o_type ` set obs" by (auto simp: first_obs_def find_None_iff)
    then show ?thesis by (simp add: point_source_def None)
  next
    case (Some r)
    then have "r \<in> set obs" "o_type r = OT_REQUEST" using first_obs_in by auto
    then show ?thesis unfolding point_source_def Some by auto
  qed
  then show ?thesis
    using ok by (auto simp: add_arrival_def Let_def phase_sound_def point_phases_def intro!: phases_ok_add)
qed

lemma phases_ok_batch_wait: "phases_ok obs ps \<Longrightarrow> phases_ok obs (add_batch_wait obs ps)"
  by (cases "first_obs obs OT_BATCH_FORM"; cases "first_obs obs OT_BATCH_SEAL";
      cases "first_obs obs OT_DISPATCH")
     (auto simp: add_batch_wait_def Let_def phase_sound_def ordered_phases_def point_phases_def
        span_provenance_def tdom_def intro!: phases_ok_add recv_reading_time dest: first_obs_in
        split: if_splits)

lemma phases_ok_dispatch: "phases_ok obs ps \<Longrightarrow> phases_ok obs (add_dispatch obs ps)"
  by (auto simp: add_dispatch_def Let_def phase_sound_def point_phases_def span_provenance_def
        intro!: phases_ok_add recv_reading_time recv_reading_tdom dest!: first_obs_in
        split: option.split if_splits)

lemma phases_ok_decode: "phases_ok obs ps \<Longrightarrow> phases_ok obs (add_decode obs ps)"
  by (cases "first_obs obs OT_DECODE_STEP_START"; cases "last_obs obs OT_DECODE_STEP_END")
     (auto simp: add_decode_def Let_def phase_sound_def ordered_phases_def point_phases_def
        span_provenance_def intro!: phases_ok_add recv_reading_time dest: first_obs_in last_obs_in
        split: if_splits)

lemma phases_ok_total: "phases_ok obs ps \<Longrightarrow> phases_ok obs (add_total obs ps)"
  by (auto simp: add_total_def Let_def phase_sound_def point_phases_def intro!: phases_ok_add)

lemma phases_ok_extract: "phases_ok obs (extract_phases obs)"
proof -
  have span: "phases_ok obs (add_span p d (first_obs obs t) (last_obs obs u) ps)"
    if "phases_ok obs ps" "p \<notin> ordered_phases \<union> point_phases \<union> {PH_FIRST_TOKEN}" for p d t u ps
    using that first_obs_in last_obs_in by (intro phases_ok_span) auto
  have queue: "phases_ok obs ps \<Longrightarrow> phases_ok obs (add_queue obs ps)" for ps
    unfolding add_queue_def by (rule span) (simp_all add: ordered_phases_def point_phases_def)
  show ?thesis
    unfolding extract_phases_def fold.simps o_def id_def
    by (rule phases_ok_total, rule phases_ok_point [where t = OT_COMPLETION], rule phases_ok_point [where t = OT_RECOVERY],
        rule phases_ok_point [where t = OT_RETRY], rule span, rule phases_ok_decode, rule span, rule span,
        rule phases_ok_dispatch, rule phases_ok_batch_wait, rule queue, rule phases_ok_point [where t = OT_ADMISSION],
        rule phases_ok_arrival, rule phases_ok_none)
       (simp_all add: ordered_phases_def point_phases_def)
qed

subsection \<open>The outcome\<close>

lemma first_obs_None: "first_obs obs t = None \<longleftrightarrow> t \<notin> o_type ` set obs"
  by (auto simp: first_obs_def find_None_iff)

lemma last_obs_None: "last_obs obs t = None \<longleftrightarrow> t \<notin> o_type ` set obs"
  by (auto simp: last_obs_def find_None_iff)

lemma count_obs_pos: "0 < count_obs obs t \<longleftrightarrow> t \<in> o_type ` set obs"
  by (auto simp: count_obs_def filter_empty_conv)

lemma outcome_unknown:
  "fst (trace_outcome obs) = OC_UNKNOWN \<longleftrightarrow>
     o_type ` set obs \<inter> {OT_COMPLETION, OT_CANCEL, OT_FAILURE} = {}"
proof -
  have "fst (trace_outcome obs) = OC_UNKNOWN \<longleftrightarrow>
      last_obs obs OT_COMPLETION = None \<and> first_obs obs OT_CANCEL = None \<and> first_obs obs OT_FAILURE = None"
    using count_obs_pos [of obs OT_FAILURE] first_obs_None [of obs OT_FAILURE]
    by (cases "last_obs obs OT_COMPLETION"; cases "first_obs obs OT_CANCEL"; cases "first_obs obs OT_FAILURE")
       (simp_all add: trace_outcome_def Let_def)
  then show ?thesis by (auto simp: first_obs_None last_obs_None)
qed

lemma reconstruct_fields:
  "tr_evidence (reconstruct_trace obs rid) = cpp_sort timeline_before obs"
  "tr_timeline (reconstruct_trace obs rid) = timeline_from 0 (cpp_sort timeline_before obs)"
  "tr_phases (reconstruct_trace obs rid) = extract_phases (cpp_sort timeline_before obs)"
  "tr_outcome (reconstruct_trace obs rid) = fst (trace_outcome (cpp_sort timeline_before obs))"
  by (simp_all add: reconstruct_trace_def Let_def)

lemma reconstruct_summary:
  "set (tr_boots (reconstruct_trace obs rid)) = o_boot ` set obs"
  "distinct (tr_boots (reconstruct_trace obs rid))"
  "set (tr_src_gens (reconstruct_trace obs rid)) = o_src_gen ` set obs"
  "set (tr_obs_gens (reconstruct_trace obs rid)) = o_obs_gen ` set obs"
  "tr_max_epoch (reconstruct_trace obs rid) = Max (insert 0 (o_epoch ` set obs))"
  "tr_spans_multiple_epochs (reconstruct_trace obs rid) =
     (tr_min_epoch (reconstruct_trace obs rid) \<noteq> tr_max_epoch (reconstruct_trace obs rid))"
  by (simp_all add: reconstruct_trace_def Let_def snapshot_fold_sets snapshot_max_epoch new_trace_def)

lemma reconstruct_min_epoch:
  assumes "obs \<noteq> []" and "0 \<notin> o_epoch ` set obs"
  shows "tr_min_epoch (reconstruct_trace obs rid) = Min (o_epoch ` set obs)"
proof -
  obtain ob obs' where s: "cpp_sort timeline_before obs = ob # obs'"
    using assms(1) by (cases "cpp_sort timeline_before obs") auto
  then have set: "set obs = insert ob (set obs')"
    by (metis list.simps(15) set_cpp_sort)
  have "0 < tr_min_epoch (snapshot_step ob ((new_trace rid)\<lparr>tr_evidence := ob # obs'\<rparr>))"
    "tr_min_epoch (snapshot_step ob ((new_trace rid)\<lparr>tr_evidence := ob # obs'\<rparr>)) = o_epoch ob"
    using assms(2) set by (auto simp: snapshot_step_def new_trace_def word_gt_0)
  moreover have "0 \<notin> o_epoch ` set obs'" using assms(2) set by auto
  ultimately show ?thesis
    using set by (simp add: reconstruct_trace_def Let_def s snapshot_min_epoch)
qed

subsection \<open>Properties\<close>

text \<open>A trace loses and invents no evidence: its evidence is a permutation of the
  observations given, in timeline order with non-decreasing timestamps, and its timeline has one
  event per piece of evidence, in that order, with its position, time, authority and fields.\<close>

theorem trace_timeline_faithful:
  "mset (tr_evidence (reconstruct_trace obs rid)) = mset obs \<and>
   sorted (map e_ts (tr_timeline (reconstruct_trace obs rid))) \<and>
   map (\<lambda>e. (e_type e, e_source e, e_worker e, e_boot e, e_epoch e, e_seq e, e_fields e))
       (tr_timeline (reconstruct_trace obs rid)) =
     map (\<lambda>ob. (o_type ob, o_source ob, o_worker ob, o_boot ob, o_epoch ob, o_seq ob, o_fields ob))
       (tr_evidence (reconstruct_trace obs rid)) \<and>
   map e_ordinal (tr_timeline (reconstruct_trace obs rid)) = map of_nat [0..<length obs]"
proof -
  have ts: "map e_ts (timeline_from n os) = map (\<lambda>ob. t_ts (obs_time ob)) os" for n os
    by (induction n os rule: timeline_from.induct) (simp_all add: trace_event_of_def Let_def)
  have ev: "map (\<lambda>e. (e_type e, e_source e, e_worker e, e_boot e, e_epoch e, e_seq e, e_fields e)) (timeline_from n os) =
      map (\<lambda>ob. (o_type ob, o_source ob, o_worker ob, o_boot ob, o_epoch ob, o_seq ob, o_fields ob)) os" for n os
    by (induction n os rule: timeline_from.induct) (simp_all add: trace_event_of_def Let_def)
  have ord: "map e_ordinal (timeline_from 0 os) = map of_nat [0..<length os]" for os
    by (rule nth_equalityI) (simp_all add: nth_timeline trace_event_of_def Let_def)
  show ?thesis
    using sorted_timeline_ts [OF timeline.sort_sorted, of obs] by (simp add: reconstruct_fields ts ev ord)
qed

text \<open>The trace does not depend on the order in which the evidence arrived: for observations
  that the timeline order tells apart (distinct ids suffice), every permutation of them gives
  the same trace in every field.\<close>

theorem trace_order_independent:
  assumes "mset obs = mset obs'" and "separates timeline_before (set obs)"
  shows "reconstruct_trace obs rid = reconstruct_trace obs' rid"
  using timeline.sort_permutation [OF assms] by (simp add: reconstruct_trace_def)

lemma distinct_ids_separate: "inj_on o_id A \<Longrightarrow> separates timeline_before A"
  unfolding separates_def timeline_before_def Let_def inj_on_def
  by (auto simp: neq_iff) (metis linorder_neqE)+

theorem trace_order_independent_witness:
  "reconstruct_trace [sample_observation, sample_observation\<lparr>o_id := Id128 1 1\<rparr>] (Id128 1 1) =
   reconstruct_trace [sample_observation\<lparr>o_id := Id128 1 1\<rparr>, sample_observation] (Id128 1 1)"
  by (rule trace_order_independent)
     (auto simp: add_mset_commute sample_observation_def intro!: distinct_ids_separate)


definition prefill_evidence :: "observation list" where
  "prefill_evidence =
     [sample_observation\<lparr>o_type := OT_PREFILL_START, o_has_recv_ts := True, o_recv_ts := 10\<rparr>,
      sample_observation\<lparr>o_type := OT_PREFILL_END, o_has_recv_ts := True, o_recv_ts := 30\<rparr>]"

lemma prefill_phase:
  "get_phase PH_PREFILL (tr_phases (reconstruct_trace prefill_evidence (Id128 1 1))) =
     \<lparr>p_phase = PH_PREFILL, p_exists = True, p_start = 10, p_end = 30, p_provenance = PV_MEASURED,
      p_source = to_hex (o_source sample_observation), p_detail = ''prefill''\<rparr>"
proof -
  have "cpp_sort timeline_before prefill_evidence = prefill_evidence"
    by (simp add: prefill_evidence_def cpp_sort_def timeline_before_def obs_time_def Let_def)
  then show ?thesis
    by (simp add: reconstruct_fields extract_phases_def get_phase_def add_arrival_def arrival_time_def
        prefill_evidence_def sample_observation_def default_observation_def first_obs_def last_obs_def tdom_def
        obs_time_def add_point_def add_span_def add_queue_def add_batch_wait_def add_dispatch_def add_decode_def
        add_total_def completion_time_def add_phase_def no_phases_def span_provenance_def Let_def)
qed


text \<open>A point phase can be labelled measured although its time is a source's own clock.\<close>

theorem point_measured_on_source_clock:
  "p_provenance (get_phase PH_ADMISSION (tr_phases (reconstruct_trace
     [default_observation\<lparr>o_type := OT_ADMISSION, o_has_obs_ts := True, o_obs_ts := 7, o_provenance := PV_MEASURED\<rparr>]
     (Id128 1 1)))) = PV_MEASURED"
  by (simp add: reconstruct_fields extract_phases_def get_phase_def add_arrival_def arrival_time_def
        default_observation_def first_obs_def last_obs_def tdom_def
        obs_time_def add_point_def add_span_def add_queue_def add_batch_wait_def add_dispatch_def add_decode_def
        add_total_def completion_time_def add_phase_def no_phases_def Let_def)

text \<open>A trace has an outcome exactly when its evidence holds a completion, a cancellation or
  a failure; its boots, source generations and observation generations are exactly those of the
  evidence.\<close>

theorem trace_outcome_evidence:
  "(tr_outcome (reconstruct_trace obs rid) = OC_UNKNOWN \<longleftrightarrow>
      o_type ` set obs \<inter> {OT_COMPLETION, OT_CANCEL, OT_FAILURE} = {}) \<and>
   set (tr_boots (reconstruct_trace obs rid)) = o_boot ` set obs \<and>
   distinct (tr_boots (reconstruct_trace obs rid)) \<and>
   set (tr_src_gens (reconstruct_trace obs rid)) = o_src_gen ` set obs \<and>
   set (tr_obs_gens (reconstruct_trace obs rid)) = o_obs_gen ` set obs"
  by (simp add: reconstruct_fields outcome_unknown reconstruct_summary)

text \<open>For evidence whose epochs are all positive, the trace's epoch range is the exact range
  of the evidence's epochs, and it is said to span several epochs exactly when two observations
  differ in theirs.\<close>

theorem trace_epoch_range:
  assumes "obs \<noteq> []" and "0 \<notin> o_epoch ` set obs"
  shows "tr_min_epoch (reconstruct_trace obs rid) = Min (o_epoch ` set obs) \<and>
    tr_max_epoch (reconstruct_trace obs rid) = Max (o_epoch ` set obs) \<and>
    (tr_spans_multiple_epochs (reconstruct_trace obs rid) \<longleftrightarrow>
       (\<exists>e e'. {e, e'} \<subseteq> o_epoch ` set obs \<and> e \<noteq> e'))"
proof -
  let ?E = "o_epoch ` set obs"
  have E: "finite ?E" "?E \<noteq> {}" using assms(1) by auto
  have mx: "tr_max_epoch (reconstruct_trace obs rid) = Max ?E"
    using E by (simp add: reconstruct_summary max_def)
  have mn: "tr_min_epoch (reconstruct_trace obs rid) = Min ?E"
    using reconstruct_min_epoch [OF assms] .
  have "Min ?E \<noteq> Max ?E \<longleftrightarrow> (\<exists>e e'. {e, e'} \<subseteq> ?E \<and> e \<noteq> e')"
  proof
    assume "Min ?E \<noteq> Max ?E"
    then show "\<exists>e e'. {e, e'} \<subseteq> ?E \<and> e \<noteq> e'"
      using Min_in [OF E] Max_in [OF E] by blast
  next
    assume "\<exists>e e'. {e, e'} \<subseteq> ?E \<and> e \<noteq> e'"
    then obtain e e' where e: "e \<in> ?E" "e' \<in> ?E" "e \<noteq> e'" by auto
    have "Min ?E \<le> e" "Min ?E \<le> e'" "e \<le> Max ?E" "e' \<le> Max ?E"
      using E(1) e(1,2) by (auto intro: Min_le Max_ge)
    then show "Min ?E \<noteq> Max ?E" using e(3) by (metis order_antisym order_trans)
  qed
  then show ?thesis using mx mn by (simp add: reconstruct_summary(6))
qed

theorem trace_epoch_range_witness:
  "tr_min_epoch (reconstruct_trace [sample_observation, sample_observation\<lparr>o_epoch := 7\<rparr>] (Id128 1 1)) =
     Min {5, 7} \<and>
   tr_spans_multiple_epochs (reconstruct_trace [sample_observation, sample_observation\<lparr>o_epoch := 7\<rparr>] (Id128 1 1))"
proof -
  have img: "o_epoch ` set [sample_observation, sample_observation\<lparr>o_epoch := 7\<rparr>] = {5, 7}"
    by (simp add: sample_observation_def)
  have "\<exists>e e'. {e, e'} \<subseteq> {5, 7 :: u64} \<and> e \<noteq> e'"
    by (intro exI [of _ 5] exI [of _ 7]) simp
  then show ?thesis
    using trace_epoch_range [of "[sample_observation, sample_observation\<lparr>o_epoch := 7\<rparr>]" "Id128 1 1"]
    unfolding img by simp
qed

text \<open>Epoch zero is taken for "not set yet": evidence of epochs 0 and 5, in that order of
  time, is summarised as epoch 5 alone and as not spanning several epochs.\<close>

theorem epoch_zero_hidden:
  "let early = sample_observation\<lparr>o_obs_ts := 1, o_epoch := 0\<rparr>; late = sample_observation\<lparr>o_obs_ts := 2, o_epoch := 5\<rparr>;
       tr = reconstruct_trace [early, late] rid
   in tr_min_epoch tr = 5 \<and> tr_max_epoch tr = 5 \<and> \<not> tr_spans_multiple_epochs tr"
proof -
  let ?e = "sample_observation\<lparr>o_obs_ts := 1, o_epoch := 0\<rparr>" and ?l = "sample_observation\<lparr>o_obs_ts := 2, o_epoch := 5\<rparr>"
  have "cpp_sort timeline_before [?e, ?l] = [?e, ?l]"
    by (simp add: timeline_before_def obs_time_def sample_observation_def default_observation_def)
  then show ?thesis
    by (simp add: reconstruct_trace_def Let_def snapshot_step_def new_trace_def)
qed

end
