(* ===== verification/Latency.thy ===== *)
theory Latency
  imports Trace
begin

section \<open>Latency decomposition\<close>

text \<open>
  \<^verbatim>\<open>include/servingobs/trace/latency.hpp\<close> and \<^verbatim>\<open>src/latency.cpp\<close>: the exclusive sweep over
  the phase intervals, and the critical path by dynamic programming. The specification of the
  sweep counts nanoseconds: a component's exclusive time is the number of instants at which its
  phase is the winner. The JSON and text views are in \<open>Views\<close> and
  \<open>TextViews\<close>.
\<close>

subsection \<open>Data\<close>

fun phase_priority :: "phase \<Rightarrow> int" where
  "phase_priority PH_ARRIVAL = 0"
| "phase_priority PH_ADMISSION = 1"
| "phase_priority PH_QUEUE = 2"
| "phase_priority PH_BATCH_WAIT = 3"
| "phase_priority PH_DISPATCH = 4"
| "phase_priority PH_TRANSFER = 5"
| "phase_priority PH_SPECULATION = 6"
| "phase_priority PH_PREFILL = 7"
| "phase_priority PH_FIRST_TOKEN = 8"
| "phase_priority PH_DECODE = 9"
| "phase_priority PH_RETRY = 10"
| "phase_priority PH_RECOVERY = 11"
| "phase_priority PH_COMPLETION = 12"
| "phase_priority PH_TOTAL = -1"

record latency_component =
  l_phase :: phase
  l_name :: string
  l_duration_ns :: u64
  l_exclusive_ns :: u64
  l_percent_of_total :: f64
  l_on_critical_path :: bool
  l_provenance :: provenance
  l_point_event :: bool

record latency_breakdown =
  b_total_ns :: u64
  b_covered_ns :: u64
  b_gap_ns :: u64
  b_components :: "latency_component list"

definition empty_breakdown :: latency_breakdown where
  "empty_breakdown = \<lparr>b_total_ns = 0, b_covered_ns = 0, b_gap_ns = 0, b_components = []\<rparr>"

text \<open>The local struct \<^verbatim>\<open>IV\<close>: one existing phase other than the total.\<close>

record iv =
  v_phase :: phase
  v_s :: u64
  v_e :: u64
  v_prov :: provenance

definition trace_intervals :: "phases \<Rightarrow> iv list" where
  "trace_intervals ps =
     map (\<lambda>p. \<lparr>v_phase = p_phase p, v_s = p_start p, v_e = p_end p, v_prov = p_provenance p\<rparr>)
       (filter (\<lambda>p. p_exists p \<and> p_phase p \<noteq> PH_TOTAL) ps)"

definition span_ns :: "u64 \<Rightarrow> u64 \<Rightarrow> u64" where
  "span_ns s e = (if s \<le> e then e - s else 0)"

subsection \<open>The sweep\<close>

text \<open>\<^verbatim>\<open>std::set\<close> of the interval ends, ascending.\<close>

definition sweep_coords :: "iv list \<Rightarrow> u64 list" where
  "sweep_coords ivs = fold (\<lambda>v cs. insort_insert (v_e v) (insort_insert (v_s v) cs)) ivs []"

definition covers :: "iv \<Rightarrow> u64 \<Rightarrow> bool" where
  "covers v t = (v_s v \<le> t \<and> t < v_e v)"

text \<open>One turn of the inner loop: the best priority and index so far (\<^verbatim>\<open>SIZE_MAX\<close> is \<open>None\<close>).\<close>

definition pick_step :: "iv list \<Rightarrow> u64 \<Rightarrow> nat \<Rightarrow> int \<times> nat option \<Rightarrow> int \<times> nat option" where
  "pick_step ivs t i best =
     (if covers (ivs ! i) t
      then (let pri = phase_priority (v_phase (ivs ! i))
            in if fst best < pri \<or>
                  (pri = fst best \<and>
                   (case snd best of None \<Rightarrow> False
                    | Some j \<Rightarrow> phase_num (v_phase (ivs ! i)) < phase_num (v_phase (ivs ! j))))
               then (pri, Some i) else best)
      else best)"

definition pick :: "iv list \<Rightarrow> u64 \<Rightarrow> nat option" where
  "pick ivs t = snd (fold (pick_step ivs t) [0..<length ivs] (-1, None))"

text \<open>The loop over adjacent coordinates; the state is the exclusive counters and the covered one.\<close>

fun sweep :: "iv list \<Rightarrow> u64 \<Rightarrow> u64 list \<Rightarrow> u64 list \<times> u64 \<Rightarrow> u64 list \<times> u64" where
  "sweep ivs prev [] st = st"
| "sweep ivs prev (cur # cs) st =
     (if cur = prev then sweep ivs prev cs st
      else let mid = prev + (cur - prev) div 2;
               st' = (case pick ivs mid of
                        None \<Rightarrow> st
                      | Some i \<Rightarrow> ((fst st)[i := fst st ! i + (cur - prev)], snd st + (cur - prev)))
           in sweep ivs cur cs st')"

definition exclusive_sweep :: "iv list \<Rightarrow> u64 list \<times> u64" where
  "exclusive_sweep ivs =
     (let st = (replicate (length ivs) 0, 0)
      in case sweep_coords ivs of
           [] \<Rightarrow> st
         | c # cs \<Rightarrow> if cs = [] then st else sweep ivs c cs st)"

subsection \<open>The critical path\<close>

definition path_before :: "iv list \<Rightarrow> nat \<Rightarrow> nat \<Rightarrow> bool" where
  "path_before ivs a b =
     (if v_s (ivs ! a) \<noteq> v_s (ivs ! b) then v_s (ivs ! a) < v_s (ivs ! b)
      else if v_e (ivs ! a) \<noteq> v_e (ivs ! b) then v_e (ivs ! a) < v_e (ivs ! b)
      else a < b)"

interpretation path_order: sort_order "path_before ivs"
  by unfold_locales (auto simp: path_before_def split: if_splits)

text \<open>The search for the best predecessor among the intervals already in the order.\<close>

definition best_pred_step :: "iv list \<Rightarrow> u64 list \<Rightarrow> nat \<Rightarrow> nat \<Rightarrow> u64 \<times> int \<Rightarrow> u64 \<times> int" where
  "best_pred_step ivs chain i j best =
     (if v_e (ivs ! j) \<le> v_s (ivs ! i) \<and> fst best < chain ! j then (chain ! j, int j) else best)"

record path_state =
  ps_chain :: "u64 list"
  ps_pred :: "int list"
  ps_best :: u64
  ps_best_idx :: int

definition path_step :: "iv list \<Rightarrow> nat list \<Rightarrow> nat \<Rightarrow> path_state \<Rightarrow> path_state" where
  "path_step ivs earlier i st =
     (let dur = span_ns (v_s (ivs ! i)) (v_e (ivs ! i));
          bp = fold (best_pred_step ivs (ps_chain st) i) earlier (0, -1);
          tot = fst bp + dur;
          st1 = st\<lparr>ps_chain := (ps_chain st)[i := tot], ps_pred := (ps_pred st)[i := snd bp]\<rparr>
      in if ps_best st < tot then st1\<lparr>ps_best := tot, ps_best_idx := int i\<rparr> else st1)"

text \<open>The outer loop: \<open>earlier\<close> is the part of the order before position \<^verbatim>\<open>oi\<close>.\<close>

fun path_loop :: "iv list \<Rightarrow> nat list \<Rightarrow> nat list \<Rightarrow> path_state \<Rightarrow> path_state" where
  "path_loop ivs earlier [] st = st"
| "path_loop ivs earlier (i # rest) st = path_loop ivs (earlier @ [i]) rest (path_step ivs earlier i st)"

definition path_table :: "iv list \<Rightarrow> path_state" where
  "path_table ivs =
     path_loop ivs [] (cpp_sort (path_before ivs) [0..<length ivs])
       \<lparr>ps_chain = replicate (length ivs) 0, ps_pred = replicate (length ivs) (-1),
        ps_best = 0, ps_best_idx = -1\<rparr>"

text \<open>The walk back along the predecessors, marking; \<open>None\<close> would be a walk that never ends.\<close>

partial_function (option) mark_path :: "int list \<Rightarrow> int \<Rightarrow> bool list \<Rightarrow> bool list option" where
  "mark_path pred cur marks =
     (if cur < 0 then Some marks
      else mark_path pred (pred ! nat cur) (marks[nat cur := True]))"

definition critical_path :: "iv list \<Rightarrow> bool list option" where
  "critical_path ivs =
     (let st = path_table ivs; none = replicate (length ivs) False
      in if ps_best_idx st \<ge> 0 then mark_path (ps_pred st) (ps_best_idx st) none else Some none)"

subsection \<open>The decomposition\<close>

definition percent_of :: "u64 \<Rightarrow> u64 \<Rightarrow> f64" where
  "percent_of part tot =
     (if tot \<noteq> 0 then f64_mul (f64_div (f64_of_u64 part) (f64_of_u64 tot)) (f64_of_nat 100)
      else f64_zero False)"

definition component_of :: "u64 \<Rightarrow> iv \<Rightarrow> u64 \<Rightarrow> bool \<Rightarrow> latency_component" where
  "component_of tot v exclusive on_path =
     (let dur = span_ns (v_s v) (v_e v)
      in \<lparr>l_phase = v_phase v, l_name = phase_name (v_phase v), l_duration_ns = dur,
          l_exclusive_ns = exclusive, l_percent_of_total = percent_of exclusive tot,
          l_on_critical_path = on_path, l_provenance = v_prov v, l_point_event = (dur = 0)\<rparr>)"

text \<open>\<open>None\<close> only if the walk along the critical path did not end.\<close>

definition decompose_latency :: "request_trace \<Rightarrow> latency_breakdown option" where
  "decompose_latency t =
     (let tot = get_phase PH_TOTAL (tr_phases t)
      in if \<not> p_exists tot then Some empty_breakdown
         else let total_ns = span_ns (p_start tot) (p_end tot);
                  ivs = trace_intervals (tr_phases t);
                  (excl, covered) = exclusive_sweep ivs
              in case critical_path ivs of
                   None \<Rightarrow> None
                 | Some marks \<Rightarrow> Some
                     \<lparr>b_total_ns = total_ns, b_covered_ns = covered,
                      b_gap_ns = (if covered \<le> total_ns then total_ns - covered else 0),
                      b_components = map (\<lambda>i. component_of total_ns (ivs ! i) (excl ! i) (marks ! i))
                        [0..<length ivs]\<rparr>)"

subsection \<open>The winner of an instant\<close>

definition no_total :: "iv list \<Rightarrow> bool" where
  "no_total ivs = (PH_TOTAL \<notin> v_phase ` set ivs)"

lemma no_total_intervals: "no_total (trace_intervals ps)"
  by (auto simp: no_total_def trace_intervals_def)

lemma phase_priority_nonneg: "p \<noteq> PH_TOTAL \<Longrightarrow> 0 \<le> phase_priority p"
  by (cases p) simp_all

definition best_so_far :: "iv list \<Rightarrow> u64 \<Rightarrow> nat \<Rightarrow> int \<times> nat option \<Rightarrow> bool" where
  "best_so_far ivs t n best \<longleftrightarrow>
     (case snd best of
        None \<Rightarrow> fst best = -1 \<and> (\<forall>k < n. \<not> covers (ivs ! k) t)
      | Some j \<Rightarrow> j < n \<and> covers (ivs ! j) t \<and> fst best = phase_priority (v_phase (ivs ! j)) \<and>
          (\<forall>k < n. covers (ivs ! k) t \<longrightarrow> phase_priority (v_phase (ivs ! k)) \<le> fst best))"

lemma best_so_far_step:
  assumes "best_so_far ivs t n best" and "n < length ivs" and "no_total ivs"
  shows "best_so_far ivs t (Suc n) (pick_step ivs t n best)"
proof -
  have "0 \<le> phase_priority (v_phase (ivs ! n))"
    using assms(2,3) nth_mem unfolding no_total_def by (metis image_eqI phase_priority_nonneg)
  then show ?thesis
    using assms(1)
    by (cases "snd best")
       (fastforce simp: best_so_far_def pick_step_def Let_def less_Suc_eq split: if_splits)+
qed

lemma pick_best:
  assumes "no_total ivs"
  shows "best_so_far ivs t (length ivs) (fold (pick_step ivs t) [0..<length ivs] (-1, None))"
proof -
  have "n \<le> length ivs \<Longrightarrow> best_so_far ivs t n (fold (pick_step ivs t) [0..<n] (-1, None))" for n
    by (induction n) (auto simp: best_so_far_step assms, simp add: best_so_far_def)
  then show ?thesis by simp
qed

lemma pick_None: "no_total ivs \<Longrightarrow> pick ivs t = None \<longleftrightarrow> (\<forall>k < length ivs. \<not> covers (ivs ! k) t)"
  using pick_best [of ivs t] by (auto simp: pick_def best_so_far_def split: option.splits)

lemma pick_Some:
  assumes "no_total ivs" and "pick ivs t = Some i"
  shows "i < length ivs" "covers (ivs ! i) t"
    "\<And>k. k < length ivs \<Longrightarrow> covers (ivs ! k) t \<Longrightarrow>
       phase_priority (v_phase (ivs ! k)) \<le> phase_priority (v_phase (ivs ! i))"
  using pick_best [OF assms(1), of t] assms(2) by (auto simp: pick_def best_so_far_def)

lemma pick_cong:
  assumes "\<And>v. v \<in> set ivs \<Longrightarrow> covers v t = covers v t'"
  shows "pick ivs t = pick ivs t'"
proof -
  have "fold (pick_step ivs t) xs b = fold (pick_step ivs t') xs b" if "set xs \<subseteq> {..<length ivs}" for xs b
    using that by (induction xs arbitrary: b) (auto simp: pick_step_def assms)
  then show ?thesis by (simp add: pick_def atLeast_upt)
qed

subsection \<open>Counting instants\<close>

lemma card_word_range:
  assumes "a \<le> (b :: u64)"
  shows "card {t. a \<le> t \<and> t < b} = unat b - unat a"
proof -
  have "unat ` {t. a \<le> t \<and> t < b} = {unat a..<unat b}"
  proof
    show "unat ` {t. a \<le> t \<and> t < b} \<subseteq> {unat a..<unat b}"
      by (auto simp: word_le_nat_alt word_less_nat_alt)
    show "{unat a..<unat b} \<subseteq> unat ` {t. a \<le> t \<and> t < b}"
    proof
      fix n assume n: "n \<in> {unat a..<unat b}"
      then have "n < 2 ^ LENGTH(64)"
        using unsigned_less [of b, where ?'a = nat] by simp
      then have "unat (of_nat n :: u64) = n" by (simp add: unat_of_nat)
      then show "n \<in> unat ` {t. a \<le> t \<and> t < b}"
        using n by (intro image_eqI [of _ _ "of_nat n"]) (auto simp: word_le_nat_alt word_less_nat_alt)
    qed
  qed
  then have "card {t. a \<le> t \<and> t < b} = card {unat a..<unat b}"
    by (metis (mono_tags) card_image inj_onI word_unat_eq_iff)
  then show ?thesis by simp
qed

text \<open>The instants from \<open>lo\<close> up to \<open>hi\<close> with a property, and their number as a 64-bit word.\<close>

definition instants :: "u64 \<Rightarrow> u64 \<Rightarrow> (u64 \<Rightarrow> bool) \<Rightarrow> u64" where
  "instants lo hi P = of_nat (card {t. lo \<le> t \<and> t < hi \<and> P t})"

lemma instants_empty [simp]: "instants lo lo P = 0"
proof -
  have none: "{t. lo \<le> t \<and> t < lo \<and> P t} = {}" by auto
  show ?thesis by (simp add: instants_def none)
qed

lemma instants_extend:
  assumes "lo \<le> prev" and "prev \<le> cur" and "\<And>t. prev \<le> t \<Longrightarrow> t < cur \<Longrightarrow> P t = Q"
  shows "instants lo cur P = instants lo prev P + (if Q then cur - prev else 0)"
proof -
  let ?A = "{t. lo \<le> t \<and> t < prev \<and> P t}" and ?B = "{t. prev \<le> t \<and> t < cur \<and> P t}"
  have "{t. lo \<le> t \<and> t < cur \<and> P t} = ?A \<union> ?B"
    using assms(1,2) by auto
  moreover have "?A \<inter> ?B = {}" by auto
  ultimately have "card {t. lo \<le> t \<and> t < cur \<and> P t} = card ?A + card ?B"
    by (simp add: card_Un_disjoint)
  moreover have "of_nat (card ?B) = (if Q then cur - prev else 0 :: u64)"
  proof (cases Q)
    case True
    then have "?B = {t. prev \<le> t \<and> t < cur}" using assms(3) by auto
    then have "card ?B = unat (cur - prev)"
      using assms(2) by (simp add: card_word_range unat_sub)
    then show ?thesis using True by simp
  next
    case False
    then have none: "?B = {}" using assms(3) by auto
    show ?thesis by (simp add: none False)
  qed
  ultimately show ?thesis by (simp add: instants_def)
qed

lemma mid_between:
  assumes "prev < (cur :: u64)"
  shows "prev \<le> prev + (cur - prev) div 2" "prev + (cur - prev) div 2 < cur"
proof -
  let ?d = "unat cur - unat prev"
  have lt: "unat prev < unat cur" "unat cur < 2 ^ 64"
    using assms unsigned_less [of cur, where ?'a = nat] by (simp_all add: word_less_nat_alt)
  have d: "unat (cur - prev) = ?d" using assms by (simp add: unat_sub less_imp_le)
  have "unat ((cur - prev) div 2) = ?d div 2" using d by (simp add: unat_div_distrib)
  then have "unat (prev + (cur - prev) div 2) = unat prev + ?d div 2"
    using lt by (subst unat_add_lem [THEN iffD1]) auto
  then show "prev \<le> prev + (cur - prev) div 2" "prev + (cur - prev) div 2 < cur"
    using lt by (simp_all add: word_le_nat_alt word_less_nat_alt)
qed

subsection \<open>The sweep counts instants\<close>

definition sweep_counts :: "iv list \<Rightarrow> u64 \<Rightarrow> u64 \<Rightarrow> u64 list \<times> u64 \<Rightarrow> bool" where
  "sweep_counts ivs lo hi st \<longleftrightarrow>
     length (fst st) = length ivs \<and>
     (\<forall>i < length ivs. fst st ! i = instants lo hi (\<lambda>t. pick ivs t = Some i)) \<and>
     snd st = instants lo hi (\<lambda>t. pick ivs t \<noteq> None)"

text \<open>No interval starts or ends strictly between two adjacent coordinates, so its winner is one.\<close>

lemma pick_constant:
  assumes "\<And>v. v \<in> set ivs \<Longrightarrow> (v_s v \<le> prev \<or> cur \<le> v_s v) \<and> (v_e v \<le> prev \<or> cur \<le> v_e v)"
    and "prev \<le> t" and "t < (cur :: u64)" and "prev \<le> t'" and "t' < cur"
  shows "pick ivs t = pick ivs t'"
proof (rule pick_cong)
  fix v assume "v \<in> set ivs"
  from assms(1) [OF this] show "covers v t = covers v t'"
    unfolding covers_def using assms(2-5) by (meson leD leI order.strict_trans1 order_trans)
qed

lemma sweep_counts_step:
  assumes "sweep_counts ivs lo prev st" and "lo \<le> prev" and "prev < cur"
    and "\<And>v. v \<in> set ivs \<Longrightarrow> (v_s v \<le> prev \<or> cur \<le> v_s v) \<and> (v_e v \<le> prev \<or> cur \<le> v_e v)"
  shows "sweep_counts ivs lo cur
    (case pick ivs (prev + (cur - prev) div 2) of None \<Rightarrow> st
     | Some i \<Rightarrow> ((fst st)[i := fst st ! i + (cur - prev)], snd st + (cur - prev)))"
proof -
  let ?m = "prev + (cur - prev) div 2"
  have same: "pick ivs t = pick ivs ?m" if "prev \<le> t" "t < cur" for t
    using pick_constant [OF assms(4) that mid_between [OF assms(3)]] by blast
  have ext: "instants lo cur (\<lambda>t. R (pick ivs t)) =
      instants lo prev (\<lambda>t. R (pick ivs t)) + (if R (pick ivs ?m) then cur - prev else 0)" for R
    by (rule instants_extend) (use assms(2,3) same in auto)
  show ?thesis
    using assms(1) ext [of "\<lambda>x. x \<noteq> None"] ext [of "\<lambda>x. x = Some _"]
    by (cases "pick ivs ?m") (auto simp: sweep_counts_def nth_list_update)
qed

lemma sweep_counts_sweep:
  "sweep_counts ivs lo prev st \<Longrightarrow> lo \<le> prev \<Longrightarrow> sorted_wrt (<) (prev # cs) \<Longrightarrow>
   (\<And>v. v \<in> set ivs \<Longrightarrow> (v_s v \<le> prev \<or> v_s v \<in> set cs) \<and> (v_e v \<le> prev \<or> v_e v \<in> set cs)) \<Longrightarrow>
   sweep_counts ivs lo (last (prev # cs)) (sweep ivs prev cs st)"
proof (induction ivs prev cs st rule: sweep.induct)
  case (2 ivs prev cur cs st)
  have lt: "prev < cur" "\<And>c. c \<in> set cs \<Longrightarrow> cur < c" using "2.prems"(3) by auto
  have "sweep_counts ivs lo cur
    (case pick ivs (prev + (cur - prev) div 2) of None \<Rightarrow> st
     | Some i \<Rightarrow> ((fst st)[i := fst st ! i + (cur - prev)], snd st + (cur - prev)))"
    using "2.prems"(1,2) lt(1)
  proof (rule sweep_counts_step)
    fix v assume "v \<in> set ivs"
    from "2.prems"(4) [OF this]
    show "(v_s v \<le> prev \<or> cur \<le> v_s v) \<and> (v_e v \<le> prev \<or> cur \<le> v_e v)"
      using lt(2) by (auto intro: less_imp_le)
  qed
  moreover have "(v_s v \<le> cur \<or> v_s v \<in> set cs) \<and> (v_e v \<le> cur \<or> v_e v \<in> set cs)" if "v \<in> set ivs" for v
    using "2.prems"(4) [OF that] lt(1) by (auto intro: less_imp_le order_trans)
  moreover have "cur \<noteq> prev" "lo \<le> cur" "sorted_wrt (<) (cur # cs)"
    using "2.prems"(2,3) lt(1) by auto
  ultimately have "sweep_counts ivs lo (last (cur # cs)) (sweep ivs cur cs
    (case pick ivs (prev + (cur - prev) div 2) of None \<Rightarrow> st
     | Some i \<Rightarrow> ((fst st)[i := fst st ! i + (cur - prev)], snd st + (cur - prev))))"
    by (intro "2.IH"(2) [OF _ refl refl])
  then show ?case using \<open>cur \<noteq> prev\<close> by (simp add: Let_def)
qed simp

lemma set_sweep_coords: "set (sweep_coords ivs) = v_s ` set ivs \<union> v_e ` set ivs"
proof -
  have "set (fold (\<lambda>v cs. insort_insert (v_e v) (insort_insert (v_s v) cs)) ivs cs) =
      set cs \<union> v_s ` set ivs \<union> v_e ` set ivs" for cs
    by (induction ivs arbitrary: cs) (auto simp: set_insort_insert)
  then show ?thesis by (simp add: sweep_coords_def)
qed

lemma sorted_sweep_coords: "sorted_wrt (<) (sweep_coords ivs)"
proof -
  have "sorted cs \<and> distinct cs \<Longrightarrow>
      sorted (fold (\<lambda>v cs. insort_insert (v_e v) (insort_insert (v_s v) cs)) ivs cs) \<and>
      distinct (fold (\<lambda>v cs. insort_insert (v_e v) (insort_insert (v_s v) cs)) ivs cs)" for cs
    by (induction ivs arbitrary: cs) (auto simp: sorted_insort_insert distinct_insort_insert)
  from this [of "[]"] show ?thesis
    by (simp add: sweep_coords_def strict_sorted_iff)
qed

lemma instants_all:
  assumes "\<And>t. P t \<Longrightarrow> lo \<le> t \<and> t < hi"
  shows "unat (instants lo hi P) = card {t. P t}"
proof -
  have eq: "{t. lo \<le> t \<and> t < hi \<and> P t} = {t. P t}" using assms by auto
  have "card {t. P t} \<le> card {t. lo \<le> t \<and> t < hi}"
    using assms by (intro card_mono) auto
  also have "\<dots> \<le> unat hi"
  proof (cases "lo \<le> hi")
    case False
    then have "{t. lo \<le> t \<and> t < hi} = {}" by auto
    then show ?thesis by (metis card.empty zero_le)
  qed (simp add: card_word_range)
  also have "\<dots> < 2 ^ LENGTH(64)" by (rule unsigned_less)
  finally show ?thesis by (simp add: instants_def eq unat_of_nat)
qed

lemma last_is_greatest: "sorted_wrt (<) xs \<Longrightarrow> x \<in> set xs \<Longrightarrow> x \<le> (last xs :: 'a :: linorder)"
  by (induction xs) (auto intro: less_imp_le)

text \<open>The result of the sweep, as numbers of instants.\<close>

lemma exclusive_sweep_counts:
  assumes "no_total ivs"
  shows "length (fst (exclusive_sweep ivs)) = length ivs"
    "i < length ivs \<Longrightarrow> unat (fst (exclusive_sweep ivs) ! i) = card {t. pick ivs t = Some i}"
    "unat (snd (exclusive_sweep ivs)) = card {t. pick ivs t \<noteq> None}"
proof -
  have inside: "\<exists>v \<in> set ivs. v_s v \<le> t \<and> t < v_e v" if "pick ivs t = Some k" for t k
    using pick_Some(1,2) [OF assms that] by (auto simp: covers_def)
  have "length (fst (exclusive_sweep ivs)) = length ivs \<and>
    (\<forall>i < length ivs. unat (fst (exclusive_sweep ivs) ! i) = card {t. pick ivs t = Some i}) \<and>
    unat (snd (exclusive_sweep ivs)) = card {t. pick ivs t \<noteq> None}"
  proof (cases "\<exists>c d cs. sweep_coords ivs = c # d # cs")
    case True
    then obtain c d cs where c: "sweep_coords ivs = c # d # cs" by blast
    have srt: "sorted_wrt (<) (c # d # cs)" using sorted_sweep_coords [of ivs] c by simp
    have ends: "v_s v \<in> set (c # d # cs) \<and> v_e v \<in> set (c # d # cs)" if "v \<in> set ivs" for v
      using set_sweep_coords [of ivs] that unfolding c by auto
    have lo: "c \<le> x" and hi: "x \<le> last (c # d # cs)" if "x \<in> set (c # d # cs)" for x
      using srt that last_is_greatest [OF srt that] by (auto intro: less_imp_le)
    have "sweep_counts ivs c c (replicate (length ivs) 0, 0)"
      by (simp add: sweep_counts_def)
    then have "sweep_counts ivs c (last (c # d # cs)) (sweep ivs c (d # cs) (replicate (length ivs) 0, 0))"
    proof (rule sweep_counts_sweep)
      fix v assume "v \<in> set ivs"
      from ends [OF this]
      show "(v_s v \<le> c \<or> v_s v \<in> set (d # cs)) \<and> (v_e v \<le> c \<or> v_e v \<in> set (d # cs))"
        by auto
    qed (use srt in auto)
    then have cnt: "sweep_counts ivs c (last (c # d # cs)) (exclusive_sweep ivs)"
      by (simp add: exclusive_sweep_def c Let_def)
    have "c \<le> t \<and> t < last (c # d # cs)" if "pick ivs t \<noteq> None" for t
      using that inside ends lo hi by (meson not_Some_eq order_trans order_less_le_trans)
    then have "unat (instants c (last (c # d # cs)) (\<lambda>t. R (pick ivs t))) = card {t. R (pick ivs t)}"
      if "\<not> R None" for R
      using that by (intro instants_all) metis
    from this [of "\<lambda>x. x = Some _"] this [of "\<lambda>x. x \<noteq> None"] show ?thesis
      using cnt by (simp add: sweep_counts_def)
  next
    case False
    then have one: "x = y" if "x \<in> set (sweep_coords ivs)" "y \<in> set (sweep_coords ivs)" for x y
      using that by (cases "sweep_coords ivs"; cases "tl (sweep_coords ivs)") auto
    have "pick ivs t = None" for t
    proof (cases "pick ivs t")
      case (Some k)
      then obtain v where v: "v \<in> set ivs" "v_s v \<le> t" "t < v_e v" using inside by blast
      have "v_s v = v_e v" by (rule one) (use v(1) in \<open>simp_all add: set_sweep_coords\<close>)
      with v(2,3) show ?thesis by simp
    qed
    moreover have "exclusive_sweep ivs = (replicate (length ivs) 0, 0)"
      using False by (auto simp: exclusive_sweep_def Let_def neq_Nil_conv split: list.split)
    ultimately show ?thesis by simp
  qed
  then show "length (fst (exclusive_sweep ivs)) = length ivs"
    "i < length ivs \<Longrightarrow> unat (fst (exclusive_sweep ivs) ! i) = card {t. pick ivs t = Some i}"
    "unat (snd (exclusive_sweep ivs)) = card {t. pick ivs t \<noteq> None}"
    by blast+
qed

subsection \<open>The critical path is a longest chain\<close>

text \<open>
  The specification: a chain of intervals, listed from the latest back to the first, each ending
  no later than every later one starts; and its length in nanoseconds.
\<close>

definition duration :: "iv list \<Rightarrow> nat \<Rightarrow> nat" where
  "duration ivs i = unat (span_ns (v_s (ivs ! i)) (v_e (ivs ! i)))"

definition chain_of :: "iv list \<Rightarrow> nat list \<Rightarrow> bool" where
  "chain_of ivs js \<longleftrightarrow> set js \<subseteq> {..<length ivs} \<and>
     sorted_wrt (\<lambda>b a. path_before ivs a b \<and> v_e (ivs ! a) \<le> v_s (ivs ! b)) js"

definition chain_ns :: "iv list \<Rightarrow> nat list \<Rightarrow> nat" where
  "chain_ns ivs js = sum_list (map (duration ivs) js)"

text \<open>The last instant an interval reaches.\<close>

definition reach :: "iv list \<Rightarrow> nat \<Rightarrow> nat" where
  "reach ivs i = unat (max (v_s (ivs ! i)) (v_e (ivs ! i)))"

lemma path_before_start: "path_before ivs a b \<Longrightarrow> v_s (ivs ! a) \<le> v_s (ivs ! b)"
  by (auto simp: path_before_def split: if_splits)

lemma path_before_total: "a \<noteq> b \<Longrightarrow> path_before ivs a b \<or> path_before ivs b a"
  by (auto simp: path_before_def)

lemma duration_reach: "unat (v_s (ivs ! i)) + duration ivs i = reach ivs i"
  by (auto simp: duration_def reach_def span_ns_def max_def unat_sub word_le_nat_alt)

lemma reach_before:
  assumes "path_before ivs a b" and "v_e (ivs ! a) \<le> v_s (ivs ! b)"
  shows "reach ivs a + duration ivs b \<le> reach ivs b"
proof -
  have "reach ivs a \<le> unat (v_s (ivs ! b))"
    using path_before_start [OF assms(1)] assms(2) by (simp add: reach_def word_le_nat_alt [symmetric])
  then show ?thesis using duration_reach [of ivs b] by simp
qed

text \<open>The path through the predecessors, and the walk along it.\<close>

fun follows :: "int list \<Rightarrow> nat list \<Rightarrow> bool" where
  "follows pred [] = True"
| "follows pred [i] = (pred ! i = -1)"
| "follows pred (i # j # js) = (pred ! i = int j \<and> follows pred (j # js))"

lemma follows_update [simp]: "k \<notin> set js \<Longrightarrow> follows (pred[k := x]) js = follows pred js"
  by (induction pred js rule: follows.induct) auto

lemma mark_path_follows:
  "follows pred (i # js) \<Longrightarrow>
   mark_path pred (int i) marks = Some (fold (\<lambda>k m. m[k := True]) (i # js) marks)"
proof (induction js arbitrary: i marks)
  case Nil
  then show ?case by (subst mark_path.simps, simp, subst mark_path.simps, simp)
next
  case (Cons j js)
  then show ?case by (subst mark_path.simps) simp
qed

lemma fold_marks:
  "length (fold (\<lambda>k m. m[k := True]) js marks) = length marks"
  "i < length marks \<Longrightarrow> fold (\<lambda>k m. m[k := True]) js marks ! i = (marks ! i \<or> i \<in> set js)"
proof (induction js arbitrary: marks)
  case (Cons a js)
  { case 1 then show ?case using Cons.IH(1) by simp }
  { case 2 then show ?case using Cons.IH(2) [of "marks[a := True]"] by (cases "a = i") auto }
qed simp_all

text \<open>The best predecessor.\<close>

lemma best_pred_spec:
  assumes "fold (best_pred_step ivs chain i) D (0, -1) = (b, p)"
  shows "(p = -1 \<and> b = 0) \<or> (\<exists>j \<in> set D. p = int j \<and> b = chain ! j \<and> v_e (ivs ! j) \<le> v_s (ivs ! i))"
    "\<And>j. j \<in> set D \<Longrightarrow> v_e (ivs ! j) \<le> v_s (ivs ! i) \<Longrightarrow> chain ! j \<le> b"
proof -
  have "fold (best_pred_step ivs chain i) D (b0, p0) = (b, p) \<Longrightarrow>
      ((p = p0 \<and> b = b0) \<or> (\<exists>j \<in> set D. p = int j \<and> b = chain ! j \<and> v_e (ivs ! j) \<le> v_s (ivs ! i))) \<and>
      b0 \<le> b \<and> (\<forall>j \<in> set D. v_e (ivs ! j) \<le> v_s (ivs ! i) \<longrightarrow> chain ! j \<le> b)" for b0 p0
  proof (induction D arbitrary: b0 p0)
    case (Cons d D)
    show ?case
    proof (cases "v_e (ivs ! d) \<le> v_s (ivs ! i) \<and> b0 < chain ! d")
      case True
      then show ?thesis
        using Cons.IH [of "chain ! d" "int d"] Cons.prems by (auto simp: best_pred_step_def)
    next
      case False
      then show ?thesis
        using Cons.IH [of b0 p0] Cons.prems by (auto simp: best_pred_step_def)
    qed
  qed simp
  from this [OF assms] show
    "(p = -1 \<and> b = 0) \<or> (\<exists>j \<in> set D. p = int j \<and> b = chain ! j \<and> v_e (ivs ! j) \<le> v_s (ivs ! i))"
    "\<And>j. j \<in> set D \<Longrightarrow> v_e (ivs ! j) \<le> v_s (ivs ! i) \<Longrightarrow> chain ! j \<le> b"
    by blast+
qed

text \<open>What the table holds for the intervals \<open>D\<close> already visited.\<close>

definition entry_ok :: "iv list \<Rightarrow> u64 list \<Rightarrow> int list \<Rightarrow> nat set \<Rightarrow> nat \<Rightarrow> bool" where
  "entry_ok ivs chain pred D i \<longleftrightarrow>
     (\<exists>js. set js \<subseteq> D \<and> chain_of ivs (i # js) \<and> follows pred (i # js) \<and>
        chain_ns ivs (i # js) = unat (chain ! i)) \<and>
     unat (chain ! i) \<le> reach ivs i \<and>
     (\<forall>ks. chain_of ivs (i # ks) \<longrightarrow> chain_ns ivs (i # ks) \<le> unat (chain ! i))"

definition path_inv :: "iv list \<Rightarrow> nat list \<Rightarrow> path_state \<Rightarrow> bool" where
  "path_inv ivs D st \<longleftrightarrow>
     length (ps_chain st) = length ivs \<and> length (ps_pred st) = length ivs \<and>
     (\<forall>i \<in> set D. entry_ok ivs (ps_chain st) (ps_pred st) (set D) i \<and> ps_chain st ! i \<le> ps_best st) \<and>
     ((ps_best_idx st = -1 \<and> ps_best st = 0) \<or>
      (\<exists>i \<in> set D. ps_best_idx st = int i \<and> ps_best st = ps_chain st ! i))"

lemma chain_of_Cons:
  "chain_of ivs (i # js) \<longleftrightarrow> i < length ivs \<and> chain_of ivs js \<and>
     (\<forall>a \<in> set js. path_before ivs a i \<and> v_e (ivs ! a) \<le> v_s (ivs ! i))"
  by (auto simp: chain_of_def)

lemma chain_of_extend:
  assumes "chain_of ivs (j # js)" and "path_before ivs j i" and "v_e (ivs ! j) \<le> v_s (ivs ! i)"
    and "i < length ivs"
  shows "chain_of ivs (i # j # js)"
proof -
  have "path_before ivs a i \<and> v_e (ivs ! a) \<le> v_s (ivs ! i)" if "a \<in> set js" for a
  proof -
    have "path_before ivs a j" "v_e (ivs ! a) \<le> v_s (ivs ! j)"
      using assms(1) that by (auto simp: chain_of_Cons)
    then show ?thesis
      using assms(2) path_before_start [OF assms(2)] path_order.trans order_trans by blast
  qed
  then show ?thesis using assms by (simp add: chain_of_Cons)
qed

lemma entry_ok_new:
  assumes inv: "path_inv ivs D st" and i: "i < length ivs" "i \<notin> set D" "set D \<subseteq> {..<length ivs}"
    and closed: "\<And>k. k < length ivs \<Longrightarrow> path_before ivs k i \<longleftrightarrow> k \<in> set D"
    and fold: "fold (best_pred_step ivs (ps_chain st) i) D (0, -1) = (b, p)"
  defines "tot \<equiv> b + span_ns (v_s (ivs ! i)) (v_e (ivs ! i))"
  shows "entry_ok ivs ((ps_chain st)[i := tot]) ((ps_pred st)[i := p]) (set D) i"
proof -
  let ?chain = "ps_chain st" and ?pred = "ps_pred st"
  have len: "length ?chain = length ivs" "length ?pred = length ivs"
    and old: "\<And>j. j \<in> set D \<Longrightarrow> entry_ok ivs ?chain ?pred (set D) j"
    using inv by (simp_all add: path_inv_def)
  note sp = best_pred_spec [OF fold]
  have bnd: "unat b + duration ivs i \<le> reach ivs i"
    using sp(1)
  proof (elim disjE bexE conjE)
    assume "b = 0" then show ?thesis using duration_reach [of ivs i] by simp
  next
    fix j assume j: "j \<in> set D" "b = ?chain ! j" "v_e (ivs ! j) \<le> v_s (ivs ! i)"
    then have "unat b \<le> reach ivs j" using old by (simp add: entry_ok_def)
    moreover have "path_before ivs j i" using closed j(1) i(3) by auto
    ultimately show ?thesis using reach_before [OF _ j(3)] by fastforce
  qed
  have tot: "unat tot = unat b + duration ivs i"
  proof -
    have "reach ivs i < 2 ^ LENGTH(64)" unfolding reach_def by (rule unsigned_less)
    then show ?thesis
      using bnd unfolding tot_def duration_def by (subst unat_add_lem [THEN iffD1]) auto
  qed
  have "\<exists>js. set js \<subseteq> set D \<and> chain_of ivs (i # js) \<and> follows (?pred[i := p]) (i # js) \<and>
      chain_ns ivs (i # js) = unat tot"
    using sp(1)
  proof (elim disjE bexE conjE)
    assume "p = -1" "b = 0"
    then show ?thesis
      using i len tot by (intro exI [of _ "[]"]) (simp add: chain_of_def chain_ns_def)
  next
    fix j assume j: "j \<in> set D" "p = int j" "b = ?chain ! j" "v_e (ivs ! j) \<le> v_s (ivs ! i)"
    then obtain js where js: "set js \<subseteq> set D" "chain_of ivs (j # js)" "follows ?pred (j # js)"
        "chain_ns ivs (j # js) = unat b"
      using old [OF j(1)] by (auto simp: entry_ok_def)
    moreover have "path_before ivs j i" using closed j(1) i(3) by auto
    ultimately have "chain_of ivs (i # j # js)" using chain_of_extend j(4) i(1) by blast
    moreover have "i \<notin> set (j # js)" using js(1) j(1) i(2) by auto
    ultimately show ?thesis
      using js j(1,2) i(1) len tot
      by (intro exI [of _ "j # js"]) (simp add: chain_ns_def)
  qed
  moreover have "chain_ns ivs (i # ks) \<le> unat tot" if "chain_of ivs (i # ks)" for ks
  proof (cases ks)
    case Nil
    then show ?thesis using tot by (simp add: chain_ns_def)
  next
    case (Cons k ks')
    then have k: "k \<in> set D" "v_e (ivs ! k) \<le> v_s (ivs ! i)" "chain_of ivs (k # ks')"
      using that closed by (auto simp: chain_of_Cons)
    have "chain_ns ivs (k # ks') \<le> unat (?chain ! k)"
      using old [OF k(1)] k(3) by (simp add: entry_ok_def)
    also have "\<dots> \<le> unat b" using sp(2) [OF k(1,2)] by (simp add: word_le_nat_alt)
    finally show ?thesis using Cons tot by (simp add: chain_ns_def)
  qed
  ultimately show ?thesis
    using bnd tot i(1) len by (simp add: entry_ok_def)
qed

lemma entry_ok_keep:
  assumes "entry_ok ivs chain pred D j" and "j \<in> D" and "i \<notin> D"
  shows "entry_ok ivs (chain[i := x]) (pred[i := p]) (insert i D) j"
proof -
  obtain js where js: "set js \<subseteq> D" "chain_of ivs (j # js)" "follows pred (j # js)"
      "chain_ns ivs (j # js) = unat (chain ! j)"
    using assms(1) by (auto simp: entry_ok_def)
  moreover have "i \<notin> set (j # js)" using js(1) assms(2,3) by auto
  ultimately show ?thesis
    using assms unfolding entry_ok_def by (auto intro!: exI [of _ js])
qed

lemma entry_ok_mono: "entry_ok ivs chain pred D j \<Longrightarrow> D \<subseteq> E \<Longrightarrow> entry_ok ivs chain pred E j"
  unfolding entry_ok_def by blast

lemma path_inv_step:
  assumes inv: "path_inv ivs D st" and i: "i < length ivs" "i \<notin> set D" "set D \<subseteq> {..<length ivs}"
    and closed: "\<And>k. k < length ivs \<Longrightarrow> path_before ivs k i \<longleftrightarrow> k \<in> set D"
  shows "path_inv ivs (D @ [i]) (path_step ivs D i st)"
proof -
  obtain b p where fold: "fold (best_pred_step ivs (ps_chain st) i) D (0, -1) = (b, p)"
    by fastforce
  let ?tot = "b + span_ns (v_s (ivs ! i)) (v_e (ivs ! i))" and ?st = "path_step ivs D i st"
  have st: "ps_chain ?st = (ps_chain st)[i := ?tot]" "ps_pred ?st = (ps_pred st)[i := p]"
    "ps_best ?st = max (ps_best st) ?tot"
    "ps_best_idx ?st = (if ps_best st < ?tot then int i else ps_best_idx st)"
    by (auto simp: path_step_def fold Let_def max_def)
  have len: "length (ps_chain st) = length ivs" "length (ps_pred st) = length ivs"
    using inv by (simp_all add: path_inv_def)
  have "entry_ok ivs (ps_chain ?st) (ps_pred ?st) (insert i (set D)) j" if "j \<in> insert i (set D)" for j
  proof (cases "j = i")
    case True
    then show ?thesis
      using entry_ok_mono [OF entry_ok_new [OF assms fold] subset_insertI] by (simp add: st)
  next
    case False
    then show ?thesis
      using that inv i(2) by (auto simp: st path_inv_def intro!: entry_ok_keep)
  qed
  moreover have "ps_chain ?st ! j \<le> ps_best ?st" if "j \<in> insert i (set D)" for j
    using that inv i len by (auto simp: st path_inv_def nth_list_update intro: le_max_iff_disj [THEN iffD2])
  moreover have "(ps_best_idx ?st = -1 \<and> ps_best ?st = 0) \<or>
      (\<exists>k \<in> insert i (set D). ps_best_idx ?st = int k \<and> ps_best ?st = ps_chain ?st ! k)"
  proof (cases "ps_best st < ?tot")
    case True
    then show ?thesis using i len by (auto simp: st max_def)
  next
    case False
    then have m: "ps_best ?st = ps_best st" "ps_best_idx ?st = ps_best_idx st"
      by (auto simp: st max_def)
    have "(ps_best_idx st = -1 \<and> ps_best st = 0) \<or>
        (\<exists>k \<in> set D. ps_best_idx st = int k \<and> ps_best st = ps_chain st ! k)"
      using inv by (simp add: path_inv_def)
    then show ?thesis
      unfolding m st(1) using i(2) by (metis insertCI nth_list_update_neq)
  qed
  ultimately show ?thesis
    using len by (simp add: path_inv_def st)
qed

lemma path_inv_loop:
  "path_inv ivs D st \<Longrightarrow> sorted_wrt (path_before ivs) (D @ rest) \<Longrightarrow>
   set (D @ rest) = {..<length ivs} \<Longrightarrow> path_inv ivs (D @ rest) (path_loop ivs D rest st)"
proof (induction ivs D rest st rule: path_loop.induct)
  case (2 ivs D i rest st)
  have ord: "\<And>k. k \<in> set D \<Longrightarrow> path_before ivs k i" "\<And>k. k \<in> set rest \<Longrightarrow> path_before ivs i k"
    using "2.prems"(2) by (auto simp: sorted_wrt_append)
  have "path_inv ivs (D @ [i]) (path_step ivs D i st)"
  proof (rule path_inv_step [OF "2.prems"(1)])
    show "i < length ivs" "set D \<subseteq> {..<length ivs}" using "2.prems"(3) by auto
    show "i \<notin> set D" using ord(1) path_order.irrefl by blast
    show "path_before ivs k i \<longleftrightarrow> k \<in> set D" if "k < length ivs" for k
    proof -
      have "k \<in> set D \<or> k = i \<or> k \<in> set rest" using that "2.prems"(3) by auto
      then show ?thesis using ord path_order.irrefl path_order.asym by metis
    qed
  qed
  then show ?case using "2.IH" "2.prems" by simp
qed simp

lemma sorted_wrt_strict:
  "sorted_wrt P xs \<Longrightarrow> distinct xs \<Longrightarrow> (\<And>a b. P a b \<Longrightarrow> a \<noteq> b \<Longrightarrow> Q a b) \<Longrightarrow> sorted_wrt Q xs"
  by (induction xs) auto

lemma path_order_sorted: "sorted_wrt (path_before ivs) (cpp_sort (path_before ivs) [0..<length ivs])"
proof -
  let ?os = "cpp_sort (path_before ivs) [0..<length ivs]"
  have "sorted_wrt (\<lambda>a b. \<not> path_before ivs b a) ?os"
    using path_order.sort_sorted by (simp add: sorted_by_def)
  moreover have "distinct ?os"
    by (metis distinct_upt mset_cpp_sort mset_eq_imp_distinct_iff)
  ultimately show ?thesis
    by (rule sorted_wrt_strict) (use path_before_total in blast)
qed

lemma path_table_inv:
  obtains D where "set D = {..<length ivs}" and "path_inv ivs D (path_table ivs)"
proof
  show "set (cpp_sort (path_before ivs) [0..<length ivs]) = {..<length ivs}"
    by (simp add: atLeast_upt)
  have "path_inv ivs [] \<lparr>ps_chain = replicate (length ivs) 0, ps_pred = replicate (length ivs) (-1),
        ps_best = 0, ps_best_idx = -1\<rparr>"
    by (simp add: path_inv_def)
  then show "path_inv ivs (cpp_sort (path_before ivs) [0..<length ivs]) (path_table ivs)"
    unfolding path_table_def using path_inv_loop [of ivs "[]"] path_order_sorted
    by (simp add: atLeast_upt)
qed

lemma critical_path_longest:
  obtains marks js where "critical_path ivs = Some marks" and "length marks = length ivs"
    and "chain_of ivs js" and "\<And>i. i < length ivs \<Longrightarrow> marks ! i \<longleftrightarrow> i \<in> set js"
    and "\<And>ks. chain_of ivs ks \<Longrightarrow> chain_ns ivs ks \<le> chain_ns ivs js"
proof -
  obtain D where D: "set D = {..<length ivs}" and inv: "path_inv ivs D (path_table ivs)"
    by (rule path_table_inv)
  let ?st = "path_table ivs"
  have entry: "entry_ok ivs (ps_chain ?st) (ps_pred ?st) (set D) i" "ps_chain ?st ! i \<le> ps_best ?st"
    if "i < length ivs" for i
    using inv D that by (auto simp: path_inv_def)
  have most: "chain_ns ivs ks \<le> unat (ps_best ?st)" if "chain_of ivs ks" for ks
  proof (cases ks)
    case (Cons k ks')
    then have k: "k < length ivs" using that by (simp add: chain_of_Cons)
    then have "chain_ns ivs ks \<le> unat (ps_chain ?st ! k)"
      using entry(1) [OF k] that Cons by (simp add: entry_ok_def)
    also have "\<dots> \<le> unat (ps_best ?st)" using entry(2) [OF k] by (simp add: word_le_nat_alt)
    finally show ?thesis .
  qed (simp add: chain_ns_def)
  from inv have "(ps_best_idx ?st = -1 \<and> ps_best ?st = 0) \<or>
      (\<exists>i \<in> set D. ps_best_idx ?st = int i \<and> ps_best ?st = ps_chain ?st ! i)"
    by (simp add: path_inv_def)
  then show ?thesis
  proof (elim disjE bexE conjE)
    assume "ps_best_idx ?st = -1" "ps_best ?st = 0"
    then show ?thesis
      using most by (intro that [of "replicate (length ivs) False" "[]"])
        (simp_all add: critical_path_def Let_def chain_of_def chain_ns_def)
  next
    fix i assume i: "i \<in> set D" "ps_best_idx ?st = int i" "ps_best ?st = ps_chain ?st ! i"
    then obtain js where js: "chain_of ivs (i # js)" "follows (ps_pred ?st) (i # js)"
        "chain_ns ivs (i # js) = unat (ps_best ?st)"
      using entry(1) [of i] D by (auto simp: entry_ok_def)
    show ?thesis
    proof (rule that)
      show "critical_path ivs = Some (fold (\<lambda>k m. m[k := True]) (i # js) (replicate (length ivs) False))"
        using mark_path_follows [OF js(2)] by (simp add: critical_path_def Let_def i(2))
      show "chain_of ivs (i # js)" by (fact js(1))
    qed (simp_all only: fold_marks length_replicate nth_replicate most js(3) simp_thms)
  qed
qed

subsection \<open>Phases and their intervals\<close>

text \<open>The phases of a trace stand in their own slots.\<close>

definition slots_ok :: "phases \<Rightarrow> bool" where
  "slots_ok ps \<longleftrightarrow> length ps = 14 \<and> (\<forall>p. has_phase p ps \<longrightarrow> p_phase (get_phase p ps) = p)"

lemma slots_ok_trace: "slots_ok (tr_phases (reconstruct_trace obs rid))"
  using phases_ok_extract [of "cpp_sort timeline_before obs"]
  by (simp add: slots_ok_def phases_ok_def reconstruct_fields has_phase_def get_phase_def)

definition phase_covers :: "phases \<Rightarrow> phase \<Rightarrow> u64 \<Rightarrow> bool" where
  "phase_covers ps p t \<longleftrightarrow> p \<noteq> PH_TOTAL \<and> has_phase p ps \<and>
     p_start (get_phase p ps) \<le> t \<and> t < p_end (get_phase p ps)"

definition phase_wins :: "phases \<Rightarrow> phase \<Rightarrow> u64 \<Rightarrow> bool" where
  "phase_wins ps p t \<longleftrightarrow> phase_covers ps p t \<and>
     (\<forall>q. phase_covers ps q t \<longrightarrow> phase_priority q \<le> phase_priority p)"

lemma phase_num_surj:
  assumes "k < 14"
  shows "\<exists>p. phase_num p = k"
proof -
  let ?all = "[PH_ARRIVAL, PH_ADMISSION, PH_QUEUE, PH_BATCH_WAIT, PH_DISPATCH, PH_TRANSFER, PH_PREFILL,
    PH_FIRST_TOKEN, PH_DECODE, PH_SPECULATION, PH_RETRY, PH_RECOVERY, PH_COMPLETION, PH_TOTAL]"
  have "map phase_num ?all = [0..<14]" by (simp add: upt_rec)
  then have "phase_num (?all ! k) = [0..<14] ! k"
    using assms by (metis length_map length_upt minus_nat.diff_0 nth_map)
  then show ?thesis using assms by auto
qed

lemma phase_priority_inject [simp]: "phase_priority p = phase_priority q \<longleftrightarrow> p = q"
  by (cases p; cases q) simp_all

lemma slot_phase: "slots_ok ps \<Longrightarrow> k < 14 \<Longrightarrow> p_exists (ps ! k) \<Longrightarrow> phase_num (p_phase (ps ! k)) = k"
  using phase_num_surj [of k] by (auto simp: slots_ok_def has_phase_def get_phase_def)

lemma set_trace_intervals:
  assumes "slots_ok ps"
  shows "v \<in> set (trace_intervals ps) \<longleftrightarrow>
    (\<exists>p. p \<noteq> PH_TOTAL \<and> has_phase p ps \<and> v = \<lparr>v_phase = p, v_s = p_start (get_phase p ps),
       v_e = p_end (get_phase p ps), v_prov = p_provenance (get_phase p ps)\<rparr>)"
    (is "_ \<longleftrightarrow> (\<exists>p. ?R p)")
proof
  assume "v \<in> set (trace_intervals ps)"
  then obtain k where k: "k < 14" "p_exists (ps ! k)" "p_phase (ps ! k) \<noteq> PH_TOTAL"
      "v = \<lparr>v_phase = p_phase (ps ! k), v_s = p_start (ps ! k), v_e = p_end (ps ! k),
            v_prov = p_provenance (ps ! k)\<rparr>"
    using assms by (auto simp: trace_intervals_def slots_ok_def in_set_conv_nth)
  then have "?R (p_phase (ps ! k))"
    using slot_phase [OF assms k(1,2)] by (simp add: has_phase_def get_phase_def)
  then show "\<exists>p. ?R p" ..
next
  assume "\<exists>p. ?R p"
  then obtain p where p: "?R p" ..
  moreover have "get_phase p ps \<in> set ps" "p_exists (get_phase p ps)" "p_phase (get_phase p ps) = p"
    using assms p phase_num_less [of p] by (simp_all add: slots_ok_def get_phase_def has_phase_def)
  ultimately show "v \<in> set (trace_intervals ps)"
    by (auto simp: trace_intervals_def intro!: image_eqI [of _ _ "get_phase p ps"])
qed

lemma distinct_phases:
  assumes "slots_ok ps"
  shows "distinct (map v_phase (trace_intervals ps))"
proof -
  let ?Q = "\<lambda>k. p_exists (ps ! k) \<and> p_phase (ps ! k) \<noteq> PH_TOTAL"
  have "ps = map ((!) ps) [0..<14]"
    using assms map_nth [of ps] by (simp add: slots_ok_def)
  then have "filter (\<lambda>p. p_exists p \<and> p_phase p \<noteq> PH_TOTAL) ps = map ((!) ps) (filter ?Q [0..<14])"
    by (metis (no_types, lifting) comp_apply filter_cong filter_map)
  then have "map v_phase (trace_intervals ps) = map (\<lambda>k. p_phase (ps ! k)) (filter ?Q [0..<14])"
    by (simp add: trace_intervals_def o_def)
  moreover have "inj_on (\<lambda>k. p_phase (ps ! k)) (set (filter ?Q [0..<14]))"
    by (rule inj_on_inverseI [of _ phase_num]) (use slot_phase [OF assms] in auto)
  ultimately show ?thesis by (simp add: distinct_map)
qed

lemma covers_phase:
  assumes "slots_ok ps"
  shows "phase_covers ps p t \<longleftrightarrow> (\<exists>v \<in> set (trace_intervals ps). v_phase v = p \<and> covers v t)"
  unfolding Bex_def set_trace_intervals [OF assms] phase_covers_def covers_def by auto

lemma pick_covered:
  assumes "slots_ok ps"
  shows "pick (trace_intervals ps) t \<noteq> None \<longleftrightarrow> (\<exists>p. phase_covers ps p t)"
  unfolding covers_phase [OF assms] using pick_None [OF no_total_intervals, of ps t]
  by (metis in_set_conv_nth)

lemma pick_wins:
  assumes "slots_ok ps" and i: "i < length (trace_intervals ps)"
  shows "pick (trace_intervals ps) t = Some i \<longleftrightarrow> phase_wins ps (v_phase (trace_intervals ps ! i)) t"
proof -
  let ?ivs = "trace_intervals ps"
  have winner: "phase_wins ps (v_phase (?ivs ! j)) t" if "pick ?ivs t = Some j" for j
  proof -
    note pk = pick_Some [OF no_total_intervals that]
    have "phase_covers ps (v_phase (?ivs ! j)) t"
      using pk(1,2) covers_phase [OF assms(1)] nth_mem by blast
    moreover have "phase_priority q \<le> phase_priority (v_phase (?ivs ! j))" if "phase_covers ps q t" for q
      using that pk(3) unfolding covers_phase [OF assms(1)] by (metis in_set_conv_nth)
    ultimately show ?thesis by (simp add: phase_wins_def)
  qed
  show ?thesis
  proof
    assume w: "phase_wins ps (v_phase (?ivs ! i)) t"
    then obtain j where j: "pick ?ivs t = Some j"
      using pick_covered [OF assms(1), of t] by (auto simp: phase_wins_def)
    have "v_phase (?ivs ! j) = v_phase (?ivs ! i)"
      using w winner [OF j] by (metis order_antisym phase_priority_inject phase_wins_def)
    moreover have "j < length ?ivs" by (rule pick_Some(1) [OF no_total_intervals j])
    ultimately have "j = i"
      using distinct_phases [OF assms(1)] i by (metis distinct_conv_nth length_map nth_map)
    then show "pick ?ivs t = Some i" using j by simp
  qed (rule winner)
qed

subsection \<open>The decomposition as a whole\<close>

lemma decompose_latency_total:
  assumes "has_phase PH_TOTAL (tr_phases t)"
  obtains b marks where "decompose_latency t = Some b"
    and "critical_path (trace_intervals (tr_phases t)) = Some marks"
    and "b_total_ns b = span_ns (p_start (get_phase PH_TOTAL (tr_phases t)))
           (p_end (get_phase PH_TOTAL (tr_phases t)))"
    and "b_covered_ns b = snd (exclusive_sweep (trace_intervals (tr_phases t)))"
    and "b_gap_ns b = (if b_covered_ns b \<le> b_total_ns b then b_total_ns b - b_covered_ns b else 0)"
    and "b_components b = map (\<lambda>i. component_of (b_total_ns b) (trace_intervals (tr_phases t) ! i)
           (fst (exclusive_sweep (trace_intervals (tr_phases t))) ! i) (marks ! i))
           [0..<length (trace_intervals (tr_phases t))]"
proof -
  obtain marks where m: "critical_path (trace_intervals (tr_phases t)) = Some marks"
    by (rule critical_path_longest [of "trace_intervals (tr_phases t)"])
  obtain b where d: "decompose_latency t = Some b"
    using assms m by (cases "exclusive_sweep (trace_intervals (tr_phases t))")
      (auto simp: decompose_latency_def Let_def has_phase_def get_phase_def)
  show ?thesis
    by (rule that [OF d m])
       (use assms m d in \<open>auto simp: decompose_latency_def Let_def has_phase_def get_phase_def
          split: prod.splits\<close>)
qed

lemma component_of_fields [simp]:
  "l_phase (component_of tot v x m) = v_phase v"
  "l_exclusive_ns (component_of tot v x m) = x"
  "l_duration_ns (component_of tot v x m) = span_ns (v_s v) (v_e v)"
  "l_on_critical_path (component_of tot v x m) = m"
  "l_percent_of_total (component_of tot v x m) = percent_of x tot"
  "l_provenance (component_of tot v x m) = v_prov v"
  by (simp_all add: component_of_def Let_def)

lemma sum_picks:
  assumes "no_total ivs"
  shows "(\<Sum>i < length ivs. card {t. pick ivs t = Some i}) = card {t. pick ivs t \<noteq> None}"
proof -
  have "{t. pick ivs t \<noteq> None} = (\<Union>i < length ivs. {t. pick ivs t = Some i})"
    using pick_Some(1) [OF assms] by auto
  also have "card \<dots> = (\<Sum>i < length ivs. card {t. pick ivs t = Some i})"
    by (rule card_UN_disjoint) auto
  finally show ?thesis by simp
qed

lemma exclusive_le_duration:
  assumes "no_total ivs" and "i < length ivs"
  shows "fst (exclusive_sweep ivs) ! i \<le> span_ns (v_s (ivs ! i)) (v_e (ivs ! i))"
proof -
  let ?in = "{t. v_s (ivs ! i) \<le> t \<and> t < v_e (ivs ! i)}"
  have "card {t. pick ivs t = Some i} \<le> card ?in"
    using pick_Some(2) [OF assms(1)] by (intro card_mono) (auto simp: covers_def)
  also have "\<dots> \<le> unat (span_ns (v_s (ivs ! i)) (v_e (ivs ! i)))"
  proof (cases "v_s (ivs ! i) \<le> v_e (ivs ! i)")
    case True
    then show ?thesis by (simp add: card_word_range span_ns_def unat_sub)
  next
    case False
    then have none: "?in = {}" by auto
    show ?thesis by (simp only: none card.empty zero_le)
  qed
  finally show ?thesis
    by (simp add: word_le_nat_alt exclusive_sweep_counts(2) [OF assms])
qed

subsection \<open>Properties\<close>

text \<open>C15: The exclusive time of a component is exactly the number of nanoseconds at which its phase
  is, of the phases of the trace that cover that nanosecond, the one of highest priority; the
  covered time is the number of nanoseconds some phase covers; and the components are the phases
  of the trace other than the total, each once. The decomposition of a trace always exists.\<close>

theorem latency_exclusive_exact:
  assumes "has_phase PH_TOTAL (tr_phases (reconstruct_trace obs rid))"
  shows "\<exists>b. decompose_latency (reconstruct_trace obs rid) = Some b \<and>
    map (unat \<circ> l_exclusive_ns) (b_components b) =
      map (\<lambda>c. card {t. phase_wins (tr_phases (reconstruct_trace obs rid)) (l_phase c) t}) (b_components b) \<and>
    unat (b_covered_ns b) = card {t. \<exists>p. phase_covers (tr_phases (reconstruct_trace obs rid)) p t} \<and>
    distinct (map l_phase (b_components b)) \<and>
    set (map l_phase (b_components b)) =
      {p. p \<noteq> PH_TOTAL \<and> has_phase p (tr_phases (reconstruct_trace obs rid))}"
proof -
  let ?ps = "tr_phases (reconstruct_trace obs rid)"
  let ?ivs = "trace_intervals ?ps"
  note slots = slots_ok_trace [of obs rid]
  obtain b marks where b: "decompose_latency (reconstruct_trace obs rid) = Some b"
      "b_covered_ns b = snd (exclusive_sweep ?ivs)"
      "b_components b = map (\<lambda>i. component_of (b_total_ns b) (?ivs ! i)
           (fst (exclusive_sweep ?ivs) ! i) (marks ! i)) [0..<length ?ivs]"
    by (rule decompose_latency_total [OF assms])
  have ph: "map l_phase (b_components b) = map v_phase ?ivs"
    unfolding b(3) by (rule nth_equalityI) simp_all
  have "set (map v_phase ?ivs) = {p. p \<noteq> PH_TOTAL \<and> has_phase p ?ps}"
    unfolding set_map image_def Bex_def set_trace_intervals [OF slots] by auto
  moreover have "map (unat \<circ> l_exclusive_ns) (b_components b) =
      map (\<lambda>c. card {t. phase_wins ?ps (l_phase c) t}) (b_components b)"
    unfolding b(3)
    by (simp add: exclusive_sweep_counts(2) [OF no_total_intervals] pick_wins [OF slots])
  moreover have "unat (b_covered_ns b) = card {t. \<exists>p. phase_covers ?ps p t}"
    unfolding b(2) by (simp only: exclusive_sweep_counts(3) [OF no_total_intervals] pick_covered [OF slots])
  ultimately show ?thesis
    using distinct_phases [OF slots] by (intro exI [of _ b]) (simp only: b(1) ph simp_thms)
qed

theorem latency_exclusive_exact_witness:
  "\<exists>b. decompose_latency (reconstruct_trace [sample_observation] (Id128 1 1)) = Some b \<and>
    unat (b_covered_ns b) =
      card {t. \<exists>p. phase_covers (tr_phases (reconstruct_trace [sample_observation] (Id128 1 1))) p t}"
  using latency_exclusive_exact [of "[sample_observation]" "Id128 1 1"]
  by (auto simp: reconstruct_fields extract_phases_def has_phase_def add_arrival_def arrival_time_def
        sample_observation_def default_observation_def first_obs_def last_obs_def tdom_def obs_time_def
        add_point_def add_span_def add_queue_def add_batch_wait_def add_dispatch_def add_decode_def
        add_total_def completion_time_def add_phase_def no_phases_def Let_def)

text \<open>C35: The accounts balance: the exclusive times add up to the covered time; covered time and gap add
  up to the total where no more than the total is covered, and otherwise (phases can lie outside
  the total interval) the gap is zero; no phase is given more exclusive time than it lasts. No
  trace makes the decomposition run forever.\<close>

theorem latency_accounting:
  "\<exists>b. decompose_latency t = Some b \<and>
     sum_list (map (unat \<circ> l_exclusive_ns) (b_components b)) = unat (b_covered_ns b) \<and>
     (if b_covered_ns b \<le> b_total_ns b
      then unat (b_covered_ns b) + unat (b_gap_ns b) = unat (b_total_ns b)
      else b_gap_ns b = 0) \<and>
     list_all (\<lambda>c. l_exclusive_ns c \<le> l_duration_ns c) (b_components b)"
proof (cases "has_phase PH_TOTAL (tr_phases t)")
  case False
  then show ?thesis
    by (simp add: decompose_latency_def has_phase_def get_phase_def empty_breakdown_def)
next
  case True
  let ?ivs = "trace_intervals (tr_phases t)"
  obtain b marks where b: "decompose_latency t = Some b"
      "b_covered_ns b = snd (exclusive_sweep ?ivs)"
      "b_gap_ns b = (if b_covered_ns b \<le> b_total_ns b then b_total_ns b - b_covered_ns b else 0)"
      "b_components b = map (\<lambda>i. component_of (b_total_ns b) (?ivs ! i)
           (fst (exclusive_sweep ?ivs) ! i) (marks ! i)) [0..<length ?ivs]"
    by (rule decompose_latency_total [OF True])
  have "sum_list (map (unat \<circ> l_exclusive_ns) (b_components b)) = (\<Sum>i < length ?ivs. card {x. pick ?ivs x = Some i})"
    unfolding b(4)
    by (simp add: o_def interv_sum_list_conv_sum_set_nat atLeast0LessThan
        exclusive_sweep_counts(2) [OF no_total_intervals])
  also have "\<dots> = unat (b_covered_ns b)"
    unfolding b(2) by (simp only: sum_picks [OF no_total_intervals] exclusive_sweep_counts(3) [OF no_total_intervals])
  finally have "sum_list (map (unat \<circ> l_exclusive_ns) (b_components b)) = unat (b_covered_ns b)" .
  moreover have "if b_covered_ns b \<le> b_total_ns b
      then unat (b_covered_ns b) + unat (b_gap_ns b) = unat (b_total_ns b) else b_gap_ns b = 0"
    by (simp add: b(3) unat_sub word_le_nat_alt)
  moreover have "list_all (\<lambda>c. l_exclusive_ns c \<le> l_duration_ns c) (b_components b)"
    unfolding b(4) by (auto simp: list_all_iff exclusive_le_duration [OF no_total_intervals])
  ultimately show ?thesis using b(1) by blast
qed

text \<open>C34: The components marked as being on the critical path are those of one chain of intervals,
  each ending no later than every later one starts, and no chain of intervals of the trace lasts
  longer; the 64-bit sums of the search never wrap, and the walk back along the chain ends.\<close>

theorem latency_critical_path:
  assumes "has_phase PH_TOTAL (tr_phases t)"
  shows "\<exists>b js. decompose_latency t = Some b \<and> chain_of (trace_intervals (tr_phases t)) js \<and>
    map l_on_critical_path (b_components b) =
      map (\<lambda>i. i \<in> set js) [0..<length (trace_intervals (tr_phases t))] \<and>
    (\<forall>ks. chain_of (trace_intervals (tr_phases t)) ks \<longrightarrow>
       chain_ns (trace_intervals (tr_phases t)) ks \<le> chain_ns (trace_intervals (tr_phases t)) js)"
proof -
  let ?ivs = "trace_intervals (tr_phases t)"
  obtain b marks where b: "decompose_latency t = Some b" "critical_path ?ivs = Some marks"
      "b_components b = map (\<lambda>i. component_of (b_total_ns b) (?ivs ! i)
           (fst (exclusive_sweep ?ivs) ! i) (marks ! i)) [0..<length ?ivs]"
    by (rule decompose_latency_total [OF assms])
  obtain marks' js where js: "critical_path ?ivs = Some marks'" "length marks' = length ?ivs"
      "chain_of ?ivs js" "\<And>i. i < length ?ivs \<Longrightarrow> marks' ! i \<longleftrightarrow> i \<in> set js"
      "\<And>ks. chain_of ?ivs ks \<Longrightarrow> chain_ns ?ivs ks \<le> chain_ns ?ivs js"
    using critical_path_longest [of ?ivs] by metis
  have "map l_on_critical_path (b_components b) = map (\<lambda>i. i \<in> set js) [0..<length ?ivs]"
    using b(2) js(1,4) unfolding b(3) by simp
  then show ?thesis using b(1) js(3,5) by blast
qed

text \<open>A queue of 20 ns, a prefill of 40 ns that overlaps it by 10, and the total of 50.\<close>

definition sample_latency_trace :: request_trace where
  "sample_latency_trace = (new_trace (Id128 1 1))\<lparr>tr_phases :=
     add_phase PH_TOTAL 10 60 PV_RECONSTRUCTED [] ''total''
       (add_phase PH_PREFILL 20 60 PV_MEASURED [] ''prefill''
         (add_phase PH_QUEUE 10 30 PV_MEASURED [] ''queue'' no_phases))\<rparr>"

theorem latency_critical_path_witness:
  "\<exists>b js. decompose_latency sample_latency_trace = Some b \<and>
    chain_of (trace_intervals (tr_phases sample_latency_trace)) js \<and>
    chain_ns (trace_intervals (tr_phases sample_latency_trace)) [1] \<le>
      chain_ns (trace_intervals (tr_phases sample_latency_trace)) js"
proof -
  have tot: "has_phase PH_TOTAL (tr_phases sample_latency_trace)"
    by (simp add: sample_latency_trace_def has_phase_def add_phase_def no_phases_def)
  have "chain_of (trace_intervals (tr_phases sample_latency_trace)) [1]"
    by (simp add: chain_of_def sample_latency_trace_def trace_intervals_def add_phase_def no_phases_def
        default_phase_def eval_nat_numeral)
  then show ?thesis using latency_critical_path [OF tot] by blast
qed

end
