(* ===== verification/Attribution.thy ===== *)
theory Attribution
  imports Trace
begin

section \<open>Resource attribution\<close>

text \<open>
  \<^verbatim>\<open>include/servingobs/trace/attribution.hpp\<close> and \<^verbatim>\<open>src/attribution.cpp\<close>: what one request used,
  with a provenance and an availability per metric. The lemmas relate availability to evidence.
  The JSON and text views are in \<open>Views\<close> and \<open>TextViews\<close>.
\<close>

record resource_attribution =
  at_queue_time :: u64
  at_batch_wait :: u64
  at_dispatch_delay :: u64
  at_transfer_time :: u64
  at_prefill_time :: u64
  at_first_token_latency :: u64
  at_decode_time :: u64
  at_inter_token_ms :: f64
  at_retry_time :: u64
  at_recovery_time :: u64
  at_total_latency :: u64
  at_gpu_exec_time :: u64
  at_cpu_exec_time :: u64
  at_bytes_h2d :: u64
  at_bytes_d2h :: u64
  at_bytes_inter_node :: u64
  at_bytes_kv :: u64
  at_bytes_tensor :: u64
  at_bytes_workspace :: u64
  at_kernel_hits :: u64
  at_kernel_misses :: u64
  at_graph_hits :: u64
  at_graph_misses :: u64
  at_kv_lookups :: u64
  at_kv_hits :: u64
  at_kv_misses :: u64
  at_model_residency_refs :: u64
  at_adapter_residency_refs :: u64
  at_spec_proposed :: u64
  at_spec_accepted :: u64
  at_spec_rejected :: u64
  at_decode_steps :: u64
  at_output_tokens :: u64
  at_input_tokens :: u64
  at_provenance :: "(string, provenance) omap"
  at_available :: "(string, bool) omap"

definition empty_attribution :: resource_attribution where [defaults]:
  "empty_attribution =
     \<lparr>at_queue_time = 0, at_batch_wait = 0, at_dispatch_delay = 0, at_transfer_time = 0,
      at_prefill_time = 0, at_first_token_latency = 0, at_decode_time = 0,
      at_inter_token_ms = f64_zero False, at_retry_time = 0, at_recovery_time = 0,
      at_total_latency = 0, at_gpu_exec_time = 0, at_cpu_exec_time = 0,
      at_bytes_h2d = 0, at_bytes_d2h = 0, at_bytes_inter_node = 0, at_bytes_kv = 0,
      at_bytes_tensor = 0, at_bytes_workspace = 0, at_kernel_hits = 0, at_kernel_misses = 0,
      at_graph_hits = 0, at_graph_misses = 0, at_kv_lookups = 0, at_kv_hits = 0, at_kv_misses = 0,
      at_model_residency_refs = 0, at_adapter_residency_refs = 0, at_spec_proposed = 0,
      at_spec_accepted = 0, at_spec_rejected = 0, at_decode_steps = 0, at_output_tokens = 0,
      at_input_tokens = 0, at_provenance = [], at_available = []\<rparr>"

definition attr_has :: "string \<Rightarrow> resource_attribution \<Rightarrow> bool" where
  "attr_has metric a = (case map_of (at_available a) metric of None \<Rightarrow> False | Some b \<Rightarrow> b)"

definition attr_prov :: "string \<Rightarrow> resource_attribution \<Rightarrow> provenance" where
  "attr_prov metric a = (case map_of (at_provenance a) metric of None \<Rightarrow> PV_UNKNOWN | Some p \<Rightarrow> p)"

definition mark :: "string \<Rightarrow> provenance \<Rightarrow> bool \<Rightarrow> resource_attribution \<Rightarrow> resource_attribution" where
  "mark metric p available a =
     a\<lparr>at_provenance := omap_set metric p (at_provenance a),
       at_available := omap_set metric available (at_available a)\<rparr>"

text \<open>The local \<^verbatim>\<open>dur\<close> of the source, and the sum of one field over the evidence.\<close>

definition phase_dur :: "request_trace \<Rightarrow> phase \<Rightarrow> u64" where
  "phase_dur t p =
     (let i = get_phase p (tr_phases t)
      in if p_exists i \<and> p_start i \<le> p_end i then p_end i - p_start i else 0)"

definition sum_u64 :: "request_trace \<Rightarrow> string \<Rightarrow> u64" where
  "sum_u64 t key = fold (\<lambda>ob s. s + u64_field ob key 0) (tr_evidence t) 0"

definition record_phase :: "request_trace \<Rightarrow> string \<times> phase \<Rightarrow> resource_attribution \<Rightarrow> resource_attribution" where
  "record_phase t kp a =
     (let i = get_phase (snd kp) (tr_phases t) in mark (fst kp) (p_provenance i) (p_exists i) a)"

definition recorded_phases :: "(string \<times> phase) list" where
  "recorded_phases =
     [(''queue'', PH_QUEUE), (''batch_wait'', PH_BATCH_WAIT), (''dispatch'', PH_DISPATCH),
      (''transfer'', PH_TRANSFER), (''prefill'', PH_PREFILL), (''first_token'', PH_FIRST_TOKEN),
      (''decode'', PH_DECODE), (''retry'', PH_RETRY), (''recovery'', PH_RECOVERY), (''total'', PH_TOTAL)]"

definition attribute_times :: "request_trace \<Rightarrow> resource_attribution \<Rightarrow> resource_attribution" where
  "attribute_times t a =
     fold (record_phase t) recorded_phases
       (a\<lparr>at_queue_time := phase_dur t PH_QUEUE, at_batch_wait := phase_dur t PH_BATCH_WAIT,
          at_dispatch_delay := phase_dur t PH_DISPATCH, at_transfer_time := phase_dur t PH_TRANSFER,
          at_prefill_time := phase_dur t PH_PREFILL, at_first_token_latency := phase_dur t PH_FIRST_TOKEN,
          at_decode_time := phase_dur t PH_DECODE, at_retry_time := phase_dur t PH_RETRY,
          at_recovery_time := phase_dur t PH_RECOVERY, at_total_latency := phase_dur t PH_TOTAL\<rparr>)"

text \<open>
  \<^verbatim>\<open>static_cast<TimestampNs>\<close> of a double truncates; C++ leaves a value that does not fit (or
  is not finite) undefined, and the model then takes the truncated value modulo $2^{64}$.
\<close>

definition u64_of_f64 :: "f64 \<Rightarrow> u64" where
  "u64_of_f64 v = word_of_int (f64_trunc v)"

definition has_field :: "observation \<Rightarrow> string \<Rightarrow> bool" where
  "has_field ob k = (map_of (o_fields ob) k \<noteq> None)"

definition million :: f64 where
  "million = f64_of_nat 1000000"

text \<open>The loop over \<^verbatim>\<open>GpuMs\<close> and \<^verbatim>\<open>CpuMs\<close>: the GPU sum, whether any was seen, the CPU time.\<close>

definition exec_step :: "observation \<Rightarrow> f64 \<times> bool \<times> u64 \<Rightarrow> f64 \<times> bool \<times> u64" where
  "exec_step ob st =
     (case st of (gpu_ms, has_gpu, cpu) \<Rightarrow>
        (if has_field ob ''gpu_ms'' then f64_add gpu_ms (f64_field ob ''gpu_ms'' (f64_zero False)) else gpu_ms,
         has_gpu \<or> has_field ob ''gpu_ms'',
         if has_field ob ''cpu_ms''
         then cpu + u64_of_f64 (f64_mul (f64_field ob ''cpu_ms'' (f64_zero False)) million) else cpu))"

definition attribute_exec :: "request_trace \<Rightarrow> resource_attribution \<Rightarrow> resource_attribution" where
  "attribute_exec t a =
     (case fold exec_step (tr_evidence t) (f64_zero False, False, at_cpu_exec_time a) of
        (gpu_ms, has_gpu, cpu) \<Rightarrow>
          let a1 = a\<lparr>at_cpu_exec_time := cpu\<rparr>;
              a2 = (if has_gpu
                    then mark ''gpu_exec'' PV_MEASURED True
                           (a1\<lparr>at_gpu_exec_time := u64_of_f64 (f64_mul gpu_ms million)\<rparr>)
                    else mark ''gpu_exec'' PV_UNKNOWN False a1)
          in mark ''cpu_exec'' PV_REPORTED (0 < at_cpu_exec_time a2) a2)"

definition attribute_bytes :: "request_trace \<Rightarrow> resource_attribution \<Rightarrow> resource_attribution" where
  "attribute_bytes t a =
     (let a1 = a\<lparr>at_bytes_h2d := sum_u64 t ''bytes_h2d'', at_bytes_d2h := sum_u64 t ''bytes_d2h'',
                 at_bytes_inter_node := sum_u64 t ''bytes_inter_node'', at_bytes_kv := sum_u64 t ''bytes_kv'',
                 at_bytes_tensor := sum_u64 t ''bytes_tensor'',
                 at_bytes_workspace := sum_u64 t ''bytes_workspace''\<rparr>
      in fold (\<lambda>(k, available). mark k PV_MEASURED available)
           [(''bytes_h2d'', 0 < at_bytes_h2d a1 \<or> 0 < length (tr_evidence t)),
            (''bytes_d2h'', 0 < at_bytes_d2h a1),
            (''bytes_inter_node'', 0 < at_bytes_inter_node a1),
            (''bytes_kv'', 0 < at_bytes_kv a1),
            (''bytes_tensor'', 0 < at_bytes_tensor a1),
            (''bytes_workspace'', 0 < at_bytes_workspace a1)] a1)"

definition cache_step :: "observation \<Rightarrow> resource_attribution \<Rightarrow> resource_attribution" where
  "cache_step ob a =
     (let n = u64_field ob ''count'' 1
      in case o_type ob of
           OT_KERNEL_HIT \<Rightarrow> a\<lparr>at_kernel_hits := at_kernel_hits a + n\<rparr>
         | OT_KERNEL_MISS \<Rightarrow> a\<lparr>at_kernel_misses := at_kernel_misses a + n\<rparr>
         | OT_GRAPH_HIT \<Rightarrow> a\<lparr>at_graph_hits := at_graph_hits a + n\<rparr>
         | OT_GRAPH_MISS \<Rightarrow> a\<lparr>at_graph_misses := at_graph_misses a + n\<rparr>
         | OT_KV_LOOKUP \<Rightarrow> a\<lparr>at_kv_lookups := at_kv_lookups a + n\<rparr>
         | OT_KV_HIT \<Rightarrow> a\<lparr>at_kv_hits := at_kv_hits a + n\<rparr>
         | OT_KV_MISS \<Rightarrow> a\<lparr>at_kv_misses := at_kv_misses a + n\<rparr>
         | OT_MODEL_RESIDENCY \<Rightarrow> a\<lparr>at_model_residency_refs := at_model_residency_refs a + n\<rparr>
         | OT_ADAPTER_RESIDENCY \<Rightarrow> a\<lparr>at_adapter_residency_refs := at_adapter_residency_refs a + n\<rparr>
         | _ \<Rightarrow> a)"

definition attribute_cache :: "request_trace \<Rightarrow> resource_attribution \<Rightarrow> resource_attribution" where
  "attribute_cache t a =
     (let a1 = fold cache_step (tr_evidence t) a
      in fold (\<lambda>(k, available). mark k PV_MEASURED available)
           [(''kernel_hits'', 0 < at_kernel_hits a1), (''kernel_misses'', 0 < at_kernel_misses a1),
            (''graph_hits'', 0 < at_graph_hits a1), (''graph_misses'', 0 < at_graph_misses a1),
            (''kv_lookups'', 0 < at_kv_lookups a1), (''kv_hits'', 0 < at_kv_hits a1),
            (''kv_misses'', 0 < at_kv_misses a1)] a1)"

definition spec_step :: "observation \<Rightarrow> resource_attribution \<Rightarrow> resource_attribution" where
  "spec_step ob a =
     (case o_type ob of
        OT_SPECULATION_START \<Rightarrow> a\<lparr>at_spec_proposed := at_spec_proposed a + u64_field ob ''spec_tokens'' 1\<rparr>
      | OT_SPECULATION_VERIFY \<Rightarrow>
          a\<lparr>at_spec_accepted := at_spec_accepted a + u64_field ob ''accepted_tokens'' 0,
            at_spec_rejected := at_spec_rejected a + u64_field ob ''rejected_tokens'' 0\<rparr>
      | _ \<Rightarrow> a)"

definition attribute_speculation :: "request_trace \<Rightarrow> resource_attribution \<Rightarrow> resource_attribution" where
  "attribute_speculation t a =
     (let a1 = fold spec_step (tr_evidence t) a
      in fold (\<lambda>(k, available). mark k PV_MEASURED available)
           [(''spec_proposed'', 0 < at_spec_proposed a1), (''spec_accepted'', 0 < at_spec_accepted a1),
            (''spec_rejected'', 0 < at_spec_rejected a1)] a1)"

definition token_step :: "observation \<Rightarrow> resource_attribution \<Rightarrow> resource_attribution" where
  "token_step ob a =
     (let a1 = (if o_type ob = OT_DECODE_STEP_START
                then a\<lparr>at_decode_steps := at_decode_steps a + 1,
                       at_output_tokens := max (at_output_tokens a) (u64_field ob ''output_tokens'' 0)\<rparr>
                else a)
      in if o_type ob = OT_REQUEST \<or> o_type ob = OT_PREFILL_START
         then a1\<lparr>at_input_tokens := max (at_input_tokens a1) (u64_field ob ''input_tokens'' 0)\<rparr>
         else a1)"

definition attribute_tokens :: "request_trace \<Rightarrow> resource_attribution \<Rightarrow> resource_attribution" where
  "attribute_tokens t a =
     (let a1 = fold token_step (tr_evidence t)
                 (a\<lparr>at_decode_steps := 0, at_input_tokens := 0, at_output_tokens := 0\<rparr>);
          a2 = (if 0 < at_decode_steps a1 \<and> 0 < at_decode_time a1
                then mark ''inter_token_ms'' PV_DERIVED True
                       (a1\<lparr>at_inter_token_ms :=
                          f64_div (f64_div (f64_of_u64 (at_decode_time a1)) (f64_of_u64 (at_decode_steps a1))) million\<rparr>)
                else mark ''inter_token_ms'' PV_UNKNOWN False a1)
      in mark ''output_tokens'' PV_REPORTED (0 < at_output_tokens a2)
           (mark ''input_tokens'' PV_MEASURED (0 < at_input_tokens a2)
             (mark ''decode_steps'' PV_MEASURED (0 < at_decode_steps a2) a2)))"

definition attribute_resources :: "request_trace \<Rightarrow> resource_attribution" where
  "attribute_resources t =
     attribute_tokens t (attribute_speculation t (attribute_cache t (attribute_bytes t
       (attribute_exec t (attribute_times t empty_attribution)))))"

subsection \<open>Marks and numbers are independent\<close>

lemma attr_has_mark [simp]: "attr_has m (mark k p b a) = (if m = k then b else attr_has m a)"
  by (simp add: attr_has_def mark_def)

lemma mark_numbers [simp]:
  "at_queue_time (mark k p b a) = at_queue_time a"
  "at_batch_wait (mark k p b a) = at_batch_wait a"
  "at_dispatch_delay (mark k p b a) = at_dispatch_delay a"
  "at_transfer_time (mark k p b a) = at_transfer_time a"
  "at_prefill_time (mark k p b a) = at_prefill_time a"
  "at_first_token_latency (mark k p b a) = at_first_token_latency a"
  "at_decode_time (mark k p b a) = at_decode_time a"
  "at_inter_token_ms (mark k p b a) = at_inter_token_ms a"
  "at_retry_time (mark k p b a) = at_retry_time a"
  "at_recovery_time (mark k p b a) = at_recovery_time a"
  "at_total_latency (mark k p b a) = at_total_latency a"
  "at_gpu_exec_time (mark k p b a) = at_gpu_exec_time a"
  "at_cpu_exec_time (mark k p b a) = at_cpu_exec_time a"
  "at_bytes_h2d (mark k p b a) = at_bytes_h2d a"
  "at_bytes_d2h (mark k p b a) = at_bytes_d2h a"
  "at_bytes_inter_node (mark k p b a) = at_bytes_inter_node a"
  "at_bytes_kv (mark k p b a) = at_bytes_kv a"
  "at_bytes_tensor (mark k p b a) = at_bytes_tensor a"
  "at_bytes_workspace (mark k p b a) = at_bytes_workspace a"
  "at_kernel_hits (mark k p b a) = at_kernel_hits a"
  "at_kernel_misses (mark k p b a) = at_kernel_misses a"
  "at_graph_hits (mark k p b a) = at_graph_hits a"
  "at_graph_misses (mark k p b a) = at_graph_misses a"
  "at_kv_lookups (mark k p b a) = at_kv_lookups a"
  "at_kv_hits (mark k p b a) = at_kv_hits a"
  "at_kv_misses (mark k p b a) = at_kv_misses a"
  "at_model_residency_refs (mark k p b a) = at_model_residency_refs a"
  "at_adapter_residency_refs (mark k p b a) = at_adapter_residency_refs a"
  "at_spec_proposed (mark k p b a) = at_spec_proposed a"
  "at_spec_accepted (mark k p b a) = at_spec_accepted a"
  "at_spec_rejected (mark k p b a) = at_spec_rejected a"
  "at_decode_steps (mark k p b a) = at_decode_steps a"
  "at_output_tokens (mark k p b a) = at_output_tokens a"
  "at_input_tokens (mark k p b a) = at_input_tokens a"
  by (simp_all add: mark_def)

text \<open>A group of marks: the folds of the code over metric names.\<close>

lemma fold_mark_numbers [simp]:
  "at_queue_time (fold (\<lambda>(k, b). mark k p b) kbs a) = at_queue_time a"
  "at_batch_wait (fold (\<lambda>(k, b). mark k p b) kbs a) = at_batch_wait a"
  "at_dispatch_delay (fold (\<lambda>(k, b). mark k p b) kbs a) = at_dispatch_delay a"
  "at_transfer_time (fold (\<lambda>(k, b). mark k p b) kbs a) = at_transfer_time a"
  "at_prefill_time (fold (\<lambda>(k, b). mark k p b) kbs a) = at_prefill_time a"
  "at_first_token_latency (fold (\<lambda>(k, b). mark k p b) kbs a) = at_first_token_latency a"
  "at_decode_time (fold (\<lambda>(k, b). mark k p b) kbs a) = at_decode_time a"
  "at_inter_token_ms (fold (\<lambda>(k, b). mark k p b) kbs a) = at_inter_token_ms a"
  "at_retry_time (fold (\<lambda>(k, b). mark k p b) kbs a) = at_retry_time a"
  "at_recovery_time (fold (\<lambda>(k, b). mark k p b) kbs a) = at_recovery_time a"
  "at_total_latency (fold (\<lambda>(k, b). mark k p b) kbs a) = at_total_latency a"
  "at_gpu_exec_time (fold (\<lambda>(k, b). mark k p b) kbs a) = at_gpu_exec_time a"
  "at_cpu_exec_time (fold (\<lambda>(k, b). mark k p b) kbs a) = at_cpu_exec_time a"
  "at_bytes_h2d (fold (\<lambda>(k, b). mark k p b) kbs a) = at_bytes_h2d a"
  "at_bytes_d2h (fold (\<lambda>(k, b). mark k p b) kbs a) = at_bytes_d2h a"
  "at_bytes_inter_node (fold (\<lambda>(k, b). mark k p b) kbs a) = at_bytes_inter_node a"
  "at_bytes_kv (fold (\<lambda>(k, b). mark k p b) kbs a) = at_bytes_kv a"
  "at_bytes_tensor (fold (\<lambda>(k, b). mark k p b) kbs a) = at_bytes_tensor a"
  "at_bytes_workspace (fold (\<lambda>(k, b). mark k p b) kbs a) = at_bytes_workspace a"
  "at_kernel_hits (fold (\<lambda>(k, b). mark k p b) kbs a) = at_kernel_hits a"
  "at_kernel_misses (fold (\<lambda>(k, b). mark k p b) kbs a) = at_kernel_misses a"
  "at_graph_hits (fold (\<lambda>(k, b). mark k p b) kbs a) = at_graph_hits a"
  "at_graph_misses (fold (\<lambda>(k, b). mark k p b) kbs a) = at_graph_misses a"
  "at_kv_lookups (fold (\<lambda>(k, b). mark k p b) kbs a) = at_kv_lookups a"
  "at_kv_hits (fold (\<lambda>(k, b). mark k p b) kbs a) = at_kv_hits a"
  "at_kv_misses (fold (\<lambda>(k, b). mark k p b) kbs a) = at_kv_misses a"
  "at_model_residency_refs (fold (\<lambda>(k, b). mark k p b) kbs a) = at_model_residency_refs a"
  "at_adapter_residency_refs (fold (\<lambda>(k, b). mark k p b) kbs a) = at_adapter_residency_refs a"
  "at_spec_proposed (fold (\<lambda>(k, b). mark k p b) kbs a) = at_spec_proposed a"
  "at_spec_accepted (fold (\<lambda>(k, b). mark k p b) kbs a) = at_spec_accepted a"
  "at_spec_rejected (fold (\<lambda>(k, b). mark k p b) kbs a) = at_spec_rejected a"
  "at_decode_steps (fold (\<lambda>(k, b). mark k p b) kbs a) = at_decode_steps a"
  "at_output_tokens (fold (\<lambda>(k, b). mark k p b) kbs a) = at_output_tokens a"
  "at_input_tokens (fold (\<lambda>(k, b). mark k p b) kbs a) = at_input_tokens a"
  by (induction kbs arbitrary: a) (simp_all add: split_beta)

lemma attr_has_fold_mark:
  "attr_has m (fold (\<lambda>(k, b). mark k p b) kbs a) \<Longrightarrow> attr_has m a \<or> (m, True) \<in> set kbs"
  by (induction kbs arbitrary: a) (fastforce split: if_splits)+

lemma fold_record_numbers [simp]:
  "at_queue_time (fold (record_phase t) rs a) = at_queue_time a"
  "at_batch_wait (fold (record_phase t) rs a) = at_batch_wait a"
  "at_dispatch_delay (fold (record_phase t) rs a) = at_dispatch_delay a"
  "at_transfer_time (fold (record_phase t) rs a) = at_transfer_time a"
  "at_prefill_time (fold (record_phase t) rs a) = at_prefill_time a"
  "at_first_token_latency (fold (record_phase t) rs a) = at_first_token_latency a"
  "at_decode_time (fold (record_phase t) rs a) = at_decode_time a"
  "at_inter_token_ms (fold (record_phase t) rs a) = at_inter_token_ms a"
  "at_retry_time (fold (record_phase t) rs a) = at_retry_time a"
  "at_recovery_time (fold (record_phase t) rs a) = at_recovery_time a"
  "at_total_latency (fold (record_phase t) rs a) = at_total_latency a"
  "at_gpu_exec_time (fold (record_phase t) rs a) = at_gpu_exec_time a"
  "at_cpu_exec_time (fold (record_phase t) rs a) = at_cpu_exec_time a"
  "at_bytes_h2d (fold (record_phase t) rs a) = at_bytes_h2d a"
  "at_bytes_d2h (fold (record_phase t) rs a) = at_bytes_d2h a"
  "at_bytes_inter_node (fold (record_phase t) rs a) = at_bytes_inter_node a"
  "at_bytes_kv (fold (record_phase t) rs a) = at_bytes_kv a"
  "at_bytes_tensor (fold (record_phase t) rs a) = at_bytes_tensor a"
  "at_bytes_workspace (fold (record_phase t) rs a) = at_bytes_workspace a"
  "at_kernel_hits (fold (record_phase t) rs a) = at_kernel_hits a"
  "at_kernel_misses (fold (record_phase t) rs a) = at_kernel_misses a"
  "at_graph_hits (fold (record_phase t) rs a) = at_graph_hits a"
  "at_graph_misses (fold (record_phase t) rs a) = at_graph_misses a"
  "at_kv_lookups (fold (record_phase t) rs a) = at_kv_lookups a"
  "at_kv_hits (fold (record_phase t) rs a) = at_kv_hits a"
  "at_kv_misses (fold (record_phase t) rs a) = at_kv_misses a"
  "at_model_residency_refs (fold (record_phase t) rs a) = at_model_residency_refs a"
  "at_adapter_residency_refs (fold (record_phase t) rs a) = at_adapter_residency_refs a"
  "at_spec_proposed (fold (record_phase t) rs a) = at_spec_proposed a"
  "at_spec_accepted (fold (record_phase t) rs a) = at_spec_accepted a"
  "at_spec_rejected (fold (record_phase t) rs a) = at_spec_rejected a"
  "at_decode_steps (fold (record_phase t) rs a) = at_decode_steps a"
  "at_output_tokens (fold (record_phase t) rs a) = at_output_tokens a"
  "at_input_tokens (fold (record_phase t) rs a) = at_input_tokens a"
  by (induction rs arbitrary: a) (simp_all add: record_phase_def Let_def)

lemma attr_has_fold_record:
  "attr_has m (fold (record_phase t) rs a) \<Longrightarrow>
   attr_has m a \<or> (\<exists>p. (m, p) \<in> set rs \<and> has_phase p (tr_phases t))"
  by (induction rs arbitrary: a)
     (fastforce simp: record_phase_def Let_def has_phase_def get_phase_def split: if_splits)+

subsection \<open>The loops as sums\<close>

definition count_sum :: "obs_type \<Rightarrow> string \<Rightarrow> u64 \<Rightarrow> observation list \<Rightarrow> u64" where
  "count_sum ty key def obs = (\<Sum>ob \<leftarrow> filter (\<lambda>ob. o_type ob = ty) obs. u64_field ob key def)"

lemma count_sum_simps [simp]:
  "count_sum ty key def [] = 0"
  "count_sum ty key def (ob # obs) =
     (if o_type ob = ty then u64_field ob key def else 0) + count_sum ty key def obs"
  by (simp_all add: count_sum_def)

lemma count_sum_pos:
  assumes "count_sum ty key def obs \<noteq> 0"
  shows "\<exists>ob \<in> set obs. o_type ob = ty \<and> (def = 0 \<longrightarrow> has_field ob key)"
  using assms
  by (induction obs) (auto simp: has_field_def u64_field_def split: if_splits option.splits)

lemma sum_u64_list: "sum_u64 t key = (\<Sum>ob \<leftarrow> tr_evidence t. u64_field ob key 0)"
proof -
  have "fold (\<lambda>ob s. s + u64_field ob key 0) obs n = n + (\<Sum>ob \<leftarrow> obs. u64_field ob key 0)" for obs n
    by (induction obs arbitrary: n) simp_all
  then show ?thesis by (simp add: sum_u64_def)
qed

lemma sum_u64_pos:
  assumes "sum_u64 t key \<noteq> 0"
  shows "\<exists>ob \<in> set (tr_evidence t). has_field ob key"
proof -
  have "(\<Sum>ob \<leftarrow> obs. u64_field ob key 0) \<noteq> 0 \<Longrightarrow> \<exists>ob \<in> set obs. has_field ob key" for obs
    by (induction obs) (auto simp: has_field_def u64_field_def split: option.splits)
  then show ?thesis using assms by (simp add: sum_u64_list)
qed

lemma cache_step_if:
  "cache_step ob a = a\<lparr>
     at_kernel_hits := at_kernel_hits a + (if o_type ob = OT_KERNEL_HIT then u64_field ob ''count'' 1 else 0),
     at_kernel_misses := at_kernel_misses a + (if o_type ob = OT_KERNEL_MISS then u64_field ob ''count'' 1 else 0),
     at_graph_hits := at_graph_hits a + (if o_type ob = OT_GRAPH_HIT then u64_field ob ''count'' 1 else 0),
     at_graph_misses := at_graph_misses a + (if o_type ob = OT_GRAPH_MISS then u64_field ob ''count'' 1 else 0),
     at_kv_lookups := at_kv_lookups a + (if o_type ob = OT_KV_LOOKUP then u64_field ob ''count'' 1 else 0),
     at_kv_hits := at_kv_hits a + (if o_type ob = OT_KV_HIT then u64_field ob ''count'' 1 else 0),
     at_kv_misses := at_kv_misses a + (if o_type ob = OT_KV_MISS then u64_field ob ''count'' 1 else 0),
     at_model_residency_refs := at_model_residency_refs a + (if o_type ob = OT_MODEL_RESIDENCY then u64_field ob ''count'' 1 else 0),
     at_adapter_residency_refs := at_adapter_residency_refs a + (if o_type ob = OT_ADAPTER_RESIDENCY then u64_field ob ''count'' 1 else 0)\<rparr>"
  by (cases "o_type ob") (simp_all add: cache_step_def Let_def)

lemma spec_step_if:
  "spec_step ob a = a\<lparr>
     at_spec_proposed := at_spec_proposed a + (if o_type ob = OT_SPECULATION_START then u64_field ob ''spec_tokens'' 1 else 0),
     at_spec_accepted := at_spec_accepted a + (if o_type ob = OT_SPECULATION_VERIFY then u64_field ob ''accepted_tokens'' 0 else 0),
     at_spec_rejected := at_spec_rejected a + (if o_type ob = OT_SPECULATION_VERIFY then u64_field ob ''rejected_tokens'' 0 else 0)\<rparr>"
  by (cases "o_type ob") (simp_all add: spec_step_def)

lemma fold_cache_counts:
  "at_kernel_hits (fold cache_step obs a) = at_kernel_hits a + count_sum OT_KERNEL_HIT ''count'' 1 obs"
  "at_kernel_misses (fold cache_step obs a) = at_kernel_misses a + count_sum OT_KERNEL_MISS ''count'' 1 obs"
  "at_graph_hits (fold cache_step obs a) = at_graph_hits a + count_sum OT_GRAPH_HIT ''count'' 1 obs"
  "at_graph_misses (fold cache_step obs a) = at_graph_misses a + count_sum OT_GRAPH_MISS ''count'' 1 obs"
  "at_kv_lookups (fold cache_step obs a) = at_kv_lookups a + count_sum OT_KV_LOOKUP ''count'' 1 obs"
  "at_kv_hits (fold cache_step obs a) = at_kv_hits a + count_sum OT_KV_HIT ''count'' 1 obs"
  "at_kv_misses (fold cache_step obs a) = at_kv_misses a + count_sum OT_KV_MISS ''count'' 1 obs"
  "at_model_residency_refs (fold cache_step obs a) = at_model_residency_refs a + count_sum OT_MODEL_RESIDENCY ''count'' 1 obs"
  "at_adapter_residency_refs (fold cache_step obs a) = at_adapter_residency_refs a + count_sum OT_ADAPTER_RESIDENCY ''count'' 1 obs"
  by (induction obs arbitrary: a) (simp_all add: cache_step_if add.assoc)

lemma fold_cache_others [simp]:
  "at_queue_time (fold cache_step obs a) = at_queue_time a"
  "at_batch_wait (fold cache_step obs a) = at_batch_wait a"
  "at_dispatch_delay (fold cache_step obs a) = at_dispatch_delay a"
  "at_transfer_time (fold cache_step obs a) = at_transfer_time a"
  "at_prefill_time (fold cache_step obs a) = at_prefill_time a"
  "at_first_token_latency (fold cache_step obs a) = at_first_token_latency a"
  "at_decode_time (fold cache_step obs a) = at_decode_time a"
  "at_inter_token_ms (fold cache_step obs a) = at_inter_token_ms a"
  "at_retry_time (fold cache_step obs a) = at_retry_time a"
  "at_recovery_time (fold cache_step obs a) = at_recovery_time a"
  "at_total_latency (fold cache_step obs a) = at_total_latency a"
  "at_gpu_exec_time (fold cache_step obs a) = at_gpu_exec_time a"
  "at_cpu_exec_time (fold cache_step obs a) = at_cpu_exec_time a"
  "at_bytes_h2d (fold cache_step obs a) = at_bytes_h2d a"
  "at_bytes_d2h (fold cache_step obs a) = at_bytes_d2h a"
  "at_bytes_inter_node (fold cache_step obs a) = at_bytes_inter_node a"
  "at_bytes_kv (fold cache_step obs a) = at_bytes_kv a"
  "at_bytes_tensor (fold cache_step obs a) = at_bytes_tensor a"
  "at_bytes_workspace (fold cache_step obs a) = at_bytes_workspace a"
  "at_spec_proposed (fold cache_step obs a) = at_spec_proposed a"
  "at_spec_accepted (fold cache_step obs a) = at_spec_accepted a"
  "at_spec_rejected (fold cache_step obs a) = at_spec_rejected a"
  "at_decode_steps (fold cache_step obs a) = at_decode_steps a"
  "at_output_tokens (fold cache_step obs a) = at_output_tokens a"
  "at_input_tokens (fold cache_step obs a) = at_input_tokens a"
  "at_available (fold cache_step obs a) = at_available a"
  by (induction obs arbitrary: a) (simp_all add: cache_step_if)

lemma fold_spec_counts:
  "at_spec_proposed (fold spec_step obs a) = at_spec_proposed a + count_sum OT_SPECULATION_START ''spec_tokens'' 1 obs"
  "at_spec_accepted (fold spec_step obs a) = at_spec_accepted a + count_sum OT_SPECULATION_VERIFY ''accepted_tokens'' 0 obs"
  "at_spec_rejected (fold spec_step obs a) = at_spec_rejected a + count_sum OT_SPECULATION_VERIFY ''rejected_tokens'' 0 obs"
  by (induction obs arbitrary: a) (simp_all add: spec_step_if add.assoc)

lemma fold_spec_others [simp]:
  "at_queue_time (fold spec_step obs a) = at_queue_time a"
  "at_batch_wait (fold spec_step obs a) = at_batch_wait a"
  "at_dispatch_delay (fold spec_step obs a) = at_dispatch_delay a"
  "at_transfer_time (fold spec_step obs a) = at_transfer_time a"
  "at_prefill_time (fold spec_step obs a) = at_prefill_time a"
  "at_first_token_latency (fold spec_step obs a) = at_first_token_latency a"
  "at_decode_time (fold spec_step obs a) = at_decode_time a"
  "at_inter_token_ms (fold spec_step obs a) = at_inter_token_ms a"
  "at_retry_time (fold spec_step obs a) = at_retry_time a"
  "at_recovery_time (fold spec_step obs a) = at_recovery_time a"
  "at_total_latency (fold spec_step obs a) = at_total_latency a"
  "at_gpu_exec_time (fold spec_step obs a) = at_gpu_exec_time a"
  "at_cpu_exec_time (fold spec_step obs a) = at_cpu_exec_time a"
  "at_bytes_h2d (fold spec_step obs a) = at_bytes_h2d a"
  "at_bytes_d2h (fold spec_step obs a) = at_bytes_d2h a"
  "at_bytes_inter_node (fold spec_step obs a) = at_bytes_inter_node a"
  "at_bytes_kv (fold spec_step obs a) = at_bytes_kv a"
  "at_bytes_tensor (fold spec_step obs a) = at_bytes_tensor a"
  "at_bytes_workspace (fold spec_step obs a) = at_bytes_workspace a"
  "at_kernel_hits (fold spec_step obs a) = at_kernel_hits a"
  "at_kernel_misses (fold spec_step obs a) = at_kernel_misses a"
  "at_graph_hits (fold spec_step obs a) = at_graph_hits a"
  "at_graph_misses (fold spec_step obs a) = at_graph_misses a"
  "at_kv_lookups (fold spec_step obs a) = at_kv_lookups a"
  "at_kv_hits (fold spec_step obs a) = at_kv_hits a"
  "at_kv_misses (fold spec_step obs a) = at_kv_misses a"
  "at_model_residency_refs (fold spec_step obs a) = at_model_residency_refs a"
  "at_adapter_residency_refs (fold spec_step obs a) = at_adapter_residency_refs a"
  "at_decode_steps (fold spec_step obs a) = at_decode_steps a"
  "at_output_tokens (fold spec_step obs a) = at_output_tokens a"
  "at_input_tokens (fold spec_step obs a) = at_input_tokens a"
  "at_available (fold spec_step obs a) = at_available a"
  by (induction obs arbitrary: a) (simp_all add: spec_step_if)

lemma token_step_if:
  "token_step ob a = a\<lparr>
     at_decode_steps := at_decode_steps a + (if o_type ob = OT_DECODE_STEP_START then 1 else 0),
     at_output_tokens := (if o_type ob = OT_DECODE_STEP_START
       then max (at_output_tokens a) (u64_field ob ''output_tokens'' 0) else at_output_tokens a),
     at_input_tokens := (if o_type ob = OT_REQUEST \<or> o_type ob = OT_PREFILL_START
       then max (at_input_tokens a) (u64_field ob ''input_tokens'' 0) else at_input_tokens a)\<rparr>"
  by (simp add: token_step_def)

lemma fold_token_others [simp]:
  "at_queue_time (fold token_step obs a) = at_queue_time a"
  "at_batch_wait (fold token_step obs a) = at_batch_wait a"
  "at_dispatch_delay (fold token_step obs a) = at_dispatch_delay a"
  "at_transfer_time (fold token_step obs a) = at_transfer_time a"
  "at_prefill_time (fold token_step obs a) = at_prefill_time a"
  "at_first_token_latency (fold token_step obs a) = at_first_token_latency a"
  "at_decode_time (fold token_step obs a) = at_decode_time a"
  "at_inter_token_ms (fold token_step obs a) = at_inter_token_ms a"
  "at_retry_time (fold token_step obs a) = at_retry_time a"
  "at_recovery_time (fold token_step obs a) = at_recovery_time a"
  "at_total_latency (fold token_step obs a) = at_total_latency a"
  "at_gpu_exec_time (fold token_step obs a) = at_gpu_exec_time a"
  "at_cpu_exec_time (fold token_step obs a) = at_cpu_exec_time a"
  "at_bytes_h2d (fold token_step obs a) = at_bytes_h2d a"
  "at_bytes_d2h (fold token_step obs a) = at_bytes_d2h a"
  "at_bytes_inter_node (fold token_step obs a) = at_bytes_inter_node a"
  "at_bytes_kv (fold token_step obs a) = at_bytes_kv a"
  "at_bytes_tensor (fold token_step obs a) = at_bytes_tensor a"
  "at_bytes_workspace (fold token_step obs a) = at_bytes_workspace a"
  "at_kernel_hits (fold token_step obs a) = at_kernel_hits a"
  "at_kernel_misses (fold token_step obs a) = at_kernel_misses a"
  "at_graph_hits (fold token_step obs a) = at_graph_hits a"
  "at_graph_misses (fold token_step obs a) = at_graph_misses a"
  "at_kv_lookups (fold token_step obs a) = at_kv_lookups a"
  "at_kv_hits (fold token_step obs a) = at_kv_hits a"
  "at_kv_misses (fold token_step obs a) = at_kv_misses a"
  "at_model_residency_refs (fold token_step obs a) = at_model_residency_refs a"
  "at_adapter_residency_refs (fold token_step obs a) = at_adapter_residency_refs a"
  "at_spec_proposed (fold token_step obs a) = at_spec_proposed a"
  "at_spec_accepted (fold token_step obs a) = at_spec_accepted a"
  "at_spec_rejected (fold token_step obs a) = at_spec_rejected a"
  "at_available (fold token_step obs a) = at_available a"
  by (induction obs arbitrary: a) (simp_all add: token_step_if)

subsection \<open>What is available is evidenced\<close>

text \<open>The evidence each metric needs: an existing phase, or an observation of a kind.\<close>

definition evidence_for :: "(string \<times> (observation \<Rightarrow> bool)) list" where
  "evidence_for =
     [(''gpu_exec'', \<lambda>ob. has_field ob ''gpu_ms''),
      (''cpu_exec'', \<lambda>ob. has_field ob ''cpu_ms''),
      (''bytes_h2d'', \<lambda>ob. has_field ob ''bytes_h2d''),
      (''bytes_d2h'', \<lambda>ob. has_field ob ''bytes_d2h''),
      (''bytes_inter_node'', \<lambda>ob. has_field ob ''bytes_inter_node''),
      (''bytes_kv'', \<lambda>ob. has_field ob ''bytes_kv''),
      (''bytes_tensor'', \<lambda>ob. has_field ob ''bytes_tensor''),
      (''bytes_workspace'', \<lambda>ob. has_field ob ''bytes_workspace''),
      (''kernel_hits'', \<lambda>ob. o_type ob = OT_KERNEL_HIT),
      (''kernel_misses'', \<lambda>ob. o_type ob = OT_KERNEL_MISS),
      (''graph_hits'', \<lambda>ob. o_type ob = OT_GRAPH_HIT),
      (''graph_misses'', \<lambda>ob. o_type ob = OT_GRAPH_MISS),
      (''kv_lookups'', \<lambda>ob. o_type ob = OT_KV_LOOKUP),
      (''kv_hits'', \<lambda>ob. o_type ob = OT_KV_HIT),
      (''kv_misses'', \<lambda>ob. o_type ob = OT_KV_MISS),
      (''spec_proposed'', \<lambda>ob. o_type ob = OT_SPECULATION_START),
      (''spec_accepted'', \<lambda>ob. o_type ob = OT_SPECULATION_VERIFY \<and> has_field ob ''accepted_tokens''),
      (''spec_rejected'', \<lambda>ob. o_type ob = OT_SPECULATION_VERIFY \<and> has_field ob ''rejected_tokens''),
      (''inter_token_ms'', \<lambda>ob. o_type ob = OT_DECODE_STEP_START),
      (''decode_steps'', \<lambda>ob. o_type ob = OT_DECODE_STEP_START),
      (''input_tokens'', \<lambda>ob. o_type ob \<in> {OT_REQUEST, OT_PREFILL_START} \<and> has_field ob ''input_tokens''),
      (''output_tokens'', \<lambda>ob. o_type ob = OT_DECODE_STEP_START \<and> has_field ob ''output_tokens'')]"

definition evidenced :: "request_trace \<Rightarrow> string \<Rightarrow> bool" where
  "evidenced t m \<longleftrightarrow>
     (\<exists>p. (m, p) \<in> set recorded_phases \<and> has_phase p (tr_phases t)) \<or>
     (\<exists>P. (m, P) \<in> set evidence_for \<and> (\<exists>ob \<in> set (tr_evidence t). P ob))"

lemma evidencedI:
  "ob \<in> set (tr_evidence t) \<Longrightarrow> P ob \<Longrightarrow> (m, P) \<in> set evidence_for \<Longrightarrow> evidenced t m"
  unfolding evidenced_def by blast

lemma evidence_members:
  "(''gpu_exec'', \<lambda>ob. has_field ob ''gpu_ms'') \<in> set evidence_for"
  "(''cpu_exec'', \<lambda>ob. has_field ob ''cpu_ms'') \<in> set evidence_for"
  "(''bytes_h2d'', \<lambda>ob. has_field ob ''bytes_h2d'') \<in> set evidence_for"
  "(''bytes_d2h'', \<lambda>ob. has_field ob ''bytes_d2h'') \<in> set evidence_for"
  "(''bytes_inter_node'', \<lambda>ob. has_field ob ''bytes_inter_node'') \<in> set evidence_for"
  "(''bytes_kv'', \<lambda>ob. has_field ob ''bytes_kv'') \<in> set evidence_for"
  "(''bytes_tensor'', \<lambda>ob. has_field ob ''bytes_tensor'') \<in> set evidence_for"
  "(''bytes_workspace'', \<lambda>ob. has_field ob ''bytes_workspace'') \<in> set evidence_for"
  "(''kernel_hits'', \<lambda>ob. o_type ob = OT_KERNEL_HIT) \<in> set evidence_for"
  "(''kernel_misses'', \<lambda>ob. o_type ob = OT_KERNEL_MISS) \<in> set evidence_for"
  "(''graph_hits'', \<lambda>ob. o_type ob = OT_GRAPH_HIT) \<in> set evidence_for"
  "(''graph_misses'', \<lambda>ob. o_type ob = OT_GRAPH_MISS) \<in> set evidence_for"
  "(''kv_lookups'', \<lambda>ob. o_type ob = OT_KV_LOOKUP) \<in> set evidence_for"
  "(''kv_hits'', \<lambda>ob. o_type ob = OT_KV_HIT) \<in> set evidence_for"
  "(''kv_misses'', \<lambda>ob. o_type ob = OT_KV_MISS) \<in> set evidence_for"
  "(''spec_proposed'', \<lambda>ob. o_type ob = OT_SPECULATION_START) \<in> set evidence_for"
  "(''spec_accepted'', \<lambda>ob. o_type ob = OT_SPECULATION_VERIFY \<and> has_field ob ''accepted_tokens'') \<in> set evidence_for"
  "(''spec_rejected'', \<lambda>ob. o_type ob = OT_SPECULATION_VERIFY \<and> has_field ob ''rejected_tokens'') \<in> set evidence_for"
  "(''inter_token_ms'', \<lambda>ob. o_type ob = OT_DECODE_STEP_START) \<in> set evidence_for"
  "(''decode_steps'', \<lambda>ob. o_type ob = OT_DECODE_STEP_START) \<in> set evidence_for"
  "(''input_tokens'', \<lambda>ob. o_type ob \<in> {OT_REQUEST, OT_PREFILL_START} \<and> has_field ob ''input_tokens'') \<in> set evidence_for"
  "(''output_tokens'', \<lambda>ob. o_type ob = OT_DECODE_STEP_START \<and> has_field ob ''output_tokens'') \<in> set evidence_for"
  by (simp_all add: evidence_for_def)

lemmas evidence_rules =
  evidencedI [OF _ _ evidence_members(1)]
  evidencedI [OF _ _ evidence_members(2)]
  evidencedI [OF _ _ evidence_members(3)]
  evidencedI [OF _ _ evidence_members(4)]
  evidencedI [OF _ _ evidence_members(5)]
  evidencedI [OF _ _ evidence_members(6)]
  evidencedI [OF _ _ evidence_members(7)]
  evidencedI [OF _ _ evidence_members(8)]
  evidencedI [OF _ _ evidence_members(9)]
  evidencedI [OF _ _ evidence_members(10)]
  evidencedI [OF _ _ evidence_members(11)]
  evidencedI [OF _ _ evidence_members(12)]
  evidencedI [OF _ _ evidence_members(13)]
  evidencedI [OF _ _ evidence_members(14)]
  evidencedI [OF _ _ evidence_members(15)]
  evidencedI [OF _ _ evidence_members(16)]
  evidencedI [OF _ _ evidence_members(17)]
  evidencedI [OF _ _ evidence_members(18)]
  evidencedI [OF _ _ evidence_members(19)]
  evidencedI [OF _ _ evidence_members(20)]
  evidencedI [OF _ _ evidence_members(21)]
  evidencedI [OF _ _ evidence_members(22)]

text \<open>A group of marks whose conditions are evidenced.\<close>

lemma marks_evidenced:
  assumes "attr_has m (fold (\<lambda>(k, b). mark k p b) kbs a)"
    and "list_all (\<lambda>(k, b). b \<longrightarrow> P k) kbs"
  shows "attr_has m a \<or> P m"
  using attr_has_fold_mark [OF assms(1)] assms(2) by (auto simp: list_all_iff)

text \<open>The numbers start at zero, and every stage leaves those of the later stages alone.\<close>

definition counts_zero :: "resource_attribution \<Rightarrow> bool" where
  "counts_zero a \<longleftrightarrow>
     at_kernel_hits a = 0 \<and> at_kernel_misses a = 0 \<and> at_graph_hits a = 0 \<and> at_graph_misses a = 0 \<and>
     at_kv_lookups a = 0 \<and> at_kv_hits a = 0 \<and> at_kv_misses a = 0 \<and>
     at_model_residency_refs a = 0 \<and> at_adapter_residency_refs a = 0"

definition spec_zero :: "resource_attribution \<Rightarrow> bool" where
  "spec_zero a \<longleftrightarrow> at_spec_proposed a = 0 \<and> at_spec_accepted a = 0 \<and> at_spec_rejected a = 0"

lemma attribute_exec_eq:
  "attribute_exec t a =
     (let (g, h, c) = fold exec_step (tr_evidence t) (f64_zero False, False, at_cpu_exec_time a)
      in mark ''cpu_exec'' PV_REPORTED (0 < c)
           (mark ''gpu_exec'' (if h then PV_MEASURED else PV_UNKNOWN) h
             (a\<lparr>at_cpu_exec_time := c,
                at_gpu_exec_time := (if h then u64_of_f64 (f64_mul g million) else at_gpu_exec_time a)\<rparr>)))"
  by (auto simp: attribute_exec_def Let_def split: prod.splits)

lemma stage_counts:
  "counts_zero (attribute_times t a) = counts_zero a" "spec_zero (attribute_times t a) = spec_zero a"
  "counts_zero (attribute_exec t a) = counts_zero a" "spec_zero (attribute_exec t a) = spec_zero a"
  "counts_zero (attribute_bytes t a) = counts_zero a" "spec_zero (attribute_bytes t a) = spec_zero a"
  "spec_zero (attribute_cache t a) = spec_zero a"
  by (simp_all add: counts_zero_def spec_zero_def attribute_times_def attribute_exec_eq attribute_bytes_def
        attribute_cache_def Let_def split: prod.split)

lemma attr_has_cong: "at_available b = at_available a \<Longrightarrow> attr_has m b = attr_has m a"
  by (simp add: attr_has_def)

lemma attr_has_times [simp]: "attr_has m (a\<lparr>at_cpu_exec_time := c, at_gpu_exec_time := g\<rparr>) = attr_has m a"
  by (rule attr_has_cong) simp

lemma times_has: "attr_has m (attribute_times t a) \<Longrightarrow> attr_has m a \<or> evidenced t m"
  unfolding attribute_times_def by (drule attr_has_fold_record) (auto simp: evidenced_def attr_has_def)

lemma exec_fold:
  assumes "fold exec_step obs (g0, h0, c0) = (g, h, c)"
  shows "h \<Longrightarrow> h0 \<or> (\<exists>ob \<in> set obs. has_field ob ''gpu_ms'')"
    "c \<noteq> 0 \<Longrightarrow> c0 \<noteq> 0 \<or> (\<exists>ob \<in> set obs. has_field ob ''cpu_ms'')"
proof -
  have "fold exec_step obs (g0, h0, c0) = (g, h, c) \<Longrightarrow>
    (h \<longrightarrow> h0 \<or> (\<exists>ob \<in> set obs. has_field ob ''gpu_ms'')) \<and>
    (c \<noteq> 0 \<longrightarrow> c0 \<noteq> 0 \<or> (\<exists>ob \<in> set obs. has_field ob ''cpu_ms''))" for g0 h0 c0
  proof (induction obs arbitrary: g0 h0 c0)
    case (Cons ob obs)
    obtain g1 h1 c1 where st: "exec_step ob (g0, h0, c0) = (g1, h1, c1)" by (cases "exec_step ob (g0, h0, c0)")
    then show ?case
      using Cons.IH [of g1 h1 c1] Cons.prems by (auto simp: exec_step_def split: if_splits)
  qed simp
  then show "h \<Longrightarrow> h0 \<or> (\<exists>ob \<in> set obs. has_field ob ''gpu_ms'')"
    "c \<noteq> 0 \<Longrightarrow> c0 \<noteq> 0 \<or> (\<exists>ob \<in> set obs. has_field ob ''cpu_ms'')"
    using assms by auto
qed

lemma exec_has:
  assumes "attr_has m (attribute_exec t a)" and "at_cpu_exec_time a = 0"
  shows "attr_has m a \<or> evidenced t m"
proof -
  obtain g h c where f: "fold exec_step (tr_evidence t) (f64_zero False, False, 0) = (g, h, c)"
    by (cases "fold exec_step (tr_evidence t) (f64_zero False, False, 0)")
  have "h \<Longrightarrow> evidenced t ''gpu_exec''" "c \<noteq> 0 \<Longrightarrow> evidenced t ''cpu_exec''"
    using exec_fold [OF f] by (blast intro: evidence_rules)+
  then show ?thesis
    using assms(1) unfolding attribute_exec_eq assms(2) f
    by (simp add: Let_def word_gt_0 del: list.inject split: if_split_asm)
qed

lemma sum_evidenced:
  "sum_u64 t ''bytes_d2h'' \<noteq> 0 \<Longrightarrow> evidenced t ''bytes_d2h''"
  "sum_u64 t ''bytes_inter_node'' \<noteq> 0 \<Longrightarrow> evidenced t ''bytes_inter_node''"
  "sum_u64 t ''bytes_kv'' \<noteq> 0 \<Longrightarrow> evidenced t ''bytes_kv''"
  "sum_u64 t ''bytes_tensor'' \<noteq> 0 \<Longrightarrow> evidenced t ''bytes_tensor''"
  "sum_u64 t ''bytes_workspace'' \<noteq> 0 \<Longrightarrow> evidenced t ''bytes_workspace''"
  by (blast dest: sum_u64_pos intro: evidence_rules)+

lemma bytes_has:
  assumes "attr_has m (attribute_bytes t a)" and "m \<noteq> ''bytes_h2d''"
  shows "attr_has m a \<or> evidenced t m"
proof -
  have "attr_has m (a\<lparr>at_bytes_h2d := sum_u64 t ''bytes_h2d'', at_bytes_d2h := sum_u64 t ''bytes_d2h'',
      at_bytes_inter_node := sum_u64 t ''bytes_inter_node'', at_bytes_kv := sum_u64 t ''bytes_kv'',
      at_bytes_tensor := sum_u64 t ''bytes_tensor'', at_bytes_workspace := sum_u64 t ''bytes_workspace''\<rparr>) \<or>
      m = ''bytes_h2d'' \<or> evidenced t m"
    by (rule marks_evidenced [where P = "\<lambda>m. m = ''bytes_h2d'' \<or> evidenced t m", OF assms(1) [unfolded attribute_bytes_def Let_def]])
       (simp add: word_gt_0 sum_evidenced)
  then show ?thesis using assms(2) by (simp add: attr_has_def)
qed

lemma count_evidenced:
  "count_sum OT_KERNEL_HIT ''count'' 1 (tr_evidence t) \<noteq> 0 \<Longrightarrow> evidenced t ''kernel_hits''"
  "count_sum OT_KERNEL_MISS ''count'' 1 (tr_evidence t) \<noteq> 0 \<Longrightarrow> evidenced t ''kernel_misses''"
  "count_sum OT_GRAPH_HIT ''count'' 1 (tr_evidence t) \<noteq> 0 \<Longrightarrow> evidenced t ''graph_hits''"
  "count_sum OT_GRAPH_MISS ''count'' 1 (tr_evidence t) \<noteq> 0 \<Longrightarrow> evidenced t ''graph_misses''"
  "count_sum OT_KV_LOOKUP ''count'' 1 (tr_evidence t) \<noteq> 0 \<Longrightarrow> evidenced t ''kv_lookups''"
  "count_sum OT_KV_HIT ''count'' 1 (tr_evidence t) \<noteq> 0 \<Longrightarrow> evidenced t ''kv_hits''"
  "count_sum OT_KV_MISS ''count'' 1 (tr_evidence t) \<noteq> 0 \<Longrightarrow> evidenced t ''kv_misses''"
  "count_sum OT_SPECULATION_START ''spec_tokens'' 1 (tr_evidence t) \<noteq> 0 \<Longrightarrow> evidenced t ''spec_proposed''"
  "count_sum OT_SPECULATION_VERIFY ''accepted_tokens'' 0 (tr_evidence t) \<noteq> 0 \<Longrightarrow> evidenced t ''spec_accepted''"
  "count_sum OT_SPECULATION_VERIFY ''rejected_tokens'' 0 (tr_evidence t) \<noteq> 0 \<Longrightarrow> evidenced t ''spec_rejected''"
  by (blast dest: count_sum_pos intro: evidence_rules)+

lemma cache_has:
  assumes "attr_has m (attribute_cache t a)" and "counts_zero a"
  shows "attr_has m a \<or> evidenced t m"
proof -
  have "attr_has m (fold cache_step (tr_evidence t) a) \<or> evidenced t m"
    by (rule marks_evidenced [OF assms(1) [unfolded attribute_cache_def Let_def]])
       (use assms(2) in \<open>simp add: word_gt_0 fold_cache_counts counts_zero_def count_evidenced\<close>)
  then show ?thesis by (simp add: attr_has_def)
qed

lemma speculation_has:
  assumes "attr_has m (attribute_speculation t a)" and "spec_zero a"
  shows "attr_has m a \<or> evidenced t m"
proof -
  have "attr_has m (fold spec_step (tr_evidence t) a) \<or> evidenced t m"
    by (rule marks_evidenced [OF assms(1) [unfolded attribute_speculation_def Let_def]])
       (use assms(2) in \<open>simp add: word_gt_0 fold_spec_counts spec_zero_def count_evidenced\<close>)
  then show ?thesis by (simp add: attr_has_def)
qed

lemma token_fold:
  "at_decode_steps (fold token_step obs a) \<noteq> 0 \<Longrightarrow>
     at_decode_steps a \<noteq> 0 \<or> (\<exists>ob \<in> set obs. o_type ob = OT_DECODE_STEP_START)"
  "at_input_tokens (fold token_step obs a) \<noteq> 0 \<Longrightarrow> at_input_tokens a \<noteq> 0 \<or>
     (\<exists>ob \<in> set obs. o_type ob \<in> {OT_REQUEST, OT_PREFILL_START} \<and> has_field ob ''input_tokens'')"
  "at_output_tokens (fold token_step obs a) \<noteq> 0 \<Longrightarrow> at_output_tokens a \<noteq> 0 \<or>
     (\<exists>ob \<in> set obs. o_type ob = OT_DECODE_STEP_START \<and> has_field ob ''output_tokens'')"
proof (induction obs arbitrary: a)
  case (Cons ob obs)
  have none: "u64_field ob k 0 = 0" if "\<not> has_field ob k" for k
    using that by (simp add: has_field_def u64_field_def)
  { case 1
    then show ?case using Cons.IH(1) [of "token_step ob a"]
      by (auto simp: token_step_if split: if_splits) }
  { case 2
    then show ?case using Cons.IH(2) [of "token_step ob a"] none [of "''input_tokens''"]
      by (auto simp: token_step_if max_def split: if_splits) }
  { case 3
    then show ?case using Cons.IH(3) [of "token_step ob a"] none [of "''output_tokens''"]
      by (auto simp: token_step_if max_def split: if_splits) }
qed simp_all

lemma tokens_has:
  assumes "attr_has m (attribute_tokens t a)"
  shows "attr_has m a \<or> evidenced t m"
proof -
  let ?f = "fold token_step (tr_evidence t) (a\<lparr>at_decode_steps := 0, at_input_tokens := 0, at_output_tokens := 0\<rparr>)"
  note f = token_fold [of "tr_evidence t" "a\<lparr>at_decode_steps := 0, at_input_tokens := 0, at_output_tokens := 0\<rparr>"]
  have "evidenced t ''decode_steps''" "evidenced t ''inter_token_ms''" if "at_decode_steps ?f \<noteq> 0"
    using f(1) [OF that] by (force intro: evidence_rules)+
  moreover have "evidenced t ''input_tokens''" if "at_input_tokens ?f \<noteq> 0"
    using f(2) [OF that] by (force intro: evidence_rules)
  moreover have "evidenced t ''output_tokens''" if "at_output_tokens ?f \<noteq> 0"
    using f(3) [OF that] by (force intro: evidence_rules)
  moreover have "attr_has m ?f = attr_has m a" "attr_has m (?f\<lparr>at_inter_token_ms := x\<rparr>) = attr_has m a" for x
    by (rule attr_has_cong; simp)+
  ultimately show ?thesis
    using assms unfolding attribute_tokens_def Let_def
    by (simp add: word_gt_0 del: list.inject split: if_split_asm)
qed

lemma tokens_keep:
  "at_bytes_h2d (attribute_tokens t a) = at_bytes_h2d a"
  "at_bytes_d2h (attribute_tokens t a) = at_bytes_d2h a"
  "at_bytes_inter_node (attribute_tokens t a) = at_bytes_inter_node a"
  "at_bytes_kv (attribute_tokens t a) = at_bytes_kv a"
  "at_kernel_hits (attribute_tokens t a) = at_kernel_hits a"
  "at_kernel_misses (attribute_tokens t a) = at_kernel_misses a"
  "at_kv_lookups (attribute_tokens t a) = at_kv_lookups a"
  "at_kv_hits (attribute_tokens t a) = at_kv_hits a" "at_kv_misses (attribute_tokens t a) = at_kv_misses a"
  "at_spec_proposed (attribute_tokens t a) = at_spec_proposed a"
  "at_spec_accepted (attribute_tokens t a) = at_spec_accepted a"
  "at_spec_rejected (attribute_tokens t a) = at_spec_rejected a"
  "at_total_latency (attribute_tokens t a) = at_total_latency a"
  "at_queue_time (attribute_tokens t a) = at_queue_time a"
  by (simp_all add: attribute_tokens_def Let_def)

lemma h2d_marked:
  assumes "tr_evidence t \<noteq> []"
  shows "attr_has ''bytes_h2d'' (attribute_resources t)"
proof -
  have "attr_has ''bytes_h2d'' (attribute_bytes t a)" for a
    using assms by (simp add: attribute_bytes_def Let_def)
  moreover have "attr_has ''bytes_h2d'' (attribute_cache t a) = attr_has ''bytes_h2d'' a" for a
    by (simp add: attribute_cache_def Let_def) (simp add: attr_has_def)
  moreover have "attr_has ''bytes_h2d'' (attribute_speculation t a) = attr_has ''bytes_h2d'' a" for a
    by (simp add: attribute_speculation_def Let_def) (simp add: attr_has_def)
  moreover have "attr_has ''bytes_h2d'' (attribute_tokens t a) = attr_has ''bytes_h2d'' a" for a
    by (simp add: attribute_tokens_def Let_def) (simp add: attr_has_def)
  ultimately show ?thesis by (simp add: attribute_resources_def)
qed

lemma h2d_number: "at_bytes_h2d (attribute_resources t) = sum_u64 t ''bytes_h2d''"
  unfolding attribute_resources_def tokens_keep
  by (simp add: attribute_speculation_def attribute_cache_def attribute_bytes_def Let_def)

subsection \<open>Properties\<close>

text \<open>C38: Attribution invents nothing, with one exception: a metric other than the bytes moved to the device
  is marked available only if its phase exists or the evidence holds an observation of the kind
  that metric is read from. The exception is \<open>bytes_h2d\<close>, which the code marks available whenever there is any
  evidence (\<open>h2d_always_available\<close>).\<close>

theorem available_is_evidenced:
  assumes "attr_has m (attribute_resources t)" and "m \<noteq> ''bytes_h2d''"
  shows "evidenced t m"
proof -
  have zero: "counts_zero empty_attribution" "spec_zero empty_attribution"
    by (simp_all add: counts_zero_def spec_zero_def empty_attribution_def)
  have "\<not> attr_has m empty_attribution" by (simp add: attr_has_def empty_attribution_def)
  moreover have "at_cpu_exec_time (attribute_times t empty_attribution) = 0"
    by (simp add: attribute_times_def empty_attribution_def)
  ultimately show ?thesis
    using assms unfolding attribute_resources_def
    by (auto simp: stage_counts zero dest!: tokens_has speculation_has cache_has bytes_has exec_has times_has)
qed

definition sample_trace :: request_trace where
  "sample_trace = (new_trace (Id128 1 1))\<lparr>tr_evidence := [sample_observation]\<rparr>"

definition gpu_trace :: request_trace where
  "gpu_trace = sample_trace\<lparr>tr_evidence := [sample_observation\<lparr>o_fields := [(''gpu_ms'', FvF64 (f64_zero False))]\<rparr>]\<rparr>"

lemma later_stages_keep:
  assumes "attr_has ''gpu_exec'' a"
  shows "attr_has ''gpu_exec'' (attribute_tokens t (attribute_speculation t (attribute_cache t (attribute_bytes t a))))"
proof -
  have "attr_has ''gpu_exec'' (attribute_bytes t b) = attr_has ''gpu_exec'' b" for b
    by (simp add: attribute_bytes_def Let_def) (simp add: attr_has_def)
  moreover have "attr_has ''gpu_exec'' (attribute_cache t b) = attr_has ''gpu_exec'' b" for b
    by (simp add: attribute_cache_def Let_def) (simp add: attr_has_def)
  moreover have "attr_has ''gpu_exec'' (attribute_speculation t b) = attr_has ''gpu_exec'' b" for b
    by (simp add: attribute_speculation_def Let_def) (simp add: attr_has_def)
  moreover have "attr_has ''gpu_exec'' (attribute_tokens t b) = attr_has ''gpu_exec'' b" for b
    by (simp add: attribute_tokens_def Let_def) (simp add: attr_has_def)
  ultimately show ?thesis using assms by simp
qed

theorem available_is_evidenced_witness:
  "attr_has ''gpu_exec'' (attribute_resources gpu_trace) \<and> evidenced gpu_trace ''gpu_exec''"
proof
  have "attr_has ''gpu_exec'' (attribute_exec gpu_trace a)" for a
    by (simp add: attribute_exec_eq gpu_trace_def exec_step_def has_field_def Let_def)
  then show has: "attr_has ''gpu_exec'' (attribute_resources gpu_trace)"
    unfolding attribute_resources_def by (rule later_stages_keep)
  show "evidenced gpu_trace ''gpu_exec''" by (rule available_is_evidenced [OF has]) simp
qed

text \<open>The counters of an attribution are the 64-bit sums over the evidence: bytes over every
  observation that carries the field, cache and speculation counts over the observations of
  their type.\<close>

theorem attribution_counts:
  "let a = attribute_resources t; obs = tr_evidence t
   in at_bytes_h2d a = (\<Sum>ob \<leftarrow> obs. u64_field ob ''bytes_h2d'' 0) \<and>
      at_bytes_d2h a = (\<Sum>ob \<leftarrow> obs. u64_field ob ''bytes_d2h'' 0) \<and>
      at_bytes_inter_node a = (\<Sum>ob \<leftarrow> obs. u64_field ob ''bytes_inter_node'' 0) \<and>
      at_bytes_kv a = (\<Sum>ob \<leftarrow> obs. u64_field ob ''bytes_kv'' 0) \<and>
      at_kernel_hits a = count_sum OT_KERNEL_HIT ''count'' 1 obs \<and>
      at_kernel_misses a = count_sum OT_KERNEL_MISS ''count'' 1 obs \<and>
      at_kv_lookups a = count_sum OT_KV_LOOKUP ''count'' 1 obs \<and>
      at_kv_hits a = count_sum OT_KV_HIT ''count'' 1 obs \<and>
      at_kv_misses a = count_sum OT_KV_MISS ''count'' 1 obs \<and>
      at_spec_proposed a = count_sum OT_SPECULATION_START ''spec_tokens'' 1 obs \<and>
      at_spec_accepted a = count_sum OT_SPECULATION_VERIFY ''accepted_tokens'' 0 obs \<and>
      at_spec_rejected a = count_sum OT_SPECULATION_VERIFY ''rejected_tokens'' 0 obs \<and>
      at_total_latency a = phase_dur t PH_TOTAL \<and> at_queue_time a = phase_dur t PH_QUEUE"
proof -
  have exec: "at_total_latency (attribute_exec t a) = at_total_latency a"
    "at_queue_time (attribute_exec t a) = at_queue_time a" for a
    by (simp_all add: attribute_exec_eq split: prod.split)
  have zero: "counts_zero (attribute_bytes t (attribute_exec t (attribute_times t empty_attribution)))"
    "spec_zero (attribute_cache t (attribute_bytes t (attribute_exec t (attribute_times t empty_attribution))))"
    by (simp_all add: stage_counts) (simp_all add: counts_zero_def spec_zero_def empty_attribution_def)
  then show ?thesis
    unfolding Let_def attribute_resources_def tokens_keep
    by (simp add: attribute_speculation_def attribute_cache_def fold_cache_counts fold_spec_counts
          counts_zero_def spec_zero_def)
       (simp add: attribute_bytes_def exec sum_u64_list attribute_times_def)
qed

text \<open>The transfer to the device is marked measured and available whenever there is any
  evidence, also if no observation carries its field; the number is then zero.\<close>

theorem h2d_always_available:
  assumes "tr_evidence t \<noteq> []" and "\<forall>ob \<in> set (tr_evidence t). \<not> has_field ob ''bytes_h2d''"
  shows "attr_has ''bytes_h2d'' (attribute_resources t) \<and> at_bytes_h2d (attribute_resources t) = 0"
  using h2d_marked [OF assms(1)] h2d_number [of t] sum_u64_pos [of t "''bytes_h2d''"] assms(2) by auto

theorem h2d_always_available_witness:
  "attr_has ''bytes_h2d'' (attribute_resources (sample_trace\<lparr>tr_evidence := [default_observation]\<rparr>)) \<and>
   at_bytes_h2d (attribute_resources (sample_trace\<lparr>tr_evidence := [default_observation]\<rparr>)) = 0"
  by (rule h2d_always_available) (simp_all add: has_field_def default_observation_def)

end
