(* ===== verification/FloatExact.thy ===== *)
theory FloatExact
  imports Binary64
begin

section \<open>Double arithmetic that is exact\<close>

text \<open>
  Which results of \<open>Binary64\<close> are exact: integers below $2^{53}$, their halves and further
  binary fractions, and what converting them back gives. The lemmas carry the properties about
  percentiles and percentages.
\<close>

definition f64_finite :: "f64 \<Rightarrow> bool" where
  "f64_finite b = (f64_expo b < 2047)"

lemma f64_finite_simps: "f64_finite b \<Longrightarrow> \<not> f64_is_nan b" "f64_finite b \<Longrightarrow> \<not> f64_is_inf b"
  by (simp_all add: f64_finite_def f64_is_nan_def f64_is_inf_def)

text \<open>The parts of a bit pattern put together.\<close>

lemma f64_parts:
  assumes "e < 2048" and "fr < 2 ^ 52"
  defines "b \<equiv> (of_nat (e * 2 ^ 52 + fr) :: f64)"
  shows "f64_expo b = e" "f64_frac b = fr" "\<not> f64_neg b"
proof -
  have lt: "e * 2 ^ 52 + fr < 2 ^ 63"
  proof -
    have "e * 2 ^ 52 + fr < e * 2 ^ 52 + 2 ^ 52" using assms(2) by simp
    also have "\<dots> = Suc e * 2 ^ 52" by simp
    also have "\<dots> \<le> 2048 * 2 ^ 52" using assms(1) by (intro mult_right_mono) auto
    finally show ?thesis by simp
  qed
  then have u: "unat b = e * 2 ^ 52 + fr"
    unfolding b_def by (simp only: unat_of_nat take_bit_eq_mod) (rule mod_less, simp)
  have "unat (drop_bit 52 b) = (e * 2 ^ 52 + fr) div 2 ^ 52"
    by (simp only: unat_drop_bit_eq u) (simp add: drop_bit_eq_div)
  also have "\<dots> = e" using assms(2) by simp
  finally show "f64_expo b = e" using assms(1) by (simp add: f64_expo_def)
  show "f64_frac b = fr" using assms(2) by (simp add: f64_frac_def u)
  have "bit b 63 = bit (unat b) 63" by (simp add: bit_unsigned_iff)
  also have "\<dots> = odd (unat b div 2 ^ 63)" by (simp add: bit_iff_odd)
  also have "unat b div 2 ^ 63 = 0" using lt u by simp
  finally show "\<not> f64_neg b" by (simp add: f64_neg_def)
qed

text \<open>A number of at most 53 bits, at any binary scale the exponent reaches, is a double.\<close>

lemma f64_exists:
  assumes n: "0 < n" "n < 2 ^ 53" and j: "53 \<le> j" "j \<le> 2045"
  obtains b where "f64_finite b" "\<not> f64_neg b" "f64_mag b = n * 2 ^ j"
proof -
  have len: "bit_length n \<le> 53" using n(2) by (rule bit_length_le)
  define c where "c = 53 - bit_length n"
  define m where "m = n * 2 ^ c"
  have "bit_length m = 53" using n(1) len by (simp add: m_def c_def bit_length_mult_power)
  moreover have "bit_length m \<le> 52" if "m < 2 ^ 52" using that by (rule bit_length_le)
  ultimately have lo: "2 ^ 52 \<le> m" by (metis Suc_n_not_le_n linorder_not_le eval_nat_numeral(3))
  have hi: "m < 2 ^ 53"
  proof (rule ccontr)
    assume "\<not> m < 2 ^ 53"
    then have "Suc 53 \<le> bit_length m" by (intro bit_length_ge) simp
    then show False using \<open>bit_length m = 53\<close> by simp
  qed
  have cj: "c \<le> j" using j(1) by (simp add: c_def)
  let ?b = "of_nat ((j - c + 1) * 2 ^ 52 + (m - 2 ^ 52)) :: f64"
  have parts: "f64_expo ?b = j - c + 1" "f64_frac ?b = m - 2 ^ 52" "\<not> f64_neg ?b"
    by (rule f64_parts; use j(2) hi lo in simp)+
  have "f64_mag ?b = m * 2 ^ (j - c)"
    using parts lo by (simp add: f64_mag_def)
  also have "\<dots> = n * 2 ^ j"
    using cj by (simp add: m_def mult.assoc flip: power_add)
  finally show ?thesis
    using parts j(2) by (intro that [of ?b]) (simp_all add: f64_finite_def)
qed

lemma round_half_even_scale: "0 < c \<Longrightarrow> round_half_even (c * a) (c * b) = round_half_even a b"
proof -
  assume c: "0 < c"
  have q: "c * a div (c * b) = a div b" using c by (intro div_mult_mult1) simp
  have r: "2 * (c * a mod (c * b)) = c * (2 * (a mod b))"
    by (simp only: mult_mod_right [symmetric] mult.left_commute)
  have "c * b < c * (2 * (a mod b)) \<longleftrightarrow> b < 2 * (a mod b)"
    "c * (2 * (a mod b)) = c * b \<longleftrightarrow> 2 * (a mod b) = b"
    using c by (simp_all only: mult_less_cancel1 mult_cancel1) auto
  then show ?thesis using c by (simp add: round_half_even_def Let_def q r)
qed

lemma f64_round_scale: "0 < c \<Longrightarrow> f64_round s (c * n) (c * d) = f64_round s n d"
proof -
  assume c: "0 < c"
  have q: "c * n * 2 ^ 1074 div (c * d) = n * 2 ^ 1074 div d"
    unfolding mult.assoc using c by (intro div_mult_mult1) simp
  have r: "round_half_even (c * n * 2 ^ 1074) (c * d * 2 ^ k) = round_half_even (n * 2 ^ 1074) (d * 2 ^ k)" for k
    by (simp only: mult.assoc round_half_even_scale [OF c])
  show ?thesis by (simp only: f64_round_def Let_def q r)
qed

text \<open>Rounding \<open>n / 2 ^ i\<close>, for \<open>n\<close> of at most 53 bits, is exact.\<close>

lemma f64_round_dyadic:
  assumes n: "0 < n" "n < 2 ^ 53" and i: "i \<le> 1021"
  shows "f64_finite (f64_round False n (2 ^ i))" "\<not> f64_neg (f64_round False n (2 ^ i))"
    "f64_mag (f64_round False n (2 ^ i)) = n * 2 ^ (1074 - i)"
proof -
  obtain b where b: "f64_finite b" "\<not> f64_neg b" "f64_mag b = n * 2 ^ (1074 - i)"
    by (rule f64_exists [OF n, of "1074 - i"]) (use i in simp_all)
  have "f64_round False n (2 ^ i) = f64_round False (2 ^ (1074 - i) * n) (2 ^ (1074 - i) * 2 ^ i)"
    by (rule f64_round_scale [symmetric]) simp
  also have "\<dots> = f64_round (f64_neg b) (f64_mag b * 1) (1 * 2 ^ 1074)"
    using b(2,3) i by (simp add: mult.commute flip: power_add)
  also have "\<dots> = b"
    using b(1) by (intro f64_round_representable) (simp_all add: f64_finite_def)
  finally show "f64_finite (f64_round False n (2 ^ i))" "\<not> f64_neg (f64_round False n (2 ^ i))"
    "f64_mag (f64_round False n (2 ^ i)) = n * 2 ^ (1074 - i)"
    using b by simp_all
qed

lemma f64_of_nat_exact:
  assumes "0 < n" and "n < 2 ^ 53"
  shows "f64_finite (f64_of_nat n)" "\<not> f64_neg (f64_of_nat n)" "f64_mag (f64_of_nat n) = n * 2 ^ 1074"
  using f64_round_dyadic [OF assms, of 0] by (simp_all add: f64_of_nat_def)

subsection \<open>Evaluating a rounding\<close>

text \<open>With the binary magnitude of the quotient known, a rounding is one division.\<close>

lemma bit_length_eq: "2 ^ k \<le> n \<Longrightarrow> n < 2 ^ Suc k \<Longrightarrow> bit_length n = Suc k"
  using bit_length_ge bit_length_le le_antisym by blast

lemma f64_round_eval:
  assumes "sh \<le> 1074" and "0 < d" and "2 ^ 52 * d \<le> n * 2 ^ (1074 - sh)" and "n * 2 ^ (1074 - sh) < 2 ^ 53 * d"
  shows "f64_round s n d = of_nat (f64_sign_bit s +
    min f64_inf_bits (sh * 2 ^ 52 + round_half_even (n * 2 ^ (1074 - sh)) d))"
proof -
  let ?a = "n * 2 ^ (1074 - sh)"
  have units: "n * 2 ^ 1074 = 2 ^ sh * ?a"
    using assms(1) by (simp add: mult.left_commute flip: power_add)
  have "2 ^ (sh + 52) * d \<le> 2 ^ sh * ?a"
    unfolding power_add mult.assoc using assms(3) by (intro mult_left_mono) simp_all
  then have lo: "2 ^ (sh + 52) \<le> (2 ^ sh * ?a) div d"
    using assms(2) by (simp only: less_eq_div_iff_mult_less_eq)
  have "2 ^ sh * ?a < 2 ^ sh * (2 ^ 53 * d)"
    using assms(4) by (intro mult_strict_left_mono) simp_all
  then have hi: "(2 ^ sh * ?a) div d < 2 ^ Suc (sh + 52)"
    using assms(2) by (simp only: div_less_iff_less_mult) (simp add: power_add ac_simps)
  have shift: "bit_length ((2 ^ sh * ?a) div d) - 53 = sh"
    unfolding bit_length_eq [OF lo hi] by simp
  have "round_half_even (2 ^ sh * ?a) (d * 2 ^ sh) = round_half_even ?a d"
    by (subst mult.commute [of d]) (rule round_half_even_scale, simp)
  then show ?thesis by (simp only: f64_round_def Let_def units shift)
qed

lemmas f64_eval_simps = f64_sign_bit_def f64_inf_bits_def round_half_even_def

lemmas f64_read_simps = f64_expo_def f64_frac_def f64_neg_def f64_mag_def f64_finite_def drop_bit_eq_div

text \<open>Beyond the largest double, rounding gives infinity.\<close>

lemma bit_length_lower: "0 < n \<Longrightarrow> 2 ^ (bit_length n - 1) \<le> n"
  using bit_length_le [of n "bit_length n - 1"] bit_length_ge [of 0 n] by (cases "bit_length n") force+

lemma shifted_mantissa:
  assumes "0 < d" and "53 \<le> bit_length (u div d)"
  shows "2 ^ 52 \<le> round_half_even u (d * 2 ^ (bit_length (u div d) - 53))"
proof -
  define sh where "sh = bit_length (u div d) - 53"
  have "0 < u div d" using assms(2) by (intro gr0I) simp
  then have "2 ^ (bit_length (u div d) - 1) \<le> u div d" by (rule bit_length_lower)
  moreover have "bit_length (u div d) - 1 = 52 + sh" using assms(2) by (simp add: sh_def)
  ultimately have "2 ^ 52 * 2 ^ sh \<le> u div d" by (simp only: power_add)
  then have "2 ^ 52 * (d * 2 ^ sh) \<le> u"
    using assms(1) by (simp add: less_eq_div_iff_mult_less_eq ac_simps)
  then have "2 ^ 52 \<le> u div (d * 2 ^ sh)" using assms(1) by (simp add: less_eq_div_iff_mult_less_eq)
  then show ?thesis by (simp add: round_half_even_def Let_def sh_def)
qed

lemma f64_round_overflow:
  assumes "2 ^ 1024 * d \<le> n" and "0 < d"
  shows "f64_round s n d = f64_inf s"
proof -
  define k u where "k = (1074 :: nat)" and "u = n * 2 ^ k"
  have "2 ^ (1024 + k) * d \<le> u"
    using mult_le_mono1 [OF assms(1), of "2 ^ k"] by (simp only: u_def power_add ac_simps)
  then have "2 ^ (1024 + k) \<le> u div d" using assms(2) by (simp add: less_eq_div_iff_mult_less_eq)
  then have len: "2099 \<le> bit_length (u div d)" using bit_length_ge by (fastforce simp: k_def simp del: power_Suc)
  have "2 ^ 52 \<le> round_half_even u (d * 2 ^ (bit_length (u div d) - 53))"
    by (rule shifted_mantissa [OF assms(2)]) (use len in simp)
  moreover have "2046 * 2 ^ 52 \<le> (bit_length (u div d) - 53) * 2 ^ 52" using len by (intro mult_le_mono1) simp
  ultimately have "f64_inf_bits \<le> (bit_length (u div d) - 53) * 2 ^ 52 +
      round_half_even u (d * 2 ^ (bit_length (u div d) - 53))"
    by (simp add: f64_inf_bits_def)
  then show ?thesis
    by (simp only: f64_round_def f64_inf_def Let_def min_absorb1 k_def [symmetric] u_def [symmetric])
qed

end
