(* ===== verification/Analysis.thy ===== *)
theory Analysis
  imports Latency Attribution FloatExact
begin

section \<open>Percentiles, explanations and correlation\<close>

text \<open>
  \<^verbatim>\<open>include/servingobs/trace/analysis.hpp\<close> and \<^verbatim>\<open>src/analysis.cpp\<close>: percentiles and tail metrics,
  the explanation of a request and of a tail, grouping and shared factors. The JSON and
  text views are in \<open>Views\<close> and \<open>TextViews\<close>.
\<close>

subsection \<open>Doubles: literals and the square root\<close>

text \<open>A decimal literal is the double nearest to it.\<close>

definition f64_lit :: "nat \<Rightarrow> nat \<Rightarrow> f64" where
  "f64_lit n d = f64_round False n d"

definition hundred :: f64 where
  "hundred = f64_of_nat 100"

fun isqrt :: "nat \<Rightarrow> nat" where
  "isqrt n =
     (if n = 0 then 0
      else let r = 2 * isqrt (n div 4) in if (r + 1) * (r + 1) \<le> n then r + 1 else r)"

declare isqrt.simps [simp del]

text \<open>
  \<^verbatim>\<open>std::sqrt\<close> is correctly rounded. A value of \<open>m\<close> units of $2^{-1074}$ has a root of $\sqrt m$
  units of $2^{-537}$; it is computed to 60 binary places and a last digit that says whether
  anything follows, which is enough to round it to 53 digits.
\<close>

definition f64_sqrt :: "f64 \<Rightarrow> f64" where
  "f64_sqrt v =
     (if f64_is_nan v then f64_nan
      else if \<not> f64_is_inf v \<and> f64_mag v = 0 then v
      else if f64_neg v then f64_nan
      else if f64_is_inf v then v
      else let m = f64_mag v * 4 ^ 60; r = isqrt m
           in f64_round False (2 * r + (if r * r = m then 0 else 1)) (2 ^ 598))"

subsection \<open>Percentiles and tail metrics\<close>

text \<open>
  The rank is computed in double arithmetic and converted to an index; C++ leaves the conversion
  undefined for a rank that no \<^verbatim>\<open>size_t\<close> holds, where the model reduces modulo $2^{64}$.
\<close>

definition percentile_rank :: "f64 \<Rightarrow> nat \<Rightarrow> f64" where
  "percentile_rank p n = f64_mul (f64_div p hundred) (f64_of_nat n)"

definition percentile_of :: "u64 list \<Rightarrow> f64 \<Rightarrow> u64" where
  "percentile_of values p =
     (if values = [] then 0
      else let v = sort values;
               idx = unat (word_of_int (f64_ceil (percentile_rank p (length v))) :: u64);
               idx1 = (if idx < 1 then 1 else idx);
               idx2 = (if length v < idx1 then length v else idx1)
           in v ! (idx2 - 1))"

record tail_metrics =
  tm_count :: u64
  tm_min_ns :: u64
  tm_max_ns :: u64
  tm_p50_ns :: u64
  tm_p90_ns :: u64
  tm_p95_ns :: u64
  tm_p99_ns :: u64
  tm_p999_ns :: u64
  tm_mean_ns :: f64
  tm_stddev_ns :: f64

definition empty_metrics :: tail_metrics where [defaults]:
  "empty_metrics = \<lparr>tm_count = 0, tm_min_ns = 0, tm_max_ns = 0, tm_p50_ns = 0, tm_p90_ns = 0,
     tm_p95_ns = 0, tm_p99_ns = 0, tm_p999_ns = 0, tm_mean_ns = f64_zero False,
     tm_stddev_ns = f64_zero False\<rparr>"

definition f64_mean :: "u64 list \<Rightarrow> f64" where
  "f64_mean xs =
     f64_div (foldl (\<lambda>sum v. f64_add sum (f64_of_u64 v)) (f64_zero False) xs) (f64_of_nat (length xs))"

definition f64_stddev :: "u64 list \<Rightarrow> f64" where
  "f64_stddev xs =
     f64_sqrt (f64_div
       (foldl (\<lambda>ss v. let d = f64_sub (f64_of_u64 v) (f64_mean xs) in f64_add ss (f64_mul d d))
          (f64_zero False) xs)
       (f64_of_nat (length xs)))"

definition tail_metrics_of :: "u64 list \<Rightarrow> tail_metrics" where
  "tail_metrics_of xs =
     (if xs = [] then empty_metrics
      else \<lparr>tm_count = of_nat (length xs), tm_min_ns = Min (set xs), tm_max_ns = Max (set xs),
            tm_p50_ns = percentile_of xs (f64_of_nat 50), tm_p90_ns = percentile_of xs (f64_of_nat 90),
            tm_p95_ns = percentile_of xs (f64_of_nat 95), tm_p99_ns = percentile_of xs (f64_of_nat 99),
            tm_p999_ns = percentile_of xs (f64_lit 999 10),
            tm_mean_ns = f64_mean xs, tm_stddev_ns = f64_stddev xs\<rparr>)"

subsection \<open>The explanation of a request\<close>

record explanation_statement =
  s_claim :: string
  s_cls :: explanation_class
  s_provenance :: provenance
  s_evidence :: string
  s_phase :: string
  s_severity :: f64

record explanation =
  x_request_id :: request_id
  x_breakdown :: latency_breakdown
  x_attribution :: resource_attribution
  x_statements :: "explanation_statement list"

definition stmt :: "string \<Rightarrow> explanation_class \<Rightarrow> provenance \<Rightarrow> string \<Rightarrow> string \<Rightarrow> f64 \<Rightarrow> explanation_statement" where
  "stmt claim cls prov ev ph sev =
     \<lparr>s_claim = claim, s_cls = cls, s_provenance = prov, s_evidence = ev, s_phase = ph, s_severity = sev\<rparr>"

text \<open>\<open>None\<close> never comes (\<open>decompose_latency_total\<close>).\<close>

definition breakdown_of :: "request_trace \<Rightarrow> latency_breakdown" where
  "breakdown_of t = (case decompose_latency t of Some b \<Rightarrow> b | None \<Rightarrow> empty_breakdown)"

definition total_or_one :: "latency_breakdown \<Rightarrow> f64" where
  "total_or_one b = (if b_total_ns b \<noteq> 0 then f64_of_u64 (b_total_ns b) else f64_of_nat 1)"

text \<open>\<^verbatim>\<open>std::to_string(static_cast<int>(frac * 100.0))\<close>, where the value fits an \<^verbatim>\<open>int\<close>.\<close>

definition percent_text :: "f64 \<Rightarrow> string" where
  "percent_text frac = to_string_int (f64_trunc (f64_mul frac hundred))"

definition path_class :: "bool \<Rightarrow> explanation_class" where
  "path_class on_path = (if on_path then EC_STRUCTURALLY_DERIVED else EC_TEMPORALLY_CORRELATED)"

definition component_statements :: "f64 \<Rightarrow> latency_component \<Rightarrow> explanation_statement list" where
  "component_statements tot c =
     (if l_duration_ns c = 0 \<and> l_exclusive_ns c = 0 then []
      else let frac = f64_div (f64_of_u64 (l_exclusive_ns c)) tot
           in [stmt (''phase '' @ l_name c @ '' accounts for '' @ percent_text frac @ ''% of latency'')
                 (path_class (l_on_critical_path c)) (l_provenance c)
                 (''exclusive_ns='' @ to_string_word (l_exclusive_ns c)) (l_name c) frac])"

definition epoch_range_text :: "request_trace \<Rightarrow> string" where
  "epoch_range_text t = to_string_word (tr_min_epoch t) @ ''..'' @ to_string_word (tr_max_epoch t)"

definition boot_statements :: "request_trace \<Rightarrow> explanation_statement list" where
  "boot_statements t =
     (if 1 < length (tr_boots t)
      then [stmt (''request spans '' @ dec_string (length (tr_boots t)) @
                    '' worker boots (worker restart/failover)'')
              EC_DIRECTLY_EVIDENCED PV_MEASURED
              (''boots='' @ dec_string (length (tr_boots t)) @ '' epochs='' @ epoch_range_text t)
              ''recovery'' (f64_zero False)]
      else [])"

definition epoch_statements :: "request_trace \<Rightarrow> explanation_statement list" where
  "epoch_statements t =
     (if tr_spans_multiple_epochs t
      then [stmt (''request spans multiple coordinator epochs (epoch '' @ epoch_range_text t @ '')'')
              EC_DIRECTLY_EVIDENCED PV_MEASURED [] ''total'' (f64_zero False)]
      else [])"

definition observation_statements :: "observation \<Rightarrow> explanation_statement list" where
  "observation_statements ob =
     (let direct = (\<lambda>claim ev ph. [stmt claim EC_DIRECTLY_EVIDENCED (o_provenance ob) ev ph (f64_zero False)])
      in if o_type ob = OT_RETRY
         then direct (''a retry occurred ('' @ str_field ob ''reason'' [] @ '')'')
                (''retry '' @ to_hex (o_id ob)) ''retry''
         else if o_type ob = OT_FAILURE
         then direct (''a failure occurred ('' @ str_field ob ''reason'' [] @ '')'')
                (''failure '' @ to_hex (o_id ob)) ''retry''
         else if o_type ob = OT_WORKER_RESTART
         then direct ''a worker restart occurred'' (''boot='' @ to_hex (o_boot ob)) ''recovery''
         else if o_type ob = OT_MODEL_RESIDENCY \<and> \<not> bool_field ob ''is_warm'' True
         then direct ''model was cold (not resident)''
                (''model='' @ to_hex (id_field ob ''model_id'')) ''prefill''
         else if o_type ob = OT_ADAPTER_RESIDENCY \<and> \<not> bool_field ob ''is_warm'' True
         then direct ''adapter was cold (not resident)''
                (''adapter='' @ to_hex (id_field ob ''adapter_id'')) ''prefill''
         else [])"

definition kv_statements :: "resource_attribution \<Rightarrow> explanation_statement list" where
  "kv_statements a =
     (if 0 < at_kv_lookups a
      then let ratio = f64_div (f64_of_u64 (at_kv_hits a)) (f64_of_u64 (at_kv_lookups a))
           in if f64_lt ratio (f64_lit 5 10)
              then [stmt (''low KV reuse (hit ratio '' @ percent_text ratio @ ''%)'')
                      EC_STRUCTURALLY_DERIVED PV_DERIVED
                      (''kv_hits='' @ to_string_word (at_kv_hits a) @ '' kv_lookups='' @
                         to_string_word (at_kv_lookups a)) ''prefill'' (f64_zero False)]
              else []
      else [])"

definition queue_statements :: "f64 \<Rightarrow> resource_attribution \<Rightarrow> explanation_statement list" where
  "queue_statements tot a =
     (if attr_has ''queue'' a \<and> 0 < at_queue_time a
      then let qfrac = f64_div (f64_of_u64 (at_queue_time a)) tot
           in [stmt (''queueing contributed '' @ percent_text qfrac @ ''%'') EC_STRUCTURALLY_DERIVED
                 (attr_prov ''queue'' a) (''queue_ns='' @ to_string_word (at_queue_time a)) ''queue'' qfrac]
      else [])"

definition gap_statements :: "f64 \<Rightarrow> latency_breakdown \<Rightarrow> explanation_statement list" where
  "gap_statements tot b =
     (if 0 < b_gap_ns b
      then let gfrac = f64_div (f64_of_u64 (b_gap_ns b)) tot
           in [stmt (''unattributed latency '' @ percent_text gfrac @ ''%'') EC_TEMPORALLY_CORRELATED
                 PV_UNKNOWN (''gap_ns='' @ to_string_word (b_gap_ns b)) ''total'' gfrac]
      else [])"

definition outcome_statements :: "request_trace \<Rightarrow> explanation_statement list" where
  "outcome_statements t =
     (if tr_outcome t \<noteq> OC_UNKNOWN
      then [stmt (''terminal outcome '' @ outcome_name (tr_outcome t)) EC_DIRECTLY_EVIDENCED PV_MEASURED
              (tr_terminal_reason t) ''completion'' (f64_zero False)]
      else [])"

text \<open>The statements in the order the code adds them.\<close>

definition explain_request :: "request_trace \<Rightarrow> explanation" where
  "explain_request t =
     (let b = breakdown_of t; a = attribute_resources t; tot = total_or_one b
      in \<lparr>x_request_id = tr_request_id t, x_breakdown = b, x_attribution = a,
          x_statements =
            concat (map (component_statements tot) (b_components b)) @
            boot_statements t @ epoch_statements t @
            concat (map observation_statements (tr_evidence t)) @
            kv_statements a @ queue_statements tot a @ gap_statements tot b @ outcome_statements t\<rparr>)"

subsection \<open>The explanation of a tail\<close>

record tail_factor =
  tf_name :: string
  tf_severity :: f64
  tf_cls :: explanation_class
  tf_note :: string

record tail_explanation =
  te_request_id :: request_id
  te_latency_ns :: u64
  te_metrics :: tail_metrics
  te_factors :: "tail_factor list"

text \<open>The latency of a trace: the total, with no check that it ends after it starts.\<close>

definition trace_latency :: "request_trace \<Rightarrow> u64" where
  "trace_latency t =
     (let i = get_phase PH_TOTAL (tr_phases t) in if p_exists i then p_end i - p_start i else 0)"

definition component_factors :: "f64 \<Rightarrow> latency_component \<Rightarrow> tail_factor list" where
  "component_factors tot c =
     (if l_name c = ''arrival'' \<or> l_name c = ''completion'' \<or> l_name c = ''admission'' then []
      else let frac = f64_div (f64_of_u64 (l_exclusive_ns c)) tot
           in if f64_lt frac (f64_lit 5 100) then []
              else [\<lparr>tf_name = l_name c, tf_severity = frac, tf_cls = path_class (l_on_critical_path c),
                     tf_note = ''exclusive_ns='' @ to_string_word (l_exclusive_ns c) @ '' prov='' @
                       provenance_name (l_provenance c)\<rparr>])"

definition observation_factors :: "observation \<Rightarrow> tail_factor list" where
  "observation_factors ob =
     (let factor = (\<lambda>name note. [\<lparr>tf_name = name, tf_severity = f64_zero False,
                                   tf_cls = EC_DIRECTLY_EVIDENCED, tf_note = note\<rparr>])
      in if o_type ob = OT_RETRY then factor ''retry'' (str_field ob ''reason'' [])
         else if o_type ob = OT_MODEL_RESIDENCY \<and> \<not> bool_field ob ''is_warm'' True
         then factor ''cold_model'' ''cold''
         else [])"

definition explain_one_tail :: "tail_metrics \<Rightarrow> request_trace \<Rightarrow> tail_explanation" where
  "explain_one_tail metrics t =
     (let b = breakdown_of t
      in \<lparr>te_request_id = tr_request_id t, te_latency_ns = trace_latency t, te_metrics = metrics,
          te_factors =
            concat (map (component_factors (total_or_one b)) (b_components b)) @
            (if 1 < length (tr_boots t)
             then [\<lparr>tf_name = ''worker_restart'', tf_severity = f64_zero False, tf_cls = EC_DIRECTLY_EVIDENCED,
                    tf_note = ''boots='' @ dec_string (length (tr_boots t))\<rparr>] else []) @
            concat (map observation_factors (tr_evidence t))\<rparr>)"

text \<open>Slowest first; \<^verbatim>\<open>std::sort\<close> leaves the order of equal latencies open.\<close>

definition slower :: "request_trace \<Rightarrow> request_trace \<Rightarrow> bool" where
  "slower a b = (trace_latency b < trace_latency a)"

interpretation slower_order: sort_order slower
  by unfold_locales (auto simp: slower_def)

definition explain_tail :: "request_trace list \<Rightarrow> f64 \<Rightarrow> tail_explanation list" where
  "explain_tail traces percentile =
     (let lats = map trace_latency traces; m = tail_metrics_of lats;
          threshold = percentile_of lats percentile
      in map (explain_one_tail m)
           (filter (\<lambda>t. threshold \<le> trace_latency t) (cpp_sort slower traces)))"

subsection \<open>Correlation\<close>

record group_acc =
  ga_count :: u64
  ga_total :: u64
  ga_retries :: u64
  ga_restarts :: u64
  ga_kvh :: u64
  ga_kvm :: u64
  ga_kh :: u64
  ga_km :: u64
  ga_lats :: "u64 list"

definition empty_acc :: group_acc where [defaults]:
  "empty_acc = \<lparr>ga_count = 0, ga_total = 0, ga_retries = 0, ga_restarts = 0, ga_kvh = 0, ga_kvm = 0,
     ga_kh = 0, ga_km = 0, ga_lats = []\<rparr>"

definition acc_observation :: "observation \<Rightarrow> group_acc \<Rightarrow> group_acc" where
  "acc_observation ob a =
     (case o_type ob of
        OT_RETRY \<Rightarrow> a\<lparr>ga_retries := ga_retries a + 1\<rparr>
      | OT_WORKER_RESTART \<Rightarrow> a\<lparr>ga_restarts := ga_restarts a + 1\<rparr>
      | OT_WORKER_DOWN \<Rightarrow> a\<lparr>ga_restarts := ga_restarts a + 1\<rparr>
      | OT_KV_HIT \<Rightarrow> a\<lparr>ga_kvh := ga_kvh a + 1\<rparr>
      | OT_KV_MISS \<Rightarrow> a\<lparr>ga_kvm := ga_kvm a + 1\<rparr>
      | OT_KERNEL_HIT \<Rightarrow> a\<lparr>ga_kh := ga_kh a + 1\<rparr>
      | OT_KERNEL_MISS \<Rightarrow> a\<lparr>ga_km := ga_km a + 1\<rparr>
      | _ \<Rightarrow> a)"

definition acc_trace :: "request_trace \<Rightarrow> group_acc \<Rightarrow> group_acc" where
  "acc_trace t a =
     fold acc_observation (tr_evidence t)
       (a\<lparr>ga_count := ga_count a + 1, ga_total := ga_total a + trace_latency t,
          ga_lats := ga_lats a @ [trace_latency t]\<rparr>)"

definition accumulate :: "(request_trace \<Rightarrow> string) \<Rightarrow> request_trace \<Rightarrow> (string, group_acc) omap \<Rightarrow>
    (string, group_acc) omap" where
  "accumulate key t acc =
     (let k = key t; a = (case map_of acc k of Some x \<Rightarrow> x | None \<Rightarrow> empty_acc)
      in omap_set k (acc_trace t a) acc)"

record group_summary =
  g_key :: string
  g_count :: u64
  g_total_latency_ns :: u64
  g_p50_ns :: u64
  g_p90_ns :: u64
  g_p99_ns :: u64
  g_total_retries :: u64
  g_restart_exposures :: u64
  g_kv_hits :: u64
  g_kv_misses :: u64
  g_kernel_hits :: u64
  g_kernel_misses :: u64
  g_mean_latency_ns :: f64

definition summarise :: "string \<times> group_acc \<Rightarrow> group_summary" where
  "summarise ka =
     (let a = snd ka
      in \<lparr>g_key = fst ka, g_count = ga_count a, g_total_latency_ns = ga_total a,
          g_p50_ns = percentile_of (ga_lats a) (f64_of_nat 50),
          g_p90_ns = percentile_of (ga_lats a) (f64_of_nat 90),
          g_p99_ns = percentile_of (ga_lats a) (f64_of_nat 99),
          g_total_retries = ga_retries a, g_restart_exposures = ga_restarts a,
          g_kv_hits = ga_kvh a, g_kv_misses = ga_kvm a, g_kernel_hits = ga_kh a, g_kernel_misses = ga_km a,
          g_mean_latency_ns = (if ga_count a \<noteq> 0
            then f64_div (f64_of_u64 (ga_total a)) (f64_of_u64 (ga_count a)) else f64_zero False)\<rparr>)"

definition correlate_by :: "request_trace list \<Rightarrow> (request_trace \<Rightarrow> string) \<Rightarrow> group_summary list" where
  "correlate_by traces key =
     cpp_sort (\<lambda>x y. g_key x < g_key y) (map summarise (fold (accumulate key) traces []))"

interpretation key_order: sort_order "\<lambda>x y. (g_key x :: string) < g_key y"
  by unfold_locales auto

definition which_share :: "request_trace list \<Rightarrow> (request_trace \<Rightarrow> bool) \<Rightarrow> string \<Rightarrow>
    string \<times> (request_id \<times> u64) list" where
  "which_share traces pred factor_name =
     (factor_name,
      cpp_sort (\<lambda>x y. fst x < fst y)
        (map (\<lambda>t. (tr_request_id t, trace_latency t)) (filter pred traces)))"

interpretation id_order: sort_order "\<lambda>x y. (fst x :: id128) < fst y"
  by unfold_locales auto

subsection \<open>Percentiles are values of the list\<close>

lemma percentile_index:
  assumes "vs \<noteq> []"
  obtains k where "k < length vs" "percentile_of vs p = sort vs ! k"
proof -
  define idx where "idx = unat (word_of_int (f64_ceil (percentile_rank p (length vs))) :: u64)"
  define idx2 where "idx2 = min (length vs) (max 1 idx)"
  have "percentile_of vs p = sort vs ! (idx2 - 1)"
    using assms by (auto simp: percentile_of_def Let_def idx_def idx2_def min_def max_def not_less)
  moreover have "idx2 - 1 < length vs"
    using assms by (cases vs) (auto simp: idx2_def)
  ultimately show ?thesis by (rule that [rotated])
qed

lemma isqrt_bounds: "isqrt n * isqrt n \<le> n \<and> n < (isqrt n + 1) * (isqrt n + 1)"
proof (induction n rule: isqrt.induct)
  case (1 n)
  show ?case
  proof (cases "n = 0")
    case True
    then show ?thesis by (simp add: isqrt.simps)
  next
    case False
    define q where "q = isqrt (n div 4)"
    have q: "q * q \<le> n div 4" "n div 4 < (q + 1) * (q + 1)"
      using "1.IH" [OF False] by (simp_all add: q_def)
    have "isqrt n = (if (2 * q + 1) * (2 * q + 1) \<le> n then 2 * q + 1 else 2 * q)"
      using False by (subst isqrt.simps) (simp add: Let_def q_def)
    moreover have "4 * (q * q) \<le> n" using q(1) by linarith
    moreover have "n < 4 * ((q + 1) * (q + 1))" using q(2) by linarith
    ultimately show ?thesis by (auto simp: algebra_simps)
  qed
qed

subsection \<open>The rank of the median\<close>

lemma f64_div_round:
  assumes "f64_finite a" "f64_finite b" "\<not> f64_neg a" "\<not> f64_neg b" "f64_mag b \<noteq> 0"
  shows "f64_div a b = f64_round False (f64_mag a) (f64_mag b)"
  using assms by (simp add: f64_div_def f64_finite_simps)

lemma f64_mul_round:
  assumes "f64_finite a" "f64_finite b" "\<not> f64_neg a" "\<not> f64_neg b"
  shows "f64_mul a b = f64_round False (f64_mag a * f64_mag b) (2 ^ 2148)"
  using assms by (simp add: f64_mul_def f64_finite_simps)

lemma f64_half: "f64_div (f64_of_nat 50) hundred = f64_round False 1 2"
proof -
  have "f64_div (f64_of_nat 50) hundred = f64_round False (50 * 2 ^ 1074) (100 * 2 ^ 1074)"
    unfolding hundred_def by (subst f64_div_round) (simp_all add: f64_of_nat_exact)
  also have "\<dots> = f64_round False ((50 * 2 ^ 1074) * 1) ((50 * 2 ^ 1074) * 2)" by simp
  also have "\<dots> = f64_round False 1 2" by (rule f64_round_scale) simp
  finally show ?thesis .
qed

lemma percentile_rank_median:
  assumes "0 < n" and "n < 2 ^ 53"
  shows "f64_ceil (percentile_rank (f64_of_nat 50) n) = int ((n + 1) div 2)"
proof -
  have half: "f64_finite (f64_round False 1 2)" "\<not> f64_neg (f64_round False 1 2)"
    "f64_mag (f64_round False 1 2) = 2 ^ 1073"
    using f64_round_dyadic [of 1 1] by simp_all
  have "percentile_rank (f64_of_nat 50) n = f64_round False (2 ^ 1073 * (n * 2 ^ 1074)) (2 ^ 2148)"
    unfolding percentile_rank_def f64_half
    by (subst f64_mul_round) (use half f64_of_nat_exact [OF assms] in \<open>simp_all only: not_False_eq_True\<close>)
  also have "\<dots> = f64_round False (2 ^ 2147 * n) (2 ^ 2147 * 2 ^ 1)"
  proof -
    have "(2 :: nat) ^ 1073 * (n * 2 ^ 1074) = 2 ^ 2147 * n" "(2 :: nat) ^ 2148 = 2 ^ 2147 * 2 ^ 1"
      by simp_all
    then show ?thesis by (simp only:)
  qed
  also have "\<dots> = f64_round False n (2 ^ 1)" by (rule f64_round_scale) simp
  finally have r: "percentile_rank (f64_of_nat 50) n = f64_round False n (2 ^ 1)" .
  have "f64_scaled (percentile_rank (f64_of_nat 50) n) = int n * 2 ^ 1073"
    using f64_round_dyadic [OF assms, of 1] by (simp add: f64_scaled_def r)
  then have "f64_ceil (percentile_rank (f64_of_nat 50) n) = - ((2 ^ 1073 * - int n) div (2 ^ 1073 * 2))"
    by (simp add: f64_ceil_def mult.commute)
  also have "\<dots> = - ((- int n) div 2)" by (subst div_mult_mult1) simp_all
  also have "\<dots> = int ((n + 1) div 2)" by presburger
  finally show ?thesis .
qed

subsection \<open>Groups\<close>

lemma acc_observation_if:
  "acc_observation ob a = a\<lparr>
     ga_retries := ga_retries a + (if o_type ob = OT_RETRY then 1 else 0),
     ga_restarts := ga_restarts a + (if o_type ob = OT_WORKER_RESTART \<or> o_type ob = OT_WORKER_DOWN then 1 else 0),
     ga_kvh := ga_kvh a + (if o_type ob = OT_KV_HIT then 1 else 0),
     ga_kvm := ga_kvm a + (if o_type ob = OT_KV_MISS then 1 else 0),
     ga_kh := ga_kh a + (if o_type ob = OT_KERNEL_HIT then 1 else 0),
     ga_km := ga_km a + (if o_type ob = OT_KERNEL_MISS then 1 else 0)\<rparr>"
  by (cases "o_type ob") (simp_all add: acc_observation_def)

definition obs_number :: "obs_type set \<Rightarrow> observation list \<Rightarrow> nat" where
  "obs_number tys obs = length (filter (\<lambda>ob. o_type ob \<in> tys) obs)"

lemma fold_acc_observation:
  "ga_count (fold acc_observation obs a) = ga_count a"
  "ga_total (fold acc_observation obs a) = ga_total a"
  "ga_lats (fold acc_observation obs a) = ga_lats a"
  "ga_retries (fold acc_observation obs a) = ga_retries a + of_nat (obs_number {OT_RETRY} obs)"
  "ga_restarts (fold acc_observation obs a) =
     ga_restarts a + of_nat (obs_number {OT_WORKER_RESTART, OT_WORKER_DOWN} obs)"
  "ga_kvh (fold acc_observation obs a) = ga_kvh a + of_nat (obs_number {OT_KV_HIT} obs)"
  by (induction obs arbitrary: a) (simp_all add: acc_observation_if obs_number_def add.assoc)

lemma fold_acc_trace:
  "ga_count (fold acc_trace ts a) = ga_count a + of_nat (length ts)"
  "ga_total (fold acc_trace ts a) = ga_total a + sum_list (map trace_latency ts)"
  "ga_lats (fold acc_trace ts a) = ga_lats a @ map trace_latency ts"
  "ga_retries (fold acc_trace ts a) =
     ga_retries a + of_nat (obs_number {OT_RETRY} (concat (map tr_evidence ts)))"
  "ga_restarts (fold acc_trace ts a) =
     ga_restarts a + of_nat (obs_number {OT_WORKER_RESTART, OT_WORKER_DOWN} (concat (map tr_evidence ts)))"
  "ga_kvh (fold acc_trace ts a) =
     ga_kvh a + of_nat (obs_number {OT_KV_HIT} (concat (map tr_evidence ts)))"
  by (induction ts arbitrary: a)
     (simp_all add: acc_trace_def fold_acc_observation add.assoc obs_number_def)

lemma accumulate_lookup:
  "map_of (fold (accumulate key) ts acc) k =
     (if \<forall>t \<in> set ts. key t \<noteq> k then map_of acc k
      else Some (fold acc_trace (filter (\<lambda>t. key t = k) ts)
        (case map_of acc k of Some x \<Rightarrow> x | None \<Rightarrow> empty_acc)))"
proof (induction ts arbitrary: acc)
  case (Cons t ts)
  then show ?case
    by (cases "key t = k") (auto simp: accumulate_def Let_def filter_empty_conv)
qed simp

lemma accumulate_ok: "omap_ok acc \<Longrightarrow> omap_ok (fold (accumulate key) ts acc)"
  by (induction ts arbitrary: acc) (simp_all add: accumulate_def Let_def)

lemma set_correlate:
  "set (correlate_by ts key) = summarise ` set (fold (accumulate key) ts [])"
  by (simp add: correlate_by_def)

lemma correlate_member:
  assumes "g \<in> set (correlate_by ts key)"
  shows "g = summarise (g_key g, fold acc_trace (filter (\<lambda>t. key t = g_key g) ts) empty_acc) \<and>
    g_key g \<in> key ` set ts"
proof -
  obtain k a where g: "(k, a) \<in> set (fold (accumulate key) ts [])" "g = summarise (k, a)"
    using assms by (auto simp: set_correlate)
  then have k: "g_key g = k" by (simp add: summarise_def Let_def)
  have "map_of (fold (accumulate key) ts []) k = Some a"
    using g(1) omap_ok_distinct [OF accumulate_ok, of "[]" key ts] by simp
  then show ?thesis
    unfolding k using g(2) by (auto simp: accumulate_lookup split: if_splits)
qed

text \<open>The three roundings behind the 99.9th percentile of a thousand values.\<close>

lemma f64_999_10: "f64_lit 999 10 = 0x4058F9999999999A"
  unfolding f64_lit_def by (subst f64_round_eval [of 1028]) (simp_all add: f64_eval_simps)

lemma p999_ratio: "f64_div (f64_lit 999 10) hundred = 0x3FEFF7CED916872C"
proof -
  have x: "f64_finite (f64_lit 999 10)" "\<not> f64_neg (f64_lit 999 10)"
    "f64_mag (f64_lit 999 10) = 2 ^ 1028 * 7029837543348634"
    unfolding f64_999_10 by (simp_all add: f64_read_simps)
  have "f64_div (f64_lit 999 10) hundred = f64_round False (2 ^ 1028 * 7029837543348634) (2 ^ 1028 * (100 * 2 ^ 46))"
    unfolding hundred_def using x
    by (subst f64_div_round) (simp_all add: f64_of_nat_exact)
  also have "\<dots> = f64_round False 7029837543348634 (100 * 2 ^ 46)"
    by (rule f64_round_scale) simp
  also have "\<dots> = 0x3FEFF7CED916872C"
    by (subst f64_round_eval [of 1021]) (simp_all add: f64_eval_simps)
  finally show ?thesis .
qed

lemma p999_rank: "f64_ceil (percentile_rank (f64_lit 999 10) 1000) = 1000"
proof -
  have y: "f64_finite 0x3FEFF7CED916872C" "\<not> f64_neg 0x3FEFF7CED916872C"
    "f64_mag 0x3FEFF7CED916872C = 2 ^ 1021 * 8998192055486252"
    by (simp_all add: f64_read_simps)
  have "percentile_rank (f64_lit 999 10) 1000 =
      f64_round False (2 ^ 2095 * (8998192055486252 * 1000)) (2 ^ 2095 * 2 ^ 53)"
    unfolding percentile_rank_def p999_ratio using y
    by (subst f64_mul_round) (simp_all add: f64_of_nat_exact)
  also have "\<dots> = f64_round False (8998192055486252 * 1000) (2 ^ 53)"
    by (rule f64_round_scale) simp
  also have "\<dots> = 0x408F380000000001"
    by (subst f64_round_eval [of 1031]) (simp_all add: f64_eval_simps)
  finally show ?thesis by (simp add: f64_ceil_def f64_scaled_def f64_read_simps)
qed

subsection \<open>Properties\<close>

text \<open>A percentile of a non-empty list, for whatever percentage, is one of its values, so it
  lies between the smallest and the largest.\<close>

theorem percentile_is_a_value:
  assumes "vs \<noteq> []"
  shows "percentile_of vs p \<in> set vs \<and> Min (set vs) \<le> percentile_of vs p \<and>
    percentile_of vs p \<le> Max (set vs)"
proof -
  have "percentile_of vs p \<in> set vs"
    using percentile_index [OF assms] by (metis length_sort nth_mem set_sort)
  then show ?thesis by simp
qed

theorem percentile_is_a_value_witness:
  "percentile_of [7, 3] (f64_of_nat 90) \<in> set [7, 3] \<and> Min (set [7, 3]) \<le> percentile_of [7, 3] (f64_of_nat 90) \<and>
    percentile_of [7, 3] (f64_of_nat 90) \<le> Max (set [7, 3 :: u64])"
  by (rule percentile_is_a_value) simp

text \<open>C37: The 50th percentile, computed in double arithmetic, is the exact median: the value of rank
  half the number of values, rounded up, for every list of fewer than $2^{53}$ values.\<close>

theorem median_exact:
  assumes "vs \<noteq> []" and "length vs < 2 ^ 53"
  shows "percentile_of vs (f64_of_nat 50) = sort vs ! ((length vs + 1) div 2 - 1)"
proof -
  let ?k = "(length vs + 1) div 2"
  have "f64_ceil (percentile_rank (f64_of_nat 50) (length vs)) = int ?k"
    using assms by (intro percentile_rank_median) simp_all
  moreover have "unat (word_of_int (int ?k) :: u64) = ?k"
    using assms(2) by (simp only: of_int_of_nat_eq unat_of_nat take_bit_eq_mod) (rule mod_less, simp)
  moreover have "1 \<le> ?k" "?k \<le> length vs"
    using assms(1) by (cases vs; simp)+
  ultimately show ?thesis
    using assms(1) by (simp add: percentile_of_def Let_def)
qed

theorem median_exact_witness: "percentile_of [9, 4, 7] (f64_of_nat 50) = 7"
  using median_exact [of "[9, 4, 7]"] by simp

text \<open>The 99.9th percentile of a thousand values is not the value of rank 999, the nearest rank,
  but the largest: 99.9 divided by 100 and multiplied by 1000 is more than 999 in doubles.\<close>

theorem p999_of_thousand:
  assumes "a \<le> b"
  shows "percentile_of (replicate 999 a @ [b]) (f64_lit 999 10) = b"
proof -
  let ?vs = "replicate 999 a @ [b]"
  have vs: "?vs \<noteq> []" "length ?vs = 1000" "sort ?vs = ?vs" "?vs ! 999 = b"
    using assms by (simp_all add: sorted_append sorted_sort_id nth_append)
  have idx: "unat (word_of_int 1000 :: u64) = 1000" by simp
  show ?thesis
    unfolding percentile_of_def Let_def vs(2,3) p999_rank idx if_not_P [OF vs(1)] using vs(4) by simp
qed

theorem p999_of_thousand_witness: "percentile_of (replicate 999 5 @ [8]) (f64_lit 999 10) = 8"
  by (rule p999_of_thousand) simp

text \<open>The observations an explanation may point at, and what discipline means of a statement.\<close>

definition direct_types :: "obs_type set" where
  "direct_types = {OT_RETRY, OT_FAILURE, OT_WORKER_RESTART, OT_MODEL_RESIDENCY, OT_ADAPTER_RESIDENCY}"

definition disciplined :: "request_trace \<Rightarrow> explanation_statement \<Rightarrow> bool" where
  "disciplined t s \<longleftrightarrow>
     s_cls s \<in> {EC_DIRECTLY_EVIDENCED, EC_STRUCTURALLY_DERIVED, EC_TEMPORALLY_CORRELATED} \<and>
     (s_cls s = EC_DIRECTLY_EVIDENCED \<longrightarrow>
        1 < length (tr_boots t) \<or> tr_spans_multiple_epochs t \<or> tr_outcome t \<noteq> OC_UNKNOWN \<or>
        (\<exists>ob \<in> set (tr_evidence t). o_type ob \<in> direct_types \<and> s_provenance s = o_provenance ob))"

lemma observation_statements_direct:
  "s \<in> set (observation_statements ob) \<Longrightarrow>
   s_cls s = EC_DIRECTLY_EVIDENCED \<and> o_type ob \<in> direct_types \<and> s_provenance s = o_provenance ob"
  by (auto simp: observation_statements_def Let_def stmt_def direct_types_def split: if_splits)

lemma other_statements:
  "s \<in> set (component_statements tot c) \<Longrightarrow> s_cls s \<in> {EC_STRUCTURALLY_DERIVED, EC_TEMPORALLY_CORRELATED}"
  "s \<in> set (kv_statements a) \<Longrightarrow> s_cls s = EC_STRUCTURALLY_DERIVED"
  "s \<in> set (queue_statements tot a) \<Longrightarrow> s_cls s = EC_STRUCTURALLY_DERIVED"
  "s \<in> set (gap_statements tot b) \<Longrightarrow> s_cls s = EC_TEMPORALLY_CORRELATED"
  "s \<in> set (boot_statements t) \<Longrightarrow> s_cls s = EC_DIRECTLY_EVIDENCED \<and> 1 < length (tr_boots t)"
  "s \<in> set (epoch_statements t) \<Longrightarrow> s_cls s = EC_DIRECTLY_EVIDENCED \<and> tr_spans_multiple_epochs t"
  "s \<in> set (outcome_statements t) \<Longrightarrow> s_cls s = EC_DIRECTLY_EVIDENCED \<and> tr_outcome t \<noteq> OC_UNKNOWN"
  by (auto simp: component_statements_def kv_statements_def queue_statements_def gap_statements_def
        boot_statements_def epoch_statements_def outcome_statements_def stmt_def path_class_def Let_def
        split: if_splits)

text \<open>Causal discipline: every statement of an explanation is directly evidenced, structurally
  derived or temporally correlated, never more; one that is called directly evidenced rests on
  several worker boots, several epochs, a known outcome, or an observation of the evidence of
  the kind it names, whose provenance it then carries.\<close>

theorem explanation_disciplined:
  "list_all (disciplined t) (x_statements (explain_request t))"
  unfolding list_all_iff explain_request_def Let_def explanation.select_convs set_append Un_iff set_concat set_map
  by (auto simp: disciplined_def dest!: other_statements observation_statements_direct)

text \<open>The tail is exactly what lies at or above the percentile: the explained requests are the
  traces whose latency is at least the percentile of all latencies, each once, slowest first, and
  the tail of a non-empty set of traces is never empty.\<close>

theorem explain_tail_exact:
  "mset (map te_request_id (explain_tail ts p)) =
     mset (map tr_request_id (filter (\<lambda>t. percentile_of (map trace_latency ts) p \<le> trace_latency t) ts)) \<and>
   sorted (rev (map te_latency_ns (explain_tail ts p))) \<and>
   (explain_tail ts p = [] \<longleftrightarrow> ts = [])"
proof -
  let ?thr = "percentile_of (map trace_latency ts) p"
  let ?tail = "filter (\<lambda>t. ?thr \<le> trace_latency t) (cpp_sort slower ts)"
  have ids: "map te_request_id (explain_tail ts p) = map tr_request_id ?tail"
    and lats: "map te_latency_ns (explain_tail ts p) = map trace_latency ?tail"
    by (simp_all add: explain_tail_def Let_def explain_one_tail_def o_def)
  have "mset ?tail = mset (filter (\<lambda>t. ?thr \<le> trace_latency t) ts)"
    by (simp add: mset_filter)
  then have 1: "mset (map te_request_id (explain_tail ts p)) =
      mset (map tr_request_id (filter (\<lambda>t. ?thr \<le> trace_latency t) ts))"
    unfolding ids by (metis mset_map)
  have "sorted_wrt (\<lambda>a b. \<not> slower b a) (cpp_sort slower ts)"
    using slower_order.sort_sorted by (simp add: sorted_by_def)
  then have "sorted_wrt (\<lambda>a b. trace_latency b \<le> trace_latency a) ?tail"
    by (intro sorted_wrt_filter) (simp add: slower_def not_less)
  then have 2: "sorted (rev (map te_latency_ns (explain_tail ts p)))"
    unfolding lats by (simp add: sorted_wrt_rev sorted_wrt_map)
  have "?tail \<noteq> []" if "ts \<noteq> []"
  proof -
    have "?thr \<in> set (map trace_latency ts)"
      using percentile_index [of "map trace_latency ts" p] that
      by (metis length_sort map_is_Nil_conv nth_mem set_sort)
    then show ?thesis by (auto simp: filter_empty_conv)
  qed
  moreover have "explain_tail ts p = [] \<longleftrightarrow> ?tail = []"
    using lats by (metis map_is_Nil_conv)
  ultimately have 3: "explain_tail ts p = [] \<longleftrightarrow> ts = []" by auto
  show ?thesis using 1 2 3 by blast
qed

text \<open>Correlation partitions the traces: there is one group per key that occurs, in key order,
  and each group's count, total latency, retries, restart exposures and cache hits are those of
  exactly the traces with its key.\<close>

theorem correlate_partitions:
  "set (map g_key (correlate_by ts key)) = key ` set ts \<and> distinct (map g_key (correlate_by ts key)) \<and>
   sorted (map g_key (correlate_by ts key)) \<and>
   list_all (\<lambda>g. let grp = filter (\<lambda>t. key t = g_key g) ts; obs = concat (map tr_evidence grp)
      in g_count g = of_nat (length grp) \<and> g_total_latency_ns g = sum_list (map trace_latency grp) \<and>
         g_p50_ns g = percentile_of (map trace_latency grp) (f64_of_nat 50) \<and>
         g_total_retries g = of_nat (obs_number {OT_RETRY} obs) \<and>
         g_restart_exposures g = of_nat (obs_number {OT_WORKER_RESTART, OT_WORKER_DOWN} obs) \<and>
         g_kv_hits g = of_nat (obs_number {OT_KV_HIT} obs)) (correlate_by ts key)"
proof -
  let ?acc = "fold (accumulate key) ts []" and ?gs = "correlate_by ts key"
  have ok: "omap_ok ?acc" by (rule accumulate_ok) simp
  have keys: "g_key (summarise ka) = fst ka" for ka by (simp add: summarise_def Let_def)
  have "fst ` set ?acc = dom (map_of ?acc)" by (simp add: dom_map_of_conv_image_fst)
  also have "\<dots> = key ` set ts" by (auto simp: accumulate_lookup split: if_splits)
  finally have 1: "set (map g_key ?gs) = key ` set ts"
    by (simp add: set_correlate image_image keys)
  have "mset (map g_key ?gs) = mset (map fst ?acc)"
    unfolding correlate_by_def mset_map mset_cpp_sort
    by (simp add: multiset.map_comp o_def keys)
  then have 2: "distinct (map g_key ?gs)"
    using omap_ok_distinct [OF ok] mset_eq_imp_distinct_iff by metis
  have "sorted_wrt (\<lambda>x y. \<not> g_key y < g_key x) ?gs"
    using key_order.sort_sorted by (simp add: correlate_by_def sorted_by_def)
  then have 3: "sorted (map g_key ?gs)" by (simp add: sorted_wrt_map not_less)
  have 4: "g_count g = of_nat (length grp) \<and> g_total_latency_ns g = sum_list (map trace_latency grp) \<and>
      g_p50_ns g = percentile_of (map trace_latency grp) (f64_of_nat 50) \<and>
      g_total_retries g = of_nat (obs_number {OT_RETRY} obs) \<and>
      g_restart_exposures g = of_nat (obs_number {OT_WORKER_RESTART, OT_WORKER_DOWN} obs) \<and>
      g_kv_hits g = of_nat (obs_number {OT_KV_HIT} obs)"
    if "g \<in> set ?gs" "grp = filter (\<lambda>t. key t = g_key g) ts" "obs = concat (map tr_evidence grp)" for g grp obs
    by (subst (1 2 3 4 5 6) correlate_member [OF that(1), THEN conjunct1])
       (simp add: summarise_def Let_def fold_acc_trace empty_acc_def that(2,3))
  show ?thesis
    using 1 2 3 4 by (simp add: list_all_iff Let_def)
qed

end
