(* ===== verification/Compare.thy ===== *)
theory Compare
  imports Analysis
begin

section \<open>Comparison and counterfactuals\<close>

text \<open>
  \<^verbatim>\<open>include/servingobs/replay/compare.hpp\<close>, \<^verbatim>\<open>src/compare.cpp\<close>,
  \<^verbatim>\<open>include/servingobs/replay/counterfactual.hpp\<close> and \<^verbatim>\<open>src/counterfactual.cpp\<close>: two traces or two
  sets of traces side by side, and what a stated change would do to a trace. Signed 64-bit
  differences wrap in the model; C++ leaves their overflow undefined. The JSON and text
  views are in \<open>Views\<close> and \<open>TextViews\<close>.
\<close>

subsection \<open>Two traces\<close>

record trace_comparison =
  tc_request_a :: request_id
  tc_request_b :: request_id
  tc_total_a :: u64
  tc_total_b :: u64
  tc_delta_total :: i64
  tc_phase_deltas :: "(string \<times> i64) list"
  tc_retries_a :: u64
  tc_retries_b :: u64
  tc_kv_hits_a :: u64
  tc_kv_hits_b :: u64
  tc_kernel_hits_a :: u64
  tc_kernel_hits_b :: u64
  tc_spec_accepted_a :: u64
  tc_spec_accepted_b :: u64
  tc_bytes_h2d_a :: u64
  tc_bytes_h2d_b :: u64
  tc_worker_restart_a :: bool
  tc_worker_restart_b :: bool
  tc_cold_model_a :: bool
  tc_cold_model_b :: bool

definition count_obs_of :: "request_trace \<Rightarrow> obs_type \<Rightarrow> u64" where
  "count_obs_of t ty = fold (\<lambda>ob c. if o_type ob = ty then c + 1 else c) (tr_evidence t) 0"

definition is_cold :: "observation \<Rightarrow> bool" where
  "is_cold ob =
     ((o_type ob = OT_MODEL_RESIDENCY \<or> o_type ob = OT_ADAPTER_RESIDENCY) \<and> \<not> bool_field ob ''is_warm'' True)"

definition any_cold :: "request_trace \<Rightarrow> bool" where
  "any_cold t = list_ex is_cold (tr_evidence t)"

definition compared_phases :: "phase list" where
  "compared_phases =
     [PH_QUEUE, PH_BATCH_WAIT, PH_DISPATCH, PH_TRANSFER, PH_PREFILL, PH_FIRST_TOKEN, PH_DECODE,
      PH_SPECULATION, PH_RETRY, PH_RECOVERY]"

definition phase_deltas :: "request_trace \<Rightarrow> request_trace \<Rightarrow> (string \<times> i64) list" where
  "phase_deltas a b =
     map (\<lambda>p. (phase_name p, phase_dur b p - phase_dur a p))
       (filter (\<lambda>p. phase_dur a p \<noteq> 0 \<or> phase_dur b p \<noteq> 0) compared_phases)"

definition compare_traces :: "request_trace \<Rightarrow> request_trace \<Rightarrow> trace_comparison" where
  "compare_traces a b =
     \<lparr>tc_request_a = tr_request_id a, tc_request_b = tr_request_id b,
      tc_total_a = phase_dur a PH_TOTAL, tc_total_b = phase_dur b PH_TOTAL,
      tc_delta_total = phase_dur b PH_TOTAL - phase_dur a PH_TOTAL,
      tc_phase_deltas = phase_deltas a b,
      tc_retries_a = count_obs_of a OT_RETRY, tc_retries_b = count_obs_of b OT_RETRY,
      tc_kv_hits_a = count_obs_of a OT_KV_HIT, tc_kv_hits_b = count_obs_of b OT_KV_HIT,
      tc_kernel_hits_a = count_obs_of a OT_KERNEL_HIT, tc_kernel_hits_b = count_obs_of b OT_KERNEL_HIT,
      tc_spec_accepted_a = count_obs_of a OT_SPECULATION_VERIFY,
      tc_spec_accepted_b = count_obs_of b OT_SPECULATION_VERIFY,
      tc_bytes_h2d_a = sum_u64 a ''bytes_h2d'', tc_bytes_h2d_b = sum_u64 b ''bytes_h2d'',
      tc_worker_restart_a = (1 < length (tr_boots a)), tc_worker_restart_b = (1 < length (tr_boots b)),
      tc_cold_model_a = any_cold a, tc_cold_model_b = any_cold b\<rparr>"

subsection \<open>Two windows\<close>

record window_side =
  ws_count :: u64
  ws_total_latency :: u64
  ws_p90 :: u64
  ws_retries :: u64
  ws_restarts :: u64
  ws_kv_hits :: u64

text \<open>The two loops of \<^verbatim>\<open>compare_windows\<close>, one per side; their observation counters are those of
  \<open>acc_observation\<close>.\<close>

definition window_side_of :: "request_trace list \<Rightarrow> window_side" where
  "window_side_of ts =
     (let acc = fold acc_trace ts empty_acc
      in \<lparr>ws_count = of_nat (length ts), ws_total_latency = ga_total acc,
          ws_p90 = percentile_of (ga_lats acc) (f64_of_nat 90), ws_retries = ga_retries acc,
          ws_restarts = ga_restarts acc, ws_kv_hits = ga_kvh acc\<rparr>)"

record window_comparison =
  wc_label_a :: string
  wc_label_b :: string
  wc_a :: window_side
  wc_b :: window_side

definition compare_windows :: "request_trace list \<Rightarrow> request_trace list \<Rightarrow> string \<Rightarrow> string \<Rightarrow> window_comparison" where
  "compare_windows a b label_a label_b =
     \<lparr>wc_label_a = label_a, wc_label_b = label_b, wc_a = window_side_of a, wc_b = window_side_of b\<rparr>"

subsection \<open>Counterfactuals\<close>

datatype counterfactual_rule =
  REMOVE_QUEUE_WAIT | REMOVE_RETRY | WARM_RESIDENCY | REDUCE_TRANSFER_BY_HALF

fun counterfactual_rule_name :: "counterfactual_rule \<Rightarrow> string" where
  "counterfactual_rule_name REMOVE_QUEUE_WAIT = ''remove_queue_wait''"
| "counterfactual_rule_name REMOVE_RETRY = ''remove_retry''"
| "counterfactual_rule_name WARM_RESIDENCY = ''warm_residency''"
| "counterfactual_rule_name REDUCE_TRANSFER_BY_HALF = ''reduce_transfer_by_half''"

record counterfactual_result =
  cr_request_id :: request_id
  cr_rule :: counterfactual_rule
  cr_original_total :: u64
  cr_counterfactual_total :: u64
  cr_delta_ns :: i64
  cr_delta_percent :: f64
  cr_changed_inputs :: "string list"
  cr_derived_differences :: "string list"
  cr_provenance :: provenance
  cr_cls :: explanation_class

definition less_saved :: "u64 \<Rightarrow> u64 \<Rightarrow> u64" where
  "less_saved original saved = (if saved \<le> original then original - saved else 0)"

definition plain_result :: "request_trace \<Rightarrow> counterfactual_rule \<Rightarrow> counterfactual_result" where
  "plain_result t rule =
     \<lparr>cr_request_id = tr_request_id t, cr_rule = rule, cr_original_total = trace_latency t,
      cr_counterfactual_total = trace_latency t, cr_delta_ns = 0, cr_delta_percent = f64_zero False,
      cr_changed_inputs = [], cr_derived_differences = [], cr_provenance = PV_DERIVED,
      cr_cls = EC_STRUCTURALLY_DERIVED\<rparr>"

text \<open>What a branch of the switch adds to the result.\<close>

definition apply_saving :: "u64 \<Rightarrow> string \<Rightarrow> string \<Rightarrow> counterfactual_result \<Rightarrow> counterfactual_result" where
  "apply_saving saved changed derived r =
     r\<lparr>cr_changed_inputs := cr_changed_inputs r @ [changed],
       cr_counterfactual_total := less_saved (cr_original_total r) saved,
       cr_derived_differences := cr_derived_differences r @ [derived]\<rparr>"

definition counterfactual_branch :: "request_trace \<Rightarrow> counterfactual_rule \<Rightarrow> counterfactual_result" where
  "counterfactual_branch t rule =
     (let r = plain_result t rule in
      case rule of
        REMOVE_QUEUE_WAIT \<Rightarrow>
          if has_phase PH_QUEUE (tr_phases t)
          then apply_saving (phase_dur t PH_QUEUE)
                 (''queue duration '' @ to_string_word (phase_dur t PH_QUEUE) @ '' ns removed'')
                 ''total latency reduced by queue residence'' r
          else r
      | REMOVE_RETRY \<Rightarrow>
          if has_phase PH_RETRY (tr_phases t)
          then apply_saving (phase_dur t PH_RETRY)
                 (''retry interval '' @ to_string_word (phase_dur t PH_RETRY) @ '' ns removed'')
                 ''retry time removed from total'' r
          else r\<lparr>cr_changed_inputs := [''no measurable retry interval; retry retained''],
                 cr_derived_differences := [''no delta (missing retry duration)'']\<rparr>
      | WARM_RESIDENCY \<Rightarrow>
          if any_cold t \<and> has_phase PH_PREFILL (tr_phases t)
          then (let saved = u64_of_f64 (f64_mul (f64_of_u64 (phase_dur t PH_PREFILL)) (f64_lit 7 10))
                in (apply_saving saved
                      ''cold residency replaced with warm residency (stated model: 70% prefill saving)''
                      (''prefill reduced by estimated '' @ to_string_word saved @ '' ns'') r)
                   \<lparr>cr_provenance := PV_ESTIMATED, cr_cls := EC_PLAUSIBLE_BUT_UNPROVEN\<rparr>)
          else r\<lparr>cr_changed_inputs := [''residency already warm (or unknown); no counterfactual applied''],
                 cr_derived_differences := [''no delta'']\<rparr>
      | REDUCE_TRANSFER_BY_HALF \<Rightarrow>
          if has_phase PH_TRANSFER (tr_phases t)
          then apply_saving (phase_dur t PH_TRANSFER div 2) ''transfer duration halved (stated transform)''
                 (''transfer reduced by '' @ to_string_word (phase_dur t PH_TRANSFER div 2) @ '' ns'') r
          else r\<lparr>cr_derived_differences := [''no transfer evidence; no delta'']\<rparr>)"

definition counterfactual :: "request_trace \<Rightarrow> counterfactual_rule \<Rightarrow> counterfactual_result" where
  "counterfactual t rule =
     (let r = counterfactual_branch t rule;
          d = cr_counterfactual_total r - cr_original_total r
      in r\<lparr>cr_delta_ns := d,
           cr_delta_percent := (if cr_original_total r \<noteq> 0
             then f64_mul (f64_div (f64_of_i64 d) (f64_of_u64 (cr_original_total r))) hundred
             else f64_zero False)\<rparr>)"

subsection \<open>Properties\<close>

lemma less_saved_le: "less_saved original saved \<le> original"
  by (auto simp: less_saved_def word_le_nat_alt unat_sub)

lemma counterfactual_fields [simp]:
  "cr_original_total (counterfactual t rule) = cr_original_total (counterfactual_branch t rule)"
  "cr_counterfactual_total (counterfactual t rule) = cr_counterfactual_total (counterfactual_branch t rule)"
  "cr_provenance (counterfactual t rule) = cr_provenance (counterfactual_branch t rule)"
  "cr_cls (counterfactual t rule) = cr_cls (counterfactual_branch t rule)"
  "cr_changed_inputs (counterfactual t rule) = cr_changed_inputs (counterfactual_branch t rule)"
  "cr_delta_ns (counterfactual t rule) =
     cr_counterfactual_total (counterfactual_branch t rule) - cr_original_total (counterfactual_branch t rule)"
  by (simp_all add: counterfactual_def Let_def)

text \<open>A comparison is antisymmetric: swapping the two traces negates the total's difference and
  every phase's, over the same phases, and swaps the sides; a trace differs from itself by nothing.\<close>

theorem comparison_antisymmetric:
  "tc_delta_total (compare_traces b a) = - tc_delta_total (compare_traces a b) \<and>
   tc_phase_deltas (compare_traces b a) = map (\<lambda>(p, d). (p, - d)) (tc_phase_deltas (compare_traces a b)) \<and>
   tc_retries_b (compare_traces b a) = tc_retries_a (compare_traces a b) \<and>
   tc_bytes_h2d_b (compare_traces b a) = tc_bytes_h2d_a (compare_traces a b) \<and>
   tc_delta_total (compare_traces a a) = 0 \<and> list_all (\<lambda>(p, d). d = 0) (tc_phase_deltas (compare_traces a a))"
proof -
  have "(\<lambda>p. phase_dur b p \<noteq> 0 \<or> phase_dur a p \<noteq> 0) = (\<lambda>p. phase_dur a p \<noteq> 0 \<or> phase_dur b p \<noteq> 0)"
    by auto
  then show ?thesis
    by (simp add: compare_traces_def phase_deltas_def list_all_iff)
qed

text \<open>C40: A counterfactual is bounded and labelled: it never makes a request slower, it is derived or
  estimated and never measured, the estimated one is called plausible but unproven, and whenever
  the total changes the changed inputs are stated.\<close>

theorem counterfactual_bounded:
  "let r = counterfactual t rule
   in cr_original_total r = trace_latency t \<and> cr_counterfactual_total r \<le> cr_original_total r \<and>
      cr_delta_ns r = cr_counterfactual_total r - cr_original_total r \<and>
      cr_provenance r \<in> {PV_DERIVED, PV_ESTIMATED} \<and>
      (cr_provenance r = PV_ESTIMATED \<longleftrightarrow> cr_cls r = EC_PLAUSIBLE_BUT_UNPROVEN) \<and>
      (cr_changed_inputs r \<noteq> [] \<or> cr_counterfactual_total r = cr_original_total r)"
  by (cases rule)
     (auto simp: counterfactual_branch_def apply_saving_def plain_result_def Let_def less_saved_le)

theorem counterfactual_bounded_witness:
  "cr_counterfactual_total (counterfactual sample_trace REMOVE_RETRY) \<le>
     cr_original_total (counterfactual sample_trace REMOVE_RETRY)"
  using counterfactual_bounded [of sample_trace REMOVE_RETRY] unfolding Let_def by blast

text \<open>Removing a retry never changes anything: a reconstructed trace records a retry as a point,
  so the interval to remove is always of length zero, and so is the retry time attributed.\<close>

theorem remove_retry_no_effect:
  "cr_counterfactual_total (counterfactual (reconstruct_trace obs rid) REMOVE_RETRY) =
     trace_latency (reconstruct_trace obs rid) \<and>
   phase_dur (reconstruct_trace obs rid) PH_RETRY = 0"
proof -
  let ?ps = "extract_phases (cpp_sort timeline_before obs)"
  have ok: "phases_ok (cpp_sort timeline_before obs) ?ps" by (rule phases_ok_extract)
  have "p_start (get_phase PH_RETRY ?ps) = p_end (get_phase PH_RETRY ?ps)"
    if "p_exists (get_phase PH_RETRY ?ps)"
  proof -
    have "get_phase PH_RETRY ?ps \<in> set ?ps"
      using ok by (simp add: phases_ok_def get_phase_def)
    then have "phase_sound (cpp_sort timeline_before obs) (get_phase PH_RETRY ?ps)"
      "p_phase (get_phase PH_RETRY ?ps) = PH_RETRY"
      using ok that by (simp_all add: phases_ok_def)
    then show ?thesis by (simp add: phase_sound_def point_phases_def)
  qed
  then have "phase_dur (reconstruct_trace obs rid) PH_RETRY = 0"
    by (auto simp: phase_dur_def Let_def reconstruct_fields)
  then show ?thesis
    by (simp add: counterfactual_branch_def apply_saving_def plain_result_def Let_def less_saved_def)
qed

end
