(* ===== verification/Views.thy ===== *)
theory Views
  imports Json Compare
begin

section \<open>The JSON views\<close>

text \<open>
  Every \<^verbatim>\<open>to_json\<close> of the library: observations (\<^verbatim>\<open>src/observation.cpp\<close>), traces
  (\<^verbatim>\<open>src/trace.cpp\<close>), latency (\<^verbatim>\<open>src/latency.cpp\<close>), attribution, explanations, tails, groups
  and shared factors (\<^verbatim>\<open>src/attribution.cpp\<close>, \<^verbatim>\<open>src/analysis.cpp\<close>), comparisons and
  counterfactuals (\<^verbatim>\<open>src/compare.cpp\<close>, \<^verbatim>\<open>src/counterfactual.cpp\<close>). A chain of \<^verbatim>\<open>j.set(k, v)\<close>
  is \<open>json_object\<close> of its members in that order, a loop of \<^verbatim>\<open>push\<close> is \<open>json_array\<close>; the
  constructor of a value is the one C++ overload resolution picks. The canonical text of the
  trace view is what a replay digests, so the lemmas say what that text determines.
\<close>

subsection \<open>Observations\<close>

text \<open>\<^verbatim>\<open>static_cast<f64>\<close> of a \<^verbatim>\<open>float\<close>: exact for a number, of the same kind otherwise.\<close>

definition f64_of_f32 :: "f32 \<Rightarrow> f64" where
  "f64_of_f32 v =
     (let neg = bit v 31; ex = unat (take_bit 8 (drop_bit 23 v)); fr = unat (take_bit 23 v)
      in if ex = 255 then (if fr = 0 then f64_inf neg else f64_nan)
         else f64_round neg (if ex = 0 then fr else (2 ^ 23 + fr) * 2 ^ (ex - 1)) (2 ^ 149))"

definition bytes_note :: "bytes \<Rightarrow> string" where
  "bytes_note b = ''bytes['' @ dec_string (length b) @ '']''"

fun field_value_to_string :: "field_value \<Rightarrow> string" where
  "field_value_to_string FvNull = ''null''"
| "field_value_to_string (FvBool b) = (if b then ''true'' else ''false'')"
| "field_value_to_string (FvI64 i) = to_string_int (sint i)"
| "field_value_to_string (FvU64 u) = to_string_word u"
| "field_value_to_string (FvF64 d) = format_g17 d"
| "field_value_to_string (FvStr s) = s"
| "field_value_to_string (FvId v) = to_hex v"
| "field_value_to_string (FvBytes b) = bytes_note b"

fun field_value_json :: "field_value \<Rightarrow> json" where
  "field_value_json FvNull = JNull"
| "field_value_json (FvBool b) = JBool b"
| "field_value_json (FvI64 i) = JInt i"
| "field_value_json (FvU64 u) = JUInt u"
| "field_value_json (FvF64 d) = JDouble d"
| "field_value_json (FvStr s) = JString s"
| "field_value_json (FvId v) = JString (to_hex v)"
| "field_value_json (FvBytes b) = JString (bytes_note b)"

definition observation_json :: "observation \<Rightarrow> json" where
  "observation_json ob = json_object (
     [(''kind'', JString (obs_type_name (o_type ob))), (''type'', JUInt (ucast (obs_type_num (o_type ob)))),
      (''id'', JString (to_hex (o_id ob))), (''source'', JString (to_hex (o_source ob))),
      (''worker'', JString (to_hex (o_worker ob))), (''boot'', JString (to_hex (o_boot ob))),
      (''src_gen'', JUInt (o_src_gen ob)), (''obs_gen'', JUInt (o_obs_gen ob)),
      (''epoch'', JUInt (o_epoch ob)), (''seq'', JUInt (o_seq ob)),
      (''clock_domain'', JString (o_clock_domain ob))] @
     (if o_has_obs_ts ob then [(''obs_ts'', JUInt (o_obs_ts ob))] else []) @
     (if o_has_recv_ts ob then [(''recv_ts'', JUInt (o_recv_ts ob))] else []) @
     [(''provenance'', JString (provenance_name (o_provenance ob)))] @
     (if o_has_health ob then [(''health'', JString (source_health_name (o_health ob)))] else []) @
     (if o_has_confidence ob then [(''confidence'', JDouble (f64_of_f32 (o_confidence ob)))] else []) @
     (if o_fields ob \<noteq> []
      then [(''fields'', json_object (map (\<lambda>(k, v). (k, field_value_json v)) (o_fields ob)))] else []))"

subsection \<open>Traces\<close>

definition event_json :: "trace_event \<Rightarrow> json" where
  "event_json e = json_object
     [(''ordinal'', JUInt (ucast (e_ordinal e))), (''kind'', JString (obs_type_name (e_type e))),
      (''ts'', JUInt (e_ts e)), (''has_ts'', JBool (e_has_ts e)),
      (''provenance'', JString (provenance_name (e_provenance e))),
      (''source'', JString (to_hex (e_source e))), (''worker'', JString (to_hex (e_worker e))),
      (''boot'', JString (to_hex (e_boot e))), (''src_gen'', JUInt (e_src_gen e)),
      (''obs_gen'', JUInt (e_obs_gen e)), (''epoch'', JUInt (e_epoch e)), (''seq'', JUInt (e_seq e)),
      (''label'', JString (e_label e))]"

definition phase_json :: "phase_interval \<Rightarrow> json" where
  "phase_json p = json_object (
     [(''start'', JUInt (p_start p)), (''end'', JUInt (p_end p)),
      (''duration_ns'', JUInt (if p_start p \<le> p_end p then p_end p - p_start p else 0)),
      (''provenance'', JString (provenance_name (p_provenance p)))] @
     (if p_source p \<noteq> [] then [(''source'', JString (p_source p))] else []) @
     [(''detail'', JString (p_detail p))])"

text \<open>\<^verbatim>\<open>if (!id.is_null()) setid(key, id)\<close>.\<close>

definition known_id :: "string \<Rightarrow> id128 \<Rightarrow> (string \<times> json) list" where
  "known_id key v = (if is_null v then [] else [(key, JString (to_hex v))])"

definition trace_json :: "request_trace \<Rightarrow> json" where
  "trace_json t = json_object (
     [(''trace_id'', JString (to_hex (tr_trace_id t))), (''request_id'', JString (to_hex (tr_request_id t)))] @
     known_id ''tenant_id'' (tr_tenant t) @ known_id ''workload_id'' (tr_workload t) @
     known_id ''model_id'' (tr_model t) @ known_id ''model_rev_id'' (tr_model_rev t) @
     known_id ''adapter_id'' (tr_adapter t) @
     [(''outcome'', JString (outcome_name (tr_outcome t))), (''terminal_reason'', JString (tr_terminal_reason t)),
      (''epoch_min'', JUInt (tr_min_epoch t)), (''epoch_max'', JUInt (tr_max_epoch t)),
      (''spans_multiple_epochs'', JBool (tr_spans_multiple_epochs t)),
      (''timeline'', json_array (map event_json (tr_timeline t))),
      (''phases'', json_object (map (\<lambda>p. (phase_name (p_phase p), phase_json p))
                                 (filter p_exists (tr_phases t)))),
      (''boots'', json_array (map (\<lambda>b. JString (to_hex b)) (tr_boots t))),
      (''src_gens'', json_array (map JUInt (tr_src_gens t))),
      (''obs_gens'', json_array (map JUInt (tr_obs_gens t)))])"

subsection \<open>Latency and attribution\<close>

definition component_json :: "latency_component \<Rightarrow> json" where
  "component_json c = json_object
     [(''phase'', JString (phase_name (l_phase c))), (''duration_ns'', JUInt (l_duration_ns c)),
      (''exclusive_ns'', JUInt (l_exclusive_ns c)), (''percent_of_total'', JDouble (l_percent_of_total c)),
      (''on_critical_path'', JBool (l_on_critical_path c)),
      (''provenance'', JString (provenance_name (l_provenance c))), (''point_event'', JBool (l_point_event c))]"

definition breakdown_json :: "latency_breakdown \<Rightarrow> json" where
  "breakdown_json b = json_object
     [(''total_ns'', JUInt (b_total_ns b)), (''covered_ns'', JUInt (b_covered_ns b)),
      (''gap_ns'', JUInt (b_gap_ns b)), (''components'', json_array (map component_json (b_components b)))]"

definition attribution_json :: "resource_attribution \<Rightarrow> json" where
  "attribution_json a = json_object
     [(''queue_ns'', JUInt (at_queue_time a)), (''batch_wait_ns'', JUInt (at_batch_wait a)),
      (''dispatch_ns'', JUInt (at_dispatch_delay a)), (''transfer_ns'', JUInt (at_transfer_time a)),
      (''prefill_ns'', JUInt (at_prefill_time a)), (''first_token_ns'', JUInt (at_first_token_latency a)),
      (''decode_ns'', JUInt (at_decode_time a)), (''inter_token_avg_ms'', JDouble (at_inter_token_ms a)),
      (''retry_ns'', JUInt (at_retry_time a)), (''recovery_ns'', JUInt (at_recovery_time a)),
      (''total_ns'', JUInt (at_total_latency a)), (''gpu_exec_ns'', JUInt (at_gpu_exec_time a)),
      (''cpu_exec_ns'', JUInt (at_cpu_exec_time a)),
      (''bytes_h2d'', JUInt (at_bytes_h2d a)), (''bytes_d2h'', JUInt (at_bytes_d2h a)),
      (''bytes_inter_node'', JUInt (at_bytes_inter_node a)), (''bytes_kv'', JUInt (at_bytes_kv a)),
      (''bytes_tensor'', JUInt (at_bytes_tensor a)), (''bytes_workspace'', JUInt (at_bytes_workspace a)),
      (''kernel_hits'', JUInt (at_kernel_hits a)), (''kernel_misses'', JUInt (at_kernel_misses a)),
      (''graph_hits'', JUInt (at_graph_hits a)), (''graph_misses'', JUInt (at_graph_misses a)),
      (''kv_hits'', JUInt (at_kv_hits a)), (''kv_misses'', JUInt (at_kv_misses a)),
      (''spec_proposed'', JUInt (at_spec_proposed a)), (''spec_accepted'', JUInt (at_spec_accepted a)),
      (''spec_rejected'', JUInt (at_spec_rejected a)), (''decode_steps'', JUInt (at_decode_steps a)),
      (''input_tokens'', JUInt (at_input_tokens a)), (''output_tokens'', JUInt (at_output_tokens a)),
      (''provenance'', json_object (map (\<lambda>(k, p). (k, JString (provenance_name p))) (at_provenance a))),
      (''available'', json_object (map (\<lambda>(k, v). (k, JBool v)) (at_available a)))]"

subsection \<open>Explanations, tails, groups\<close>

definition metrics_json :: "tail_metrics \<Rightarrow> json" where
  "metrics_json m = json_object
     [(''count'', JUInt (tm_count m)), (''min_ns'', JUInt (tm_min_ns m)), (''max_ns'', JUInt (tm_max_ns m)),
      (''p50_ns'', JUInt (tm_p50_ns m)), (''p90_ns'', JUInt (tm_p90_ns m)), (''p95_ns'', JUInt (tm_p95_ns m)),
      (''p99_ns'', JUInt (tm_p99_ns m)), (''p999_ns'', JUInt (tm_p999_ns m)),
      (''mean_ns'', JDouble (tm_mean_ns m)), (''stddev_ns'', JDouble (tm_stddev_ns m))]"

definition statement_json :: "explanation_statement \<Rightarrow> json" where
  "statement_json s = json_object
     [(''claim'', JString (s_claim s)), (''class'', JString (explanation_class_name (s_cls s))),
      (''provenance'', JString (provenance_name (s_provenance s))), (''evidence'', JString (s_evidence s)),
      (''phase'', JString (s_phase s)), (''severity'', JDouble (s_severity s))]"

definition explanation_json :: "explanation \<Rightarrow> json" where
  "explanation_json x = json_object
     [(''request_id'', JString (to_hex (x_request_id x))), (''latency'', breakdown_json (x_breakdown x)),
      (''attribution'', attribution_json (x_attribution x)),
      (''statements'', json_array (map statement_json (x_statements x)))]"

definition factor_json :: "tail_factor \<Rightarrow> json" where
  "factor_json f = json_object
     [(''factor'', JString (tf_name f)), (''severity'', JDouble (tf_severity f)),
      (''class'', JString (explanation_class_name (tf_cls f))), (''note'', JString (tf_note f))]"

definition tail_json :: "tail_explanation \<Rightarrow> json" where
  "tail_json e = json_object
     [(''request_id'', JString (to_hex (te_request_id e))), (''latency_ns'', JUInt (te_latency_ns e)),
      (''metrics'', metrics_json (te_metrics e)), (''factors'', json_array (map factor_json (te_factors e)))]"

definition group_json :: "group_summary \<Rightarrow> json" where
  "group_json g = json_object
     [(''key'', JString (g_key g)), (''count'', JUInt (g_count g)),
      (''total_latency_ns'', JUInt (g_total_latency_ns g)), (''mean_latency_ns'', JDouble (g_mean_latency_ns g)),
      (''p50_ns'', JUInt (g_p50_ns g)), (''p90_ns'', JUInt (g_p90_ns g)), (''p99_ns'', JUInt (g_p99_ns g)),
      (''total_retries'', JUInt (g_total_retries g)),
      (''worker_restart_exposures'', JUInt (g_restart_exposures g)),
      (''kv_hits'', JUInt (g_kv_hits g)), (''kv_misses'', JUInt (g_kv_misses g)),
      (''kernel_hits'', JUInt (g_kernel_hits g)), (''kernel_misses'', JUInt (g_kernel_misses g))]"

definition shared_factor_json :: "string \<times> (request_id \<times> u64) list \<Rightarrow> json" where
  "shared_factor_json r = json_object
     [(''factor'', JString (fst r)),
      (''requests'', json_array (map (\<lambda>(i, l).
         json_object [(''request_id'', JString (to_hex i)), (''latency_ns'', JUInt l)]) (snd r)))]"

subsection \<open>Comparisons and counterfactuals\<close>

definition comparison_json :: "trace_comparison \<Rightarrow> json" where
  "comparison_json c = json_object
     [(''request_a'', JString (to_hex (tc_request_a c))), (''request_b'', JString (to_hex (tc_request_b c))),
      (''total_a_ns'', JUInt (tc_total_a c)), (''total_b_ns'', JUInt (tc_total_b c)),
      (''delta_total_ns'', JInt (tc_delta_total c)),
      (''phase_deltas_ns'', json_object (map (\<lambda>(k, v). (k, JInt v)) (tc_phase_deltas c))),
      (''retries_a'', JUInt (tc_retries_a c)), (''retries_b'', JUInt (tc_retries_b c)),
      (''kv_hits_a'', JUInt (tc_kv_hits_a c)), (''kv_hits_b'', JUInt (tc_kv_hits_b c)),
      (''kernel_hits_a'', JUInt (tc_kernel_hits_a c)), (''kernel_hits_b'', JUInt (tc_kernel_hits_b c)),
      (''spec_accepted_a'', JUInt (tc_spec_accepted_a c)), (''spec_accepted_b'', JUInt (tc_spec_accepted_b c)),
      (''bytes_h2d_a'', JUInt (tc_bytes_h2d_a c)), (''bytes_h2d_b'', JUInt (tc_bytes_h2d_b c)),
      (''worker_restart_a'', JBool (tc_worker_restart_a c)), (''worker_restart_b'', JBool (tc_worker_restart_b c)),
      (''cold_model_a'', JBool (tc_cold_model_a c)), (''cold_model_b'', JBool (tc_cold_model_b c))]"

definition window_json :: "window_comparison \<Rightarrow> json" where
  "window_json w = json_object
     [(''label_a'', JString (wc_label_a w)), (''label_b'', JString (wc_label_b w)),
      (''count_a'', JUInt (ws_count (wc_a w))), (''count_b'', JUInt (ws_count (wc_b w))),
      (''total_latency_a_ns'', JUInt (ws_total_latency (wc_a w))),
      (''total_latency_b_ns'', JUInt (ws_total_latency (wc_b w))),
      (''p90_a_ns'', JUInt (ws_p90 (wc_a w))), (''p90_b_ns'', JUInt (ws_p90 (wc_b w))),
      (''retries_a'', JUInt (ws_retries (wc_a w))), (''retries_b'', JUInt (ws_retries (wc_b w))),
      (''restarts_a'', JUInt (ws_restarts (wc_a w))), (''restarts_b'', JUInt (ws_restarts (wc_b w))),
      (''kv_hits_a'', JUInt (ws_kv_hits (wc_a w))), (''kv_hits_b'', JUInt (ws_kv_hits (wc_b w)))]"

definition counterfactual_json :: "counterfactual_result \<Rightarrow> json" where
  "counterfactual_json r = json_object
     [(''request_id'', JString (to_hex (cr_request_id r))),
      (''rule'', JString (counterfactual_rule_name (cr_rule r))),
      (''original_total_ns'', JUInt (cr_original_total r)),
      (''counterfactual_total_ns'', JUInt (cr_counterfactual_total r)),
      (''delta_ns'', JInt (cr_delta_ns r)), (''delta_percent'', JDouble (cr_delta_percent r)),
      (''provenance'', JString (provenance_name (cr_provenance r))),
      (''class'', JString (explanation_class_name (cr_cls r))),
      (''changed_inputs'', json_array (map JString (cr_changed_inputs r))),
      (''derived_differences'', json_array (map JString (cr_derived_differences r)))]"

subsection \<open>What the text of a view determines\<close>

lemma to_hex_inject [simp]: "to_hex v = to_hex w \<longleftrightarrow> v = w"
proof
  assume "to_hex v = to_hex w"
  then have "digest_bytes (concat (map hex_byte (to_bytes v))) = digest_bytes (concat (map hex_byte (to_bytes w)))"
    unfolding to_hex_eq to_bytes_eq by (rule arg_cong)
  then have "to_bytes v = to_bytes w" by (simp only: digest_bytes_hex sum.inject)
  then show "v = w" by (rule to_bytes_inj)
qed simp

lemma obs_type_name_inject [simp]: "obs_type_name s = obs_type_name t \<longleftrightarrow> s = t"
proof -
  have "map_of (map (\<lambda>x. (obs_type_name x, x)) obs_types) (obs_type_name x) = Some x" for x
    by (cases x) (simp_all add: obs_types_def)
  then show ?thesis by (metis option.inject)
qed

lemma provenance_name_inject [simp]: "provenance_name p = provenance_name q \<longleftrightarrow> p = q"
  by (metis provenance_roundtrip)

lemma outcome_name_inject [simp]: "outcome_name p = outcome_name q \<longleftrightarrow> p = q"
  by (metis outcome_roundtrip)

lemma same_text_shape: "to_canonical j = to_canonical j' \<Longrightarrow> shape j = shape j'"
  using unique_textD [OF unique_text_all, of 0 j "[]" 0 j' "[]"] by (simp add: to_canonical_def stops_def)

lemma shape_get:
  assumes "shape j = shape j'"
  shows "shape (json_get k j) = shape (json_get k j')"
proof (cases "\<exists>m. j = JObject m")
  case True
  then obtain m m' where m: "j = JObject m" "j' = JObject m'"
      "map (\<lambda>(k, v). (k, shape v)) m = map (\<lambda>(k, v). (k, shape v)) m'"
    using assms by (cases j') (auto split: if_splits)
  from m(3) have "map_option shape (map_of m k) = map_option shape (map_of m' k)"
    by (metis comp_apply map_of_map)
  then show ?thesis by (auto simp: m json_get_def json_find_def split: option.splits)
next
  case False
  then have "json_find k j = None" "json_find k j' = None"
    using assms by (cases j; cases j'; auto simp: json_find_def split: if_splits)+
  then show ?thesis by (simp add: json_get_def)
qed

text \<open>Two objects of one shape have values of one shape under every key.\<close>

lemma shape_member:
  assumes "shape (json_object kvs) = shape (json_object kvs')"
    and "distinct (map fst kvs)" and "distinct (map fst kvs')"
    and "(k, v) \<in> set kvs" and "(k, v') \<in> set kvs'"
  shows "shape v = shape v'"
  using shape_get [OF assms(1), of k] json_get_object [OF assms(2,4)] json_get_object [OF assms(3,5)] by simp

lemma shape_list:
  assumes "map shape (map f xs) = map shape (map f ys)" and "\<And>x y. shape (f x) = shape (f y) \<Longrightarrow> g x = g y"
  shows "map g xs = map g ys"
  using assms(1)
proof (induction xs arbitrary: ys)
  case (Cons x xs)
  then obtain y ys' where ys: "ys = y # ys'" by (cases ys) simp_all
  then have "shape (f x) = shape (f y)" "map shape (map f xs) = map shape (map f ys')"
    using Cons.prems by simp_all
  then show ?case using Cons.IH [of ys'] assms(2) [of x y] ys by simp
qed simp

text \<open>An event without its payload.\<close>

definition event_envelope :: "trace_event \<Rightarrow> trace_event" where
  "event_envelope e = e\<lparr>e_fields := []\<rparr>"

lemma ordinal_inject: "(ucast (v :: u32) :: u64) = ucast w \<Longrightarrow> v = w"
proof -
  have "unat (ucast x :: u64) = unat x" for x :: u32
    using unsigned_less [of x, where 'a = nat] by (simp add: unsigned_ucast_eq take_bit_nat_eq_self)
  then show "v = w" if "(ucast v :: u64) = ucast w" using that by (metis word_unat_eq_iff)
qed

lemma event_json_shape:
  assumes "shape (event_json e) = shape (event_json e')"
  shows "event_envelope e = event_envelope e'"
proof -
  note member = shape_member [OF assms [unfolded event_json_def]]
  have "shape (JUInt (ucast (e_ordinal e))) = shape (JUInt (ucast (e_ordinal e')))"
    by (rule member [where k = "''ordinal''"]) simp_all
  moreover have "shape (JString (obs_type_name (e_type e))) = shape (JString (obs_type_name (e_type e')))"
    by (rule member [where k = "''kind''"]) simp_all
  moreover have "shape (JUInt (e_ts e)) = shape (JUInt (e_ts e'))"
    by (rule member [where k = "''ts''"]) simp_all
  moreover have "shape (JBool (e_has_ts e)) = shape (JBool (e_has_ts e'))"
    by (rule member [where k = "''has_ts''"]) simp_all
  moreover have "shape (JString (provenance_name (e_provenance e))) = shape (JString (provenance_name (e_provenance e')))"
    by (rule member [where k = "''provenance''"]) simp_all
  moreover have "shape (JString (to_hex (e_source e))) = shape (JString (to_hex (e_source e')))"
    by (rule member [where k = "''source''"]) simp_all
  moreover have "shape (JString (to_hex (e_worker e))) = shape (JString (to_hex (e_worker e')))"
    by (rule member [where k = "''worker''"]) simp_all
  moreover have "shape (JString (to_hex (e_boot e))) = shape (JString (to_hex (e_boot e')))"
    by (rule member [where k = "''boot''"]) simp_all
  moreover have "shape (JUInt (e_src_gen e)) = shape (JUInt (e_src_gen e'))"
    by (rule member [where k = "''src_gen''"]) simp_all
  moreover have "shape (JUInt (e_obs_gen e)) = shape (JUInt (e_obs_gen e'))"
    by (rule member [where k = "''obs_gen''"]) simp_all
  moreover have "shape (JUInt (e_epoch e)) = shape (JUInt (e_epoch e'))"
    by (rule member [where k = "''epoch''"]) simp_all
  moreover have "shape (JUInt (e_seq e)) = shape (JUInt (e_seq e'))"
    by (rule member [where k = "''seq''"]) simp_all
  moreover have "shape (JString (e_label e)) = shape (JString (e_label e'))"
    by (rule member [where k = "''label''"]) simp_all
  ultimately show ?thesis
    by (cases e; cases e') (auto simp: event_envelope_def dest: ordinal_inject)
qed

subsection \<open>Properties\<close>

lemma map_JUInt_shape: "map shape (map JUInt gs) = map shape (map JUInt gs') \<Longrightarrow> gs = gs'"
  using shape_list [of JUInt gs gs' "\<lambda>g. g"] by simp

text \<open>C30: Two traces with the same canonical text, which is what the trace digest of a replay is
  taken of, agree in request, outcome, reason, epoch range, boots, generations and, event by
  event, in the whole envelope of their timelines; payload fields and raw evidence are not in it.\<close>

theorem trace_text_determines:
  assumes "to_canonical (trace_json a) = to_canonical (trace_json b)"
  shows "tr_request_id a = tr_request_id b \<and> tr_outcome a = tr_outcome b \<and>
    tr_terminal_reason a = tr_terminal_reason b \<and>
    tr_min_epoch a = tr_min_epoch b \<and> tr_max_epoch a = tr_max_epoch b \<and>
    tr_boots a = tr_boots b \<and> tr_src_gens a = tr_src_gens b \<and> tr_obs_gens a = tr_obs_gens b \<and>
    map event_envelope (tr_timeline a) = map event_envelope (tr_timeline b) \<and>
    trace_json (a\<lparr>tr_evidence := [], tr_timeline := map event_envelope (tr_timeline a)\<rparr>) = trace_json a"
proof -
  note member = shape_member [OF same_text_shape [OF assms, unfolded trace_json_def known_id_def]]
  have "shape (JString (to_hex (tr_request_id a))) = shape (JString (to_hex (tr_request_id b)))"
    by (rule member [where k = "''request_id''"]) simp_all
  moreover have "shape (JString (outcome_name (tr_outcome a))) = shape (JString (outcome_name (tr_outcome b)))"
    by (rule member [where k = "''outcome''"]) simp_all
  moreover have "shape (JString (tr_terminal_reason a)) = shape (JString (tr_terminal_reason b))"
    by (rule member [where k = "''terminal_reason''"]) simp_all
  moreover have "shape (JUInt (tr_min_epoch a)) = shape (JUInt (tr_min_epoch b))"
    by (rule member [where k = "''epoch_min''"]) simp_all
  moreover have "shape (JUInt (tr_max_epoch a)) = shape (JUInt (tr_max_epoch b))"
    by (rule member [where k = "''epoch_max''"]) simp_all
  moreover have "shape (json_array (map (\<lambda>v. JString (to_hex v)) (tr_boots a))) =
      shape (json_array (map (\<lambda>v. JString (to_hex v)) (tr_boots b)))"
    by (rule member [where k = "''boots''"]) simp_all
  then have "map (\<lambda>v. v) (tr_boots a) = map (\<lambda>v. v) (tr_boots b)"
    unfolding json_array_list by (intro shape_list [where f = "\<lambda>v. JString (to_hex v)"]) simp_all
  moreover have "shape (json_array (map JUInt (tr_src_gens a))) = shape (json_array (map JUInt (tr_src_gens b)))"
    by (rule member [where k = "''src_gens''"]) simp_all
  then have "tr_src_gens a = tr_src_gens b"
    unfolding json_array_list by (intro map_JUInt_shape) simp
  moreover have "shape (json_array (map JUInt (tr_obs_gens a))) = shape (json_array (map JUInt (tr_obs_gens b)))"
    by (rule member [where k = "''obs_gens''"]) simp_all
  then have "tr_obs_gens a = tr_obs_gens b"
    unfolding json_array_list by (intro map_JUInt_shape) simp
  moreover have "shape (json_array (map event_json (tr_timeline a))) = shape (json_array (map event_json (tr_timeline b)))"
    by (rule member [where k = "''timeline''"]) simp_all
  then have "map event_envelope (tr_timeline a) = map event_envelope (tr_timeline b)"
    unfolding json_array_list by (intro shape_list [OF _ event_json_shape]) simp
  moreover have "event_json (event_envelope e) = event_json e" for e
    by (simp add: event_json_def event_envelope_def)
  then have "trace_json (a\<lparr>tr_evidence := [], tr_timeline := map event_envelope (tr_timeline a)\<rparr>) = trace_json a"
    by (simp add: trace_json_def comp_def)
  ultimately show ?thesis by simp
qed

theorem trace_text_determines_witness:
  "map event_envelope (tr_timeline sample_trace) =
   map event_envelope (tr_timeline (sample_trace\<lparr>tr_evidence := []\<rparr>))"
proof -
  have "trace_json sample_trace = trace_json (sample_trace\<lparr>tr_evidence := []\<rparr>)"
    by (simp add: trace_json_def)
  then show ?thesis
    using trace_text_determines [of sample_trace "sample_trace\<lparr>tr_evidence := []\<rparr>"] by simp
qed

end
