(* ===== verification/Replay.thy ===== *)
theory Replay
  imports Views
begin

section \<open>Replay and its digests\<close>

text \<open>
  \<^verbatim>\<open>include/servingobs/replay/replay.hpp\<close> and \<^verbatim>\<open>src/replay.cpp\<close>: evidence is grouped by request,
  every group reconstructed, and four digests are taken: of the evidence, of the traces, of
  the explanations and of the aggregate. \<open>Err\<close> is the exception of \<^verbatim>\<open>BinaryWriter\<close> for a length
  beyond 32 bits. The lemmas say what the groups are and that the order of the evidence does
  not matter.
\<close>

subsection \<open>Digests of evidence and traces\<close>

definition canonical_trace :: "request_trace \<Rightarrow> string" where
  "canonical_trace t = to_canonical (trace_json t)"

definition canonical_explanation :: "request_trace \<Rightarrow> string" where
  "canonical_explanation t = to_canonical (explanation_json (explain_request t))"

definition trace_digest_of :: "request_trace \<Rightarrow> bytes" where
  "trace_digest_of t = sha256 (str_bytes (canonical_trace t))"

definition hash_writer :: "writer \<Rightarrow> bytes result" where
  "hash_writer w = (case w of Err e \<Rightarrow> Err e | Ok b \<Rightarrow> Ok (sha256 b))"

text \<open>\<^verbatim>\<open>w.write_bytes(encode_observation_payload(o))\<close>: either of the two may throw.\<close>

definition write_entry :: "observation \<Rightarrow> writer \<Rightarrow> writer" where
  "write_entry ob w =
     (case w of Err e \<Rightarrow> Err e
      | Ok b \<Rightarrow> (case encode_observation_payload ob of Err e \<Rightarrow> Err e | Ok p \<Rightarrow> write_bytes p (Ok b)))"

definition before_id :: "observation \<Rightarrow> observation \<Rightarrow> bool" where
  "before_id a b = (o_id a < o_id b)"

interpretation by_id: sort_order before_id
  by unfold_locales (auto simp: before_id_def)

definition evidence_bytes :: "observation list \<Rightarrow> writer" where
  "evidence_bytes obs =
     wseq [write_u64 (of_nat (length obs)), wseq (map write_entry (cpp_sort before_id obs))] (Ok [])"

definition evidence_digest_of :: "observation list \<Rightarrow> bytes result" where
  "evidence_digest_of obs = hash_writer (evidence_bytes obs)"

subsection \<open>Grouping\<close>

text \<open>\<^verbatim>\<open>if (!rid.is_null()) groups[rid].push_back(o)\<close>\<close>

definition group_step :: "observation \<Rightarrow> (request_id, observation list) omap \<Rightarrow> (request_id, observation list) omap" where
  "group_step ob g =
     (let rid = o_request_id ob; old = (case map_of g rid of None \<Rightarrow> [] | Some obs \<Rightarrow> obs)
      in if is_null rid then g else omap_set rid (old @ [ob]) g)"

definition request_groups :: "observation list \<Rightarrow> (request_id, observation list) omap" where
  "request_groups obs = fold group_step obs []"

definition replay_traces :: "observation list \<Rightarrow> request_trace list" where
  "replay_traces obs = map (\<lambda>(rid, os). reconstruct_trace os rid) (request_groups obs)"

subsection \<open>The aggregate\<close>

record replay_counts =
  rc_retries :: u64
  rc_kvhits :: u64
  rc_kvmiss :: u64
  rc_bytes_h2d :: u64
  rc_total_lat :: u64
  rc_gpu :: u64

definition zero_counts :: replay_counts where [defaults]:
  "zero_counts = \<lparr>rc_retries = 0, rc_kvhits = 0, rc_kvmiss = 0, rc_bytes_h2d = 0, rc_total_lat = 0, rc_gpu = 0\<rparr>"

text \<open>The inner loop; the conversion of a double to \<^verbatim>\<open>u64\<close> is \<open>u64_of_f64\<close> of \<open>Attribution\<close>.\<close>

definition count_observation :: "observation \<Rightarrow> replay_counts \<Rightarrow> replay_counts" where
  "count_observation ob c =
     (let c1 = (if o_type ob = OT_RETRY then c\<lparr>rc_retries := rc_retries c + 1\<rparr>
                else if o_type ob = OT_KV_HIT then c\<lparr>rc_kvhits := rc_kvhits c + 1\<rparr>
                else if o_type ob = OT_KV_MISS then c\<lparr>rc_kvmiss := rc_kvmiss c + 1\<rparr>
                else c)
      in c1\<lparr>rc_bytes_h2d := rc_bytes_h2d c1 + u64_field ob ''bytes_h2d'' 0,
            rc_gpu := rc_gpu c1 + (if 0 < u64_field ob ''gpu_ms'' 0
              then u64_of_f64 (f64_mul (f64_field ob ''gpu_ms'' (f64_zero False)) million) else 0)\<rparr>)"

definition count_trace :: "request_trace \<Rightarrow> replay_counts \<Rightarrow> replay_counts" where
  "count_trace t c =
     (let a = attribute_resources t;
          c1 = c\<lparr>rc_retries := rc_retries c + (at_spec_proposed a + at_spec_accepted a + at_spec_rejected a)\<rparr>;
          c2 = fold count_observation (tr_evidence t) c1
      in c2\<lparr>rc_total_lat := rc_total_lat c2 + at_total_latency a\<rparr>)"

definition replay_counts_of :: "request_trace list \<Rightarrow> replay_counts" where
  "replay_counts_of ts = fold count_trace ts zero_counts"

definition aggregate_json :: "nat \<Rightarrow> request_trace list \<Rightarrow> json" where
  "aggregate_json n ts =
     (let c = replay_counts_of ts
      in json_object
           [(''obs_count'', JUInt (of_nat n)), (''request_trace_count'', JUInt (of_nat (length ts))),
            (''metrics'', metrics_json (tail_metrics_of (map trace_latency ts))),
            (''retry_events'', JUInt (rc_retries c)), (''kv_hits'', JUInt (rc_kvhits c)),
            (''kv_misses'', JUInt (rc_kvmiss c)), (''bytes_h2d'', JUInt (rc_bytes_h2d c)),
            (''total_latency_ns'', JUInt (rc_total_lat c)), (''gpu_exec_ns'', JUInt (rc_gpu c))])"

subsection \<open>The replay\<close>

record replay_result =
  rp_obs_count :: u64
  rp_request_trace_count :: u64
  rp_evidence_digest :: bytes
  rp_trace_digest :: bytes
  rp_explanation_digest :: bytes
  rp_aggregate_digest :: bytes
  rp_traces :: "request_trace list"
  rp_metrics :: tail_metrics

text \<open>A declared result; its digests are then indeterminate in C++, and zero here.\<close>

definition no_digest :: bytes where
  "no_digest = replicate 32 0"

definition empty_replay :: replay_result where [defaults]:
  "empty_replay = \<lparr>rp_obs_count = 0, rp_request_trace_count = 0, rp_evidence_digest = no_digest,
     rp_trace_digest = no_digest, rp_explanation_digest = no_digest, rp_aggregate_digest = no_digest,
     rp_traces = [], rp_metrics = empty_metrics\<rparr>"

text \<open>The loop over the traces feeds the two writers \<^verbatim>\<open>tw\<close> and \<^verbatim>\<open>xw\<close> in turn.\<close>

definition digest_step :: "request_trace \<Rightarrow> (bytes \<times> bytes) result \<Rightarrow> (bytes \<times> bytes) result" where
  "digest_step t ws =
     (case ws of Err e \<Rightarrow> Err e
      | Ok (tw, xw) \<Rightarrow>
          (case write_bytes (str_bytes (canonical_trace t)) (Ok tw) of Err e \<Rightarrow> Err e
           | Ok tw' \<Rightarrow>
               (case write_bytes (str_bytes (canonical_explanation t)) (Ok xw) of Err e \<Rightarrow> Err e
                | Ok xw' \<Rightarrow> Ok (tw', xw'))))"

definition replay :: "observation list \<Rightarrow> replay_result result" where
  "replay obs =
     (case evidence_digest_of obs of Err e \<Rightarrow> Err e
      | Ok ev \<Rightarrow>
          (let ts = replay_traces obs
           in case fold digest_step ts (Ok ([], [])) of Err e \<Rightarrow> Err e
              | Ok (tw, xw) \<Rightarrow> Ok
                  \<lparr>rp_obs_count = of_nat (length obs), rp_request_trace_count = of_nat (length ts),
                   rp_evidence_digest = ev, rp_trace_digest = sha256 tw, rp_explanation_digest = sha256 xw,
                   rp_aggregate_digest = sha256 (str_bytes (to_canonical (aggregate_json (length obs) ts))),
                   rp_traces = ts, rp_metrics = tail_metrics_of (map trace_latency ts)\<rparr>))"

definition replay_json :: "replay_result \<Rightarrow> json" where
  "replay_json r = json_object
     [(''obs_count'', JUInt (rp_obs_count r)), (''request_trace_count'', JUInt (rp_request_trace_count r)),
      (''evidence_digest'', JString (digest_hex (rp_evidence_digest r))),
      (''trace_digest'', JString (digest_hex (rp_trace_digest r))),
      (''explanation_digest'', JString (digest_hex (rp_explanation_digest r))),
      (''aggregate_digest'', JString (digest_hex (rp_aggregate_digest r))),
      (''tail'', metrics_json (rp_metrics r))]"

subsection \<open>What the groups are\<close>

definition requests_of :: "observation list \<Rightarrow> request_id set" where
  "requests_of obs = o_request_id ` set obs - {id_null}"

definition request_evidence :: "request_id \<Rightarrow> observation list \<Rightarrow> observation list" where
  "request_evidence rid obs = filter (\<lambda>ob. o_request_id ob = rid) obs"

lemma is_null_eq: "is_null v \<longleftrightarrow> v = id_null"
  by (cases v) (auto simp: is_null_def id_null_def)

lemma group_step_ok: "omap_ok g \<Longrightarrow> omap_ok (group_step ob g)"
  by (simp add: group_step_def Let_def)

lemma fold_group_ok: "omap_ok g \<Longrightarrow> omap_ok (fold group_step obs g)"
  by (induction obs arbitrary: g) (simp_all add: group_step_ok)

lemma fold_group_lookup:
  "map_of (fold group_step obs g) rid =
     (if rid \<noteq> id_null \<and> request_evidence rid obs \<noteq> []
      then Some ((case map_of g rid of None \<Rightarrow> [] | Some old \<Rightarrow> old) @ request_evidence rid obs)
      else map_of g rid)"
  by (induction obs arbitrary: g)
     (auto simp: group_step_def request_evidence_def is_null_eq Let_def split: option.splits)

lemma groups_ok: "omap_ok (request_groups obs)"
  by (simp add: request_groups_def fold_group_ok)

lemma groups_lookup:
  "map_of (request_groups obs) rid =
     (if rid \<noteq> id_null \<and> request_evidence rid obs \<noteq> [] then Some (request_evidence rid obs) else None)"
  by (simp add: request_groups_def fold_group_lookup)

lemma groups_member:
  "(rid, os) \<in> set (request_groups obs) \<longleftrightarrow> rid \<in> requests_of obs \<and> os = request_evidence rid obs"
proof -
  have "(rid, os) \<in> set (request_groups obs) \<longleftrightarrow> map_of (request_groups obs) rid = Some os"
    using groups_ok omap_ok_distinct map_of_eq_Some_iff by metis
  also have "\<dots> \<longleftrightarrow> rid \<in> requests_of obs \<and> os = request_evidence rid obs"
    by (auto simp: groups_lookup requests_of_def request_evidence_def filter_empty_conv)
  finally show ?thesis .
qed

lemma replay_traces_requests:
  "replay_traces obs =
     map (\<lambda>rid. reconstruct_trace (request_evidence rid obs) rid) (sorted_list_of_set (requests_of obs))"
proof -
  have keys: "map fst (request_groups obs) = sorted_list_of_set (requests_of obs)"
  proof (rule sorted_list_of_set.idem_if_sorted_distinct [symmetric, THEN trans])
    show "sorted (map fst (request_groups obs))" "distinct (map fst (request_groups obs))"
      using groups_ok by (auto simp: omap_ok_def strict_sorted_iff)
    have "rid \<in> fst ` set (request_groups obs) \<longleftrightarrow> rid \<in> requests_of obs" for rid
      unfolding image_iff by (metis groups_member prod.collapse fst_conv)
    then have "set (map fst (request_groups obs)) = requests_of obs" by auto
    then show "sorted_list_of_set (set (map fst (request_groups obs))) = sorted_list_of_set (requests_of obs)"
      by simp
  qed
  have "map (\<lambda>(rid, os). reconstruct_trace os rid) (request_groups obs) =
      map (\<lambda>e. reconstruct_trace (request_evidence (fst e) obs) (fst e)) (request_groups obs)"
    by (auto simp: groups_member)
  then show ?thesis by (simp add: replay_traces_def keys [symmetric] comp_def)
qed

subsection \<open>The order of the evidence\<close>

lemma reconstruct_permutation:
  assumes "mset os = mset os'" and "inj_on o_id (set os)"
  shows "reconstruct_trace os rid = reconstruct_trace os' rid"
  using timeline.sort_permutation [OF assms(1) distinct_ids_separate [OF assms(2)]]
  by (simp add: reconstruct_trace_def)

lemma replay_traces_permutation:
  assumes "mset obs = mset obs'" and "inj_on o_id (set obs)"
  shows "replay_traces obs = replay_traces obs'"
proof -
  have "requests_of obs = requests_of obs'"
    using mset_eq_setD [OF assms(1)] by (simp add: requests_of_def)
  moreover have "reconstruct_trace (request_evidence rid obs) rid = reconstruct_trace (request_evidence rid obs') rid" for rid
    using assms by (intro reconstruct_permutation)
      (auto simp: request_evidence_def mset_filter intro: inj_on_subset)
  ultimately show ?thesis by (simp add: replay_traces_requests)
qed

lemma separates_ids: "inj_on o_id A \<Longrightarrow> separates before_id A"
  by (auto simp: separates_def before_id_def inj_on_def neq_iff) (metis linorder_neqE)+

subsection \<open>What the aggregate counts\<close>

lemma count_observation_if:
  "count_observation ob c = c\<lparr>
     rc_retries := rc_retries c + (if o_type ob = OT_RETRY then 1 else 0),
     rc_kvhits := rc_kvhits c + (if o_type ob = OT_KV_HIT then 1 else 0),
     rc_kvmiss := rc_kvmiss c + (if o_type ob = OT_KV_MISS then 1 else 0),
     rc_bytes_h2d := rc_bytes_h2d c + u64_field ob ''bytes_h2d'' 0,
     rc_gpu := rc_gpu c + (if 0 < u64_field ob ''gpu_ms'' 0
       then u64_of_f64 (f64_mul (f64_field ob ''gpu_ms'' (f64_zero False)) million) else 0)\<rparr>"
  by (simp add: count_observation_def)

lemma fold_count_observation:
  "rc_retries (fold count_observation os c) = rc_retries c + of_nat (obs_number {OT_RETRY} os)"
  "rc_kvhits (fold count_observation os c) = rc_kvhits c + of_nat (obs_number {OT_KV_HIT} os)"
  "rc_kvmiss (fold count_observation os c) = rc_kvmiss c + of_nat (obs_number {OT_KV_MISS} os)"
  "rc_bytes_h2d (fold count_observation os c) = rc_bytes_h2d c + (\<Sum>ob \<leftarrow> os. u64_field ob ''bytes_h2d'' 0)"
  "rc_total_lat (fold count_observation os c) = rc_total_lat c"
  by (induction os arbitrary: c) (simp_all add: count_observation_if obs_number_def add.assoc)

definition speculated :: "request_trace \<Rightarrow> u64" where
  "speculated t = at_spec_proposed (attribute_resources t) + at_spec_accepted (attribute_resources t) +
     at_spec_rejected (attribute_resources t)"

lemma fold_count_trace:
  "rc_retries (fold count_trace ts c) =
     rc_retries c + (\<Sum>t \<leftarrow> ts. of_nat (obs_number {OT_RETRY} (tr_evidence t)) + speculated t)"
  "rc_kvhits (fold count_trace ts c) = rc_kvhits c + (\<Sum>t \<leftarrow> ts. of_nat (obs_number {OT_KV_HIT} (tr_evidence t)))"
  "rc_kvmiss (fold count_trace ts c) = rc_kvmiss c + (\<Sum>t \<leftarrow> ts. of_nat (obs_number {OT_KV_MISS} (tr_evidence t)))"
  "rc_bytes_h2d (fold count_trace ts c) = rc_bytes_h2d c + (\<Sum>t \<leftarrow> ts. sum_u64 t ''bytes_h2d'')"
  "rc_total_lat (fold count_trace ts c) = rc_total_lat c + (\<Sum>t \<leftarrow> ts. at_total_latency (attribute_resources t))"
  by (induction ts arbitrary: c)
     (simp_all add: count_trace_def fold_count_observation speculated_def sum_u64_list Let_def algebra_simps)

definition double_gpu :: "observation \<Rightarrow> bool" where
  "double_gpu ob = (case map_of (o_fields ob) ''gpu_ms'' of None \<Rightarrow> True | Some v \<Rightarrow> (\<exists>d. v = FvF64 d))"

lemma fold_count_gpu:
  "list_all double_gpu os \<Longrightarrow> rc_gpu (fold count_observation os c) = rc_gpu c"
  by (induction os arbitrary: c)
     (auto simp: count_observation_if double_gpu_def u64_field_def split: option.splits)

lemma fold_count_trace_gpu:
  "list_all (\<lambda>t. list_all double_gpu (tr_evidence t)) ts \<Longrightarrow> rc_gpu (fold count_trace ts c) = rc_gpu c"
  by (induction ts arbitrary: c) (simp_all add: count_trace_def fold_count_gpu Let_def)

subsection \<open>Properties\<close>

text \<open>C32: A replay reconstructs one trace per request named by the evidence, in the order of the
  request ids, each from exactly the observations that name it, in evidence order; observations
  that name no request are in no trace.\<close>

theorem replay_traces_exact:
  "replay_traces obs =
     map (\<lambda>rid. reconstruct_trace (filter (\<lambda>ob. o_request_id ob = rid) obs) rid)
       (sorted_list_of_set (o_request_id ` set obs - {id_null}))"
  using replay_traces_requests [of obs] by (simp add: requests_of_def request_evidence_def)

text \<open>C10: A replay does not depend on the order of the evidence: two lists of the same observations
  with distinct ids give the same result, all four digests, traces and metrics included.\<close>

theorem replay_order_independent:
  assumes "mset obs = mset obs'" and "distinct (map o_id obs)"
  shows "replay obs = replay obs'"
proof -
  have inj: "inj_on o_id (set obs)" using assms(2) by (simp add: distinct_map)
  note same = mset_eq_length [OF assms(1)] replay_traces_permutation [OF assms(1) inj]
    by_id.sort_permutation [OF assms(1) separates_ids [OF inj]]
  show ?thesis unfolding replay_def evidence_digest_of_def evidence_bytes_def same ..
qed

theorem replay_order_independent_witness:
  "replay [sample_observation, sample_observation\<lparr>o_id := Id128 1 1\<rparr>] =
   replay [sample_observation\<lparr>o_id := Id128 1 1\<rparr>, sample_observation]"
  by (rule replay_order_independent) (simp_all add: sample_observation_def add_mset_commute)

text \<open>What the aggregate digest covers: its cache counts are the numbers of hit and miss
  observations and its bytes and latencies the sums over the traces, modulo $2^{64}$; but its
  "retry events" also count every proposed, accepted and rejected speculative token.\<close>

theorem aggregate_counts_exact:
  "rc_kvhits (replay_counts_of ts) = (\<Sum>t \<leftarrow> ts. of_nat (obs_number {OT_KV_HIT} (tr_evidence t))) \<and>
   rc_kvmiss (replay_counts_of ts) = (\<Sum>t \<leftarrow> ts. of_nat (obs_number {OT_KV_MISS} (tr_evidence t))) \<and>
   rc_bytes_h2d (replay_counts_of ts) = (\<Sum>t \<leftarrow> ts. sum_u64 t ''bytes_h2d'') \<and>
   rc_total_lat (replay_counts_of ts) = (\<Sum>t \<leftarrow> ts. at_total_latency (attribute_resources t)) \<and>
   rc_retries (replay_counts_of ts) =
     (\<Sum>t \<leftarrow> ts. of_nat (obs_number {OT_RETRY} (tr_evidence t)) + speculated t)"
  by (simp add: replay_counts_of_def fold_count_trace zero_counts_def)

text \<open>The GPU time of the aggregate is zero whenever the GPU times reported are doubles, which
  is how every producer reports them: the guard reads the double as an integer field.\<close>

theorem aggregate_gpu_zero:
  assumes "list_all (\<lambda>t. list_all double_gpu (tr_evidence t)) ts"
  shows "rc_gpu (replay_counts_of ts) = 0"
  using fold_count_trace_gpu [OF assms] by (simp add: replay_counts_of_def zero_counts_def)

theorem aggregate_gpu_zero_witness:
  "rc_gpu (replay_counts_of
     [sample_trace\<lparr>tr_evidence := [sample_observation\<lparr>o_fields := [(''gpu_ms'', FvF64 (f64_of_nat 3))]\<rparr>]\<rparr>]) = 0"
  by (rule aggregate_gpu_zero) (simp add: double_gpu_def)

end
