(* ===== verification/Authority.thy ===== *)
theory Authority
  imports Observation
begin

section \<open>The source authority registry\<close>

text \<open>
  \<^verbatim>\<open>include/servingobs/model/source_authority.hpp\<close> and \<^verbatim>\<open>src/authority.cpp\<close>: the
  authoritative view of one source, the registry keyed by a 64-bit combination of source and
  worker, registration, restart and the validation of an observation's envelope. The abstract
  specification is \<open>admits\<close>, the envelopes a view admits, and \<open>advance\<close>, the view after one
  of them; \<open>validate\<close> refines it.
\<close>

unbundle bit_operations_syntax

subsection \<open>Data\<close>

datatype authority_decision =
    AD_ACCEPTED
  | AD_STALE_EPOCH
  | AD_STALE_SOURCE_GENERATION
  | AD_STALE_OBSERVATION_GENERATION
  | AD_STALE_BOOT
  | AD_DUPLICATE_SEQUENCE
  | AD_OUT_OF_ORDER_SEQUENCE
  | AD_UNREGISTERED_SOURCE
  | AD_FRESH_BUT_DOWNHEALTH

fun authority_decision_num :: "authority_decision \<Rightarrow> u8" where
  "authority_decision_num AD_ACCEPTED = 0"
| "authority_decision_num AD_STALE_EPOCH = 1"
| "authority_decision_num AD_STALE_SOURCE_GENERATION = 2"
| "authority_decision_num AD_STALE_OBSERVATION_GENERATION = 3"
| "authority_decision_num AD_STALE_BOOT = 4"
| "authority_decision_num AD_DUPLICATE_SEQUENCE = 5"
| "authority_decision_num AD_OUT_OF_ORDER_SEQUENCE = 6"
| "authority_decision_num AD_UNREGISTERED_SOURCE = 7"
| "authority_decision_num AD_FRESH_BUT_DOWNHEALTH = 8"

fun authority_decision_name :: "authority_decision \<Rightarrow> string" where
  "authority_decision_name AD_ACCEPTED = ''accepted''"
| "authority_decision_name AD_STALE_EPOCH = ''stale_epoch''"
| "authority_decision_name AD_STALE_SOURCE_GENERATION = ''stale_source_generation''"
| "authority_decision_name AD_STALE_OBSERVATION_GENERATION = ''stale_observation_generation''"
| "authority_decision_name AD_STALE_BOOT = ''stale_boot''"
| "authority_decision_name AD_DUPLICATE_SEQUENCE = ''duplicate_sequence''"
| "authority_decision_name AD_OUT_OF_ORDER_SEQUENCE = ''out_of_order_sequence''"
| "authority_decision_name AD_UNREGISTERED_SOURCE = ''unregistered_source''"
| "authority_decision_name AD_FRESH_BUT_DOWNHEALTH = ''fresh_but_downhealth''"

record source_authority =
  a_source :: source_id
  a_worker :: worker_id
  a_epoch :: u64
  a_src_gen :: u64
  a_obs_gen :: u64
  a_boot :: worker_boot_id
  a_last_seq :: u64
  a_last_obs_ts :: u64
  a_has_last_ts :: bool
  a_health :: source_health
  a_registered :: bool
  a_restart_count :: i32

definition default_authority :: source_authority where [defaults]:
  "default_authority =
     \<lparr>a_source = id_null, a_worker = id_null, a_epoch = 0, a_src_gen = 0, a_obs_gen = 0,
      a_boot = id_null, a_last_seq = 0, a_last_obs_ts = 0, a_has_last_ts = False,
      a_health = SH_UNKNOWN, a_registered = False, a_restart_count = 0\<rparr>"

type_synonym registry = "(u64, source_authority) omap"

definition key_of :: "source_id \<Rightarrow> worker_id \<Rightarrow> u64" where
  "key_of s w =
     (let a = id_hi s XOR (id_lo s * 0x9e3779b97f4a7c15);
          b = id_hi w XOR (id_lo w * 0x9e3779b97f4a7c15)
      in a XOR (b + 0x9e3779b97f4a7c15 + push_bit 6 a + drop_bit 2 a))"

abbreviation obs_key :: "observation \<Rightarrow> u64" where
  "obs_key ob \<equiv> key_of (o_source ob) (o_worker ob)"

subsection \<open>Operations\<close>

text \<open>The record a fresh registration builds; \<^verbatim>\<open>old\<close> is the entry it replaces, if any.\<close>

definition fresh_authority :: "observation \<Rightarrow> u64 \<Rightarrow> source_authority option \<Rightarrow> source_authority" where
  "fresh_authority ob epoch old = default_authority\<lparr>
     a_source := o_source ob, a_worker := o_worker ob, a_epoch := epoch,
     a_src_gen := o_src_gen ob, a_obs_gen := o_obs_gen ob, a_boot := o_boot ob,
     a_last_seq := 0, a_has_last_ts := False,
     a_health := (if o_has_health ob then o_health ob else SH_HEALTHY), a_registered := True,
     a_restart_count := (case old of None \<Rightarrow> 0 | Some a \<Rightarrow> a_restart_count a + 1)\<rparr>"

definition register_source ::
    "observation \<Rightarrow> u64 \<Rightarrow> bool \<Rightarrow> registry \<Rightarrow> source_authority result \<times> registry" where
  "register_source ob epoch force_reassign_boot reg =
     (let k = obs_key ob;
          install = (\<lambda>old. let a = fresh_authority ob epoch old in (Ok a, omap_set k a reg))
      in (case map_of reg k of
            None \<Rightarrow> install None
          | Some a \<Rightarrow>
              if \<not> force_reassign_boot \<and> a_boot a = o_boot ob \<and> a_src_gen a = o_src_gen ob \<and>
                 a_obs_gen a = o_obs_gen ob
              then (let a' = a\<lparr>a_epoch := epoch,
                               a_health := (if o_has_health ob then o_health ob else a_health a)\<rparr>
                    in (Ok a', omap_set k a' reg))
              else install (Some a)))"

text \<open>The view after an accepted observation.\<close>

definition advance :: "observation \<Rightarrow> source_authority \<Rightarrow> source_authority" where
  "advance ob a =
     (let a1 = (if a_last_seq a < o_seq ob then a\<lparr>a_last_seq := o_seq ob\<rparr> else a);
          a2 = (if o_has_obs_ts ob then a1\<lparr>a_last_obs_ts := o_obs_ts ob, a_has_last_ts := True\<rparr> else a1)
      in (if o_has_health ob then a2\<lparr>a_health := o_health ob\<rparr> else a2))"

definition validate ::
    "observation \<Rightarrow> registry \<Rightarrow> (authority_decision \<times> string) \<times> registry" where
  "validate ob reg =
     (case map_of reg (obs_key ob) of
        None \<Rightarrow>
          ((AD_UNREGISTERED_SOURCE, ''source '' @ to_hex (o_source ob) @ '' worker '' @
             to_hex (o_worker ob) @ '' not registered''), reg)
      | Some a \<Rightarrow>
          if o_epoch ob < a_epoch a
          then ((AD_STALE_EPOCH, ''stale epoch '' @ to_string_word (o_epoch ob) @ '' < '' @
                  to_string_word (a_epoch a)), reg)
          else if o_src_gen ob < a_src_gen a
          then ((AD_STALE_SOURCE_GENERATION, ''stale source generation '' @
                  to_string_word (o_src_gen ob) @ '' < '' @ to_string_word (a_src_gen a)), reg)
          else if a_src_gen a < o_src_gen ob
          then ((AD_STALE_SOURCE_GENERATION,
                  ''source generation ahead of authority; must re-register''), reg)
          else if o_obs_gen ob < a_obs_gen a
          then ((AD_STALE_OBSERVATION_GENERATION, ''stale observation generation '' @
                  to_string_word (o_obs_gen ob) @ '' < '' @ to_string_word (a_obs_gen a)), reg)
          else if a_obs_gen a < o_obs_gen ob
          then ((AD_STALE_OBSERVATION_GENERATION,
                  ''observation generation ahead of authority; must re-register''), reg)
          else if o_boot ob \<noteq> a_boot a
          then ((AD_STALE_BOOT, ''stale boot '' @ to_hex (o_boot ob) @ '' != current '' @
                  to_hex (a_boot a)), reg)
          else if o_seq ob < a_last_seq a
          then ((AD_OUT_OF_ORDER_SEQUENCE, ''out-of-order sequence '' @ to_string_word (o_seq ob) @
                  '' < last '' @ to_string_word (a_last_seq a)), reg)
          else if o_seq ob = a_last_seq a \<and> a_last_seq a \<noteq> 0
          then ((AD_DUPLICATE_SEQUENCE, ''duplicate sequence '' @ to_string_word (o_seq ob)), reg)
          else ((AD_ACCEPTED, []), omap_set (obs_key ob) (advance ob a) reg))"

definition mark_restart ::
    "source_id \<Rightarrow> worker_id \<Rightarrow> worker_boot_id \<Rightarrow> u64 \<Rightarrow> registry \<Rightarrow> source_authority \<times> registry" where
  "mark_restart source worker new_boot epoch reg =
     (let k = key_of source worker;
          gens = (case map_of reg k of
                    Some old \<Rightarrow> (a_src_gen old + 1, a_obs_gen old + 1, a_restart_count old + 1)
                  | None \<Rightarrow> (1, 1, 0));
          a = default_authority\<lparr>a_source := source, a_worker := worker, a_epoch := epoch,
                a_src_gen := fst gens, a_obs_gen := fst (snd gens), a_restart_count := snd (snd gens),
                a_boot := new_boot, a_last_seq := 0, a_has_last_ts := False,
                a_health := SH_RESTARTING, a_registered := True\<rparr>
      in (a, omap_set k a reg))"

definition reg_has :: "source_id \<Rightarrow> worker_id \<Rightarrow> registry \<Rightarrow> bool" where
  "reg_has source worker reg = (map_of reg (key_of source worker) \<noteq> None)"

definition reg_get :: "source_id \<Rightarrow> worker_id \<Rightarrow> registry \<Rightarrow> source_authority" where
  "reg_get source worker reg =
     (case map_of reg (key_of source worker) of None \<Rightarrow> default_authority | Some a \<Rightarrow> a)"

subsection \<open>The codec of an authority\<close>

definition write_authority :: "source_authority \<Rightarrow> writer \<Rightarrow> writer" where
  "write_authority a =
     wseq [write_id (a_source a), write_id (a_worker a), write_u64 (a_epoch a),
       write_u64 (a_src_gen a), write_u64 (a_obs_gen a), write_id (a_boot a), write_u64 (a_last_seq a),
       write_u8 (if a_has_last_ts a then 1 else 0),
       (if a_has_last_ts a then write_u64 (a_last_obs_ts a) else wskip),
       write_u8 (source_health_num (a_health a)),
       write_u8 (if a_registered a then 1 else 0),
       write_i64 (scast (a_restart_count a))]"

definition read_authority_fields :: "source_authority rd" where
  "read_authority_fields = do {
     source \<leftarrow> r_id; worker \<leftarrow> r_id; epoch \<leftarrow> r_u64; src_gen \<leftarrow> r_u64; obs_gen \<leftarrow> r_u64;
     boot \<leftarrow> r_id; last_seq \<leftarrow> r_u64; ts \<leftarrow> r_u8;
     last_obs_ts \<leftarrow> (if ts \<noteq> 0 then r_u64 else State_Monad.return 0);
     h \<leftarrow> r_u8; registered \<leftarrow> r_u8; restarts \<leftarrow> r_i64;
     State_Monad.return
       \<lparr>a_source = source, a_worker = worker, a_epoch = epoch, a_src_gen = src_gen, a_obs_gen = obs_gen,
        a_boot = boot, a_last_seq = last_seq, a_last_obs_ts = last_obs_ts, a_has_last_ts = (ts \<noteq> 0),
        a_health = (if h \<le> source_health_num SH_REJECTED then source_health_of_num h else SH_UNKNOWN),
        a_registered = (registered \<noteq> 0), a_restart_count = ucast restarts\<rparr> }"

definition read_authority :: "source_authority result rd" where
  "read_authority = do {
     a \<leftarrow> read_authority_fields;
     good \<leftarrow> r_ok;
     if \<not> good then do { e \<leftarrow> r_error; State_Monad.return (Err (''bad authority: '' @ e)) }
     else State_Monad.return (Ok a) }"

definition source_authority_digest :: "source_authority \<Rightarrow> bytes result" where
  "source_authority_digest a =
     (case write_authority a (Ok []) of Err e \<Rightarrow> Err e | Ok b \<Rightarrow> Ok (sha256 b))"

definition authority_ok :: "source_authority \<Rightarrow> bool" where
  "authority_ok a = (a_has_last_ts a \<or> a_last_obs_ts a = 0)"

subsection \<open>What validation promises\<close>

text \<open>\<open>admits a ob\<close>: the envelope of \<open>ob\<close> is current for the view \<open>a\<close>.\<close>

definition admits :: "source_authority \<Rightarrow> observation \<Rightarrow> bool" where
  "admits a ob \<longleftrightarrow>
     a_epoch a \<le> o_epoch ob \<and> o_src_gen ob = a_src_gen a \<and> o_obs_gen ob = a_obs_gen a \<and>
     o_boot ob = a_boot a \<and> (a_last_seq a < o_seq ob \<or> o_seq ob = 0 \<and> a_last_seq a = 0)"

definition accepts :: "observation \<Rightarrow> registry \<Rightarrow> bool" where
  "accepts ob reg = (fst (fst (validate ob reg)) = AD_ACCEPTED)"

lemma advance_seq [simp]: "a_last_seq (advance ob a) = max (a_last_seq a) (o_seq ob)"
  by (auto simp: advance_def Let_def max_def)

lemma advance_same [simp]:
  "a_epoch (advance ob a) = a_epoch a" "a_src_gen (advance ob a) = a_src_gen a"
  "a_obs_gen (advance ob a) = a_obs_gen a" "a_boot (advance ob a) = a_boot a"
  "a_source (advance ob a) = a_source a" "a_worker (advance ob a) = a_worker a"
  "a_registered (advance ob a) = a_registered a" "a_restart_count (advance ob a) = a_restart_count a"
  by (simp_all add: advance_def Let_def)

lemma validate_unknown:
  "map_of reg (obs_key ob) = None \<Longrightarrow>
     fst (fst (validate ob reg)) = AD_UNREGISTERED_SOURCE \<and> snd (validate ob reg) = reg"
  by (simp add: validate_def)

lemma validate_admitted:
  "map_of reg (obs_key ob) = Some a \<Longrightarrow> admits a ob \<Longrightarrow>
     validate ob reg = ((AD_ACCEPTED, []), omap_set (obs_key ob) (advance ob a) reg)"
  by (auto simp: validate_def admits_def not_less)

lemma validate_not_admitted:
  "map_of reg (obs_key ob) = Some a \<Longrightarrow> \<not> admits a ob \<Longrightarrow>
     fst (fst (validate ob reg)) \<noteq> AD_ACCEPTED \<and> snd (fst (validate ob reg)) \<noteq> [] \<and>
     snd (validate ob reg) = reg"
  by (auto simp: validate_def admits_def not_less)

lemma accepts_iff:
  "accepts ob reg \<longleftrightarrow> (\<exists>a. map_of reg (obs_key ob) = Some a \<and> admits a ob)"
proof (cases "map_of reg (obs_key ob)")
  case None
  then show ?thesis by (simp add: accepts_def validate_unknown)
next
  case (Some a)
  then show ?thesis
    using validate_admitted [OF Some] validate_not_admitted [OF Some]
    by (cases "admits a ob") (simp_all add: accepts_def)
qed

lemma validate_rejected: "\<not> accepts ob reg \<Longrightarrow> snd (validate ob reg) = reg"
  using validate_unknown [of reg ob] validate_not_admitted [of reg ob]
  by (cases "map_of reg (obs_key ob)") (simp_all add: accepts_iff)

lemma validate_accepted:
  "accepts ob reg \<Longrightarrow>
     map_of (snd (validate ob reg)) k =
       (if k = obs_key ob then map_option (advance ob) (map_of reg k) else map_of reg k)"
  by (auto simp: accepts_iff validate_admitted)

lemma omap_ok_validate [simp]: "omap_ok reg \<Longrightarrow> omap_ok (snd (validate ob reg))"
  by (cases "accepts ob reg") (auto simp: accepts_iff validate_admitted validate_rejected)

text \<open>
  The interface of admission control: a check that admits an item exactly when the view of its
  key does, then advances that view and no other, and otherwise changes nothing; a rank of the
  views that admission raises to the item's own.
\<close>

locale admission =
  fixes check :: "'o \<Rightarrow> 's \<Rightarrow> bool \<times> 's"
    and view :: "'s \<Rightarrow> 'k \<Rightarrow> 'a option"
    and key :: "'o \<Rightarrow> 'k"
    and adm :: "'a \<Rightarrow> 'o \<Rightarrow> bool"
    and adv :: "'o \<Rightarrow> 'a \<Rightarrow> 'a"
    and rank :: "'a \<Rightarrow> 'r::linorder"
    and item_rank :: "'o \<Rightarrow> 'r"
    and floor :: 'r
  assumes check_iff: "fst (check ob s) \<longleftrightarrow> (\<exists>a. view s (key ob) = Some a \<and> adm a ob)"
    and check_rejects: "\<not> fst (check ob s) \<Longrightarrow> snd (check ob s) = s"
    and check_admits: "fst (check ob s) \<Longrightarrow>
      view (snd (check ob s)) k = (if k = key ob then map_option (adv ob) (view s k) else view s k)"
    and adv_rank: "adm a ob \<Longrightarrow> rank (adv ob a) = item_rank ob"
    and adm_rank: "adm a ob \<Longrightarrow> rank a < item_rank ob \<or> rank a = floor \<and> item_rank ob = floor"
    and floor_least: "floor \<le> item_rank ob"
begin

lemma adm_rank_le: "adm a ob \<Longrightarrow> rank a \<le> item_rank ob"
  using adm_rank by fastforce

lemma view_other: "k \<noteq> key ob \<Longrightarrow> view (snd (check ob s)) k = view s k"
  using check_rejects check_admits by (cases "fst (check ob s)") auto

lemma view_dom: "view (snd (check ob s)) k = None \<longleftrightarrow> view s k = None"
  using check_rejects check_admits by (cases "fst (check ob s)") auto

lemma rank_mono:
  assumes "view s k = Some a"
  shows "\<exists>a'. view (snd (check ob s)) k = Some a' \<and> rank a \<le> rank a'"
proof (cases "fst (check ob s) \<and> k = key ob")
  case True
  then have "adm a ob" using check_iff [of ob s] assms by auto
  then show ?thesis
    using True assms check_admits [of ob s k] adv_rank adm_rank_le by auto
next
  case False
  then show ?thesis
    using assms check_rejects [of ob s] view_other by (cases "fst (check ob s)") auto
qed

lemma rank_mono_run:
  "view s k = Some a \<Longrightarrow> \<exists>a'. view (fold (\<lambda>ob s. snd (check ob s)) obs s) k = Some a' \<and> rank a \<le> rank a'"
proof (induction obs arbitrary: s a)
  case (Cons ob obs)
  obtain a1 where a1: "view (snd (check ob s)) k = Some a1" "rank a \<le> rank a1"
    using rank_mono [OF Cons.prems] by blast
  show ?case
    using Cons.IH [OF a1(1)] a1(2) by (auto intro: order_trans)
qed simp

text \<open>
  However many checks lie between, a later admitted item of a key ranks above an earlier one,
  unless both are at the floor.
\<close>

lemma admitted_rank:
  assumes "fst (check ob s)" and "s' = fold (\<lambda>ob s. snd (check ob s)) obs (snd (check ob s))"
    and "fst (check ob' s')" and "key ob' = key ob"
  shows "item_rank ob < item_rank ob' \<or> item_rank ob = floor \<and> item_rank ob' = floor"
proof -
  obtain a where a: "view s (key ob) = Some a" "adm a ob"
    using assms(1) check_iff by blast
  then have "view (snd (check ob s)) (key ob) = Some (adv ob a)"
    using assms(1) check_admits by simp
  then obtain a' where a': "view s' (key ob) = Some a'" "rank (adv ob a) \<le> rank a'"
    using rank_mono_run assms(2) by blast
  then have adm: "adm a' ob'"
    using assms(3,4) check_iff [of ob' s'] by auto
  show ?thesis
    using adm_rank [OF adm] floor_least [of ob] a'(2) adv_rank [OF a(2)] by auto
qed

end

definition check_validate :: "observation \<Rightarrow> registry \<Rightarrow> bool \<times> registry" where
  "check_validate ob reg = (accepts ob reg, snd (validate ob reg))"

interpretation registry: admission check_validate map_of obs_key admits advance a_last_seq o_seq 0
  by unfold_locales
     (auto simp: check_validate_def accepts_iff validate_rejected validate_accepted admits_def max_def)

subsection \<open>Registration and restart\<close>

lemma register_ok: "\<exists>a. fst (register_source ob epoch force reg) = Ok a"
  by (auto simp: register_source_def Let_def split: option.split)

lemma register_view:
  "\<exists>a. fst (register_source ob epoch force reg) = Ok a \<and>
     snd (register_source ob epoch force reg) = omap_set (obs_key ob) a reg \<and>
     a_epoch a = epoch \<and> a_src_gen a = o_src_gen ob \<and> a_obs_gen a = o_obs_gen ob \<and>
     a_boot a = o_boot ob"
  by (auto simp: register_source_def Let_def fresh_authority_def split: option.split)

lemma register_other:
  "k \<noteq> obs_key ob \<Longrightarrow> map_of (snd (register_source ob epoch force reg)) k = map_of reg k"
  using register_view [of ob epoch force reg] by auto

lemma omap_ok_register [simp]:
  "omap_ok reg \<Longrightarrow> omap_ok (snd (register_source ob epoch force reg))"
  using register_view [of ob epoch force reg] by auto

lemma restart_view:
  "map_of (snd (mark_restart source worker boot epoch reg)) k =
     (if k = key_of source worker then Some (fst (mark_restart source worker boot epoch reg))
      else map_of reg k)"
  by (simp add: mark_restart_def Let_def)

lemma restart_authority:
  "a_boot (fst (mark_restart source worker boot epoch reg)) = boot"
  "a_epoch (fst (mark_restart source worker boot epoch reg)) = epoch"
  "a_last_seq (fst (mark_restart source worker boot epoch reg)) = 0"
  "map_of reg (key_of source worker) = Some a \<Longrightarrow>
     a_src_gen (fst (mark_restart source worker boot epoch reg)) = a_src_gen a + 1 \<and>
     a_obs_gen (fst (mark_restart source worker boot epoch reg)) = a_obs_gen a + 1"
  by (simp_all add: mark_restart_def Let_def default_authority_def)

lemma omap_ok_restart [simp]:
  "omap_ok reg \<Longrightarrow> omap_ok (snd (mark_restart source worker boot epoch reg))"
  by (simp add: mark_restart_def Let_def)

subsection \<open>The authority codec\<close>

lemma scast_ucast_i32: "(ucast (scast (x :: i32) :: i64) :: i32) = x"
  by (rule bit_word_eqI) (auto simp: bit_simps)

lemma inert_authority_fields [inert_intros]: "inert read_authority_fields"
  unfolding read_authority_fields_def by (intro inert_intros)

lemma inert_authority [inert_intros]: "inert read_authority"
  unfolding read_authority_def by (intro inert_intros)

definition authority_bytes :: "source_authority \<Rightarrow> bytes" where
  "authority_bytes a =
     to_bytes (a_source a) @ to_bytes (a_worker a) @ be_bytes 8 (a_epoch a) @
     be_bytes 8 (a_src_gen a) @ be_bytes 8 (a_obs_gen a) @ to_bytes (a_boot a) @
     be_bytes 8 (a_last_seq a) @ [if a_has_last_ts a then 1 else 0] @
     (if a_has_last_ts a then be_bytes 8 (a_last_obs_ts a) else []) @
     [source_health_num (a_health a)] @ [if a_registered a then 1 else 0] @
     be_bytes 8 (scast (a_restart_count a) :: i64) @ []"

lemma emits_authority: "emits (write_authority a) (authority_bytes a)"
  unfolding write_authority_def authority_bytes_def by (intro codec_intros)

lemma codes_authority_fields:
  assumes "authority_ok a"
  shows "codes read_authority_fields a (authority_bytes a)"
proof -
  have ts: "((if a_has_last_ts a then 1 else 0 :: u8) \<noteq> 0) = a_has_last_ts a"
    "((if a_registered a then 1 else 0 :: u8) \<noteq> 0) = a_registered a"
    by simp_all
  have d: "\<not> a_has_last_ts a \<Longrightarrow> 0 = a_last_obs_ts a"
    using assms by (simp add: authority_ok_def)
  show ?thesis
    unfolding read_authority_fields_def authority_bytes_def
    by (rule codes_bind [OF codes_id], rule codes_bind [OF codes_id],
        rule codes_bind [OF codes_words(3)], rule codes_bind [OF codes_words(3)],
        rule codes_bind [OF codes_words(3)], rule codes_bind [OF codes_id],
        rule codes_bind [OF codes_words(3)], rule codes_bind [OF codes_u8],
        rule codes_bind [OF codes_opt [OF ts(1) codes_words(3) d]], assumption,
        rule codes_bind [OF codes_u8], rule codes_bind [OF codes_u8],
        rule codes_bind [OF codes_words(4)], rule codes_return_eq,
        simp only: ts source_health_num_le' if_True source_health_of_num_num scast_ucast_i32, simp)
       (intro inert_intros)+
qed

lemma codes_authority:
  assumes "authority_ok a"
  shows "codes read_authority (Ok a) (authority_bytes a)"
proof -
  have "codes read_authority (Ok a) (authority_bytes a @ [] @ [])"
    unfolding read_authority_def
    by (rule codes_bind [OF codes_authority_fields [OF assms]], rule codes_bind [OF codes_ok],
        simp only: not_True_eq_False if_False, rule codes_return)
       (intro inert_intros)+
  then show ?thesis by simp
qed

interpretation authority_codec: codec write_authority read_authority Ok authority_ok
  by unfold_locales (use emits_authority codes_authority in \<open>auto intro: inert_intros\<close>)

subsection \<open>Properties\<close>

text \<open>Another source with the same registry key, and the registry the witnesses use.\<close>

definition alias_source :: "source_id \<Rightarrow> source_id" where
  "alias_source s = Id128 (id_hi s XOR (id_lo s * 0x9e3779b97f4a7c15)) 0"

definition sample_registry :: registry where
  "sample_registry = snd (register_source sample_observation 5 False [])"

lemma sample_view:
  "map_of sample_registry (obs_key sample_observation) = Some (fresh_authority sample_observation 5 None)"
  by (simp add: sample_registry_def register_source_def Let_def)

lemma sample_accepted: "accepts sample_observation sample_registry"
  using sample_view
  by (auto simp: accepts_iff admits_def fresh_authority_def default_authority_def sample_observation_def
        default_observation_def)

text \<open>C11: Validation accepts an observation exactly when its key is registered and the current
  view admits its envelope; then only that key's view changes, to the view with the
  observation's sequence number; in every other case the registry is left as it was and, for
  a registered key, a reason is given.\<close>

theorem validate_refines_admission:
  "(case map_of reg (obs_key ob) of
      None \<Rightarrow> fst (fst (validate ob reg)) = AD_UNREGISTERED_SOURCE \<and> snd (validate ob reg) = reg
    | Some a \<Rightarrow>
        if admits a ob
        then fst (validate ob reg) = (AD_ACCEPTED, []) \<and>
             map_of (snd (validate ob reg)) = (map_of reg)(obs_key ob \<mapsto> advance ob a) \<and>
             a_last_seq (advance ob a) = o_seq ob
        else fst (fst (validate ob reg)) \<noteq> AD_ACCEPTED \<and> snd (fst (validate ob reg)) \<noteq> [] \<and>
             snd (validate ob reg) = reg)"
  using validate_unknown [of reg ob] validate_admitted [of reg ob] validate_not_admitted [of reg ob]
  by (auto split: option.split simp: admits_def max_def)

text \<open>C20: Within one registration a positive sequence number is accepted once and only upwards:
  whatever observations are validated between two accepted ones of the same key, the later
  one has the larger sequence number.\<close>

theorem accepted_sequence_increases:
  assumes "accepts ob reg" and "0 < o_seq ob"
    and "accepts ob' (fold (\<lambda>ob reg. snd (validate ob reg)) obs (snd (validate ob reg)))"
    and "obs_key ob' = obs_key ob"
  shows "o_seq ob < o_seq ob'"
  using registry.admitted_rank [of ob reg _ obs ob'] assms by (auto simp: check_validate_def)

lemma sample_admits:
  "\<not> admits (advance sample_observation (fresh_authority sample_observation 5 None)) sample_observation"
  "admits (advance sample_observation (fresh_authority sample_observation 5 None))
     (sample_observation\<lparr>o_seq := 9\<rparr>)"
  by (simp_all add: admits_def sample_observation_def default_observation_def max_def
        fresh_authority_def default_authority_def)

theorem accepted_sequence_increases_witness:
  "o_seq sample_observation < o_seq (sample_observation\<lparr>o_seq := 9\<rparr>)"
proof (rule accepted_sequence_increases [OF sample_accepted, where obs = "[sample_observation]"])
  have v: "map_of (snd (validate sample_observation sample_registry)) (obs_key sample_observation) =
      Some (advance sample_observation (fresh_authority sample_observation 5 None))"
    using sample_accepted sample_view by (simp add: validate_accepted)
  then have "\<not> accepts sample_observation (snd (validate sample_observation sample_registry))"
    by (simp add: accepts_iff sample_admits)
  then show "accepts (sample_observation\<lparr>o_seq := 9\<rparr>)
      (fold (\<lambda>ob reg. snd (validate ob reg)) [sample_observation]
              (snd (validate sample_observation sample_registry)))"
    using v sample_admits by (simp add: accepts_iff validate_rejected)
qed (simp_all add: sample_observation_def default_observation_def)

text \<open>C21: After a restart is marked, an observation of the previous source generation (the old
  boot's) is rejected, and stays rejected whatever observations are validated meanwhile, even
  where the generation counter wraps; the restarted view is the only one that changed.\<close>

theorem restart_rejects_old_generation:
  assumes "map_of reg (key_of source worker) = Some a"
    and "obs_key ob = key_of source worker" and "o_src_gen ob = a_src_gen a"
  shows "\<not> accepts ob (fold (\<lambda>ob reg. snd (validate ob reg)) obs
                        (snd (mark_restart source worker boot epoch reg)))"
proof -
  have keep: "\<exists>v'. map_of (fold (\<lambda>ob reg. snd (validate ob reg)) obs reg) k = Some v' \<and>
      a_src_gen v' = a_src_gen v" if "map_of reg k = Some v" for reg k v
    using that
  proof (induction obs arbitrary: reg v)
    case (Cons ob obs)
    have "\<exists>v'. map_of (snd (validate ob reg)) k = Some v' \<and> a_src_gen v' = a_src_gen v"
      using Cons.prems by (cases "accepts ob reg") (auto simp: validate_accepted validate_rejected)
    then show ?case using Cons.IH by fastforce
  qed simp
  obtain v' where v': "map_of (fold (\<lambda>ob reg. snd (validate ob reg)) obs
        (snd (mark_restart source worker boot epoch reg))) (obs_key ob) = Some v'"
      "a_src_gen v' = a_src_gen a + 1"
    using keep [of "snd (mark_restart source worker boot epoch reg)" "obs_key ob"
        "fst (mark_restart source worker boot epoch reg)"]
      restart_authority(4) [OF assms(1)] assms(2) by (auto simp: restart_view)
  then show ?thesis
    using assms(3) by (auto simp: accepts_iff admits_def)
qed

theorem restart_rejects_old_generation_witness:
  "\<not> accepts sample_observation (fold (\<lambda>ob reg. snd (validate ob reg)) [sample_observation]
      (snd (mark_restart (Id128 0 1) (Id128 0 2) (Id128 0 4) 5 sample_registry)))"
  by (rule restart_rejects_old_generation [where a = "fresh_authority sample_observation 5 None"])
     (use sample_view in \<open>simp_all add: sample_observation_def default_observation_def
        fresh_authority_def default_authority_def\<close>)

text \<open>A registration does not require higher generations or a new boot: after a restart,
  registering with the envelope of an observation accepted before it makes the old boot
  current again, and that very observation is accepted a second time.\<close>

theorem old_boot_reregisters:
  assumes "accepts ob reg" and "0 < o_seq ob" and "epoch \<le> o_epoch ob"
    and "reg' = snd (mark_restart (o_source ob) (o_worker ob) boot epoch' reg)"
  shows "\<not> accepts ob reg' \<and> accepts ob (snd (register_source ob epoch False reg'))"
proof -
  obtain a where a: "map_of reg (obs_key ob) = Some a" "admits a ob"
    using assms(1) by (auto simp: accepts_iff)
  define r where "r = fst (mark_restart (o_source ob) (o_worker ob) boot epoch' reg)"
  have r: "map_of reg' (obs_key ob) = Some r" "a_src_gen r = o_src_gen ob + 1"
    using a(2) restart_authority(4) [OF a(1)] by (simp_all add: assms(4) restart_view r_def admits_def)
  then have "snd (register_source ob epoch False reg') =
      omap_set (obs_key ob) (fresh_authority ob epoch (Some r)) reg'"
    by (simp add: register_source_def Let_def)
  then show ?thesis
    using r assms(2,3) by (auto simp: accepts_iff admits_def fresh_authority_def default_authority_def)
qed

theorem old_boot_reregisters_witness:
  "\<not> accepts sample_observation (snd (mark_restart (Id128 0 1) (Id128 0 2) (Id128 0 4) 5 sample_registry)) \<and>
   accepts sample_observation (snd (register_source sample_observation 5 False
     (snd (mark_restart (Id128 0 1) (Id128 0 2) (Id128 0 4) 5 sample_registry))))"
  by (rule old_boot_reregisters [OF sample_accepted])
     (simp_all add: sample_observation_def default_observation_def)

text \<open>The registry's 64-bit key does not separate sources: for every source whose low word
  is not zero there is another source whose observations are accepted exactly when the first
  one's are, although it never registered.\<close>

theorem foreign_source_accepted:
  assumes "id_lo (o_source ob) \<noteq> 0"
  shows "alias_source (o_source ob) \<noteq> o_source ob \<and>
    accepts (ob\<lparr>o_source := alias_source (o_source ob)\<rparr>) reg = accepts ob reg"
proof
  show "alias_source (o_source ob) \<noteq> o_source ob"
    using assms by (metis alias_source_def id128.sel(2))
  show "accepts (ob\<lparr>o_source := alias_source (o_source ob)\<rparr>) reg = accepts ob reg"
    by (simp add: accepts_iff admits_def key_of_def alias_source_def)
qed

theorem foreign_source_accepted_witness:
  "alias_source (o_source sample_observation) \<noteq> o_source sample_observation \<and>
   accepts (sample_observation\<lparr>o_source := alias_source (o_source sample_observation)\<rparr>) sample_registry"
  using foreign_source_accepted [of sample_observation sample_registry] sample_accepted
  by (simp add: sample_observation_def default_observation_def)

text \<open>An authority record written to a stream reads back as itself, restart count and
  optional timestamp included, leaving the bytes after it; every truncation of it is an error.\<close>

theorem authority_roundtrip:
  assumes "authority_ok a"
  shows "\<exists>bs. write_authority a (Ok w) = Ok (w @ bs) \<and>
    run_state read_authority (mk_reader (bs @ rest)) = (Ok a, mk_reader rest) \<and>
    (\<forall>p. strict_prefix p bs \<longrightarrow> isl (fst (run_state read_authority (mk_reader p))))"
proof (intro exI conjI allI impI)
  note c = codes_authority [OF assms]
  show "write_authority a (Ok w) = Ok (w @ authority_bytes a)"
    using emits_authority by (rule emits_run)
  show "run_state read_authority (mk_reader (authority_bytes a @ rest)) = (Ok a, mk_reader rest)"
    using c by (rule codes_run)
  fix p assume "strict_prefix p (authority_bytes a)"
  then have "rd_failed (snd (run_state read_authority (mk_reader p)))"
    by (rule codes_prefix [OF c])
  then show "isl (fst (run_state read_authority (mk_reader p)))"
    by (auto simp: read_authority_def r_ok_def r_error_def split: prod.splits)
qed

theorem authority_roundtrip_witness:
  "\<exists>bs. write_authority (fresh_authority sample_observation 5 None) (Ok [1]) = Ok ([1] @ bs) \<and>
    run_state read_authority (mk_reader (bs @ [2])) =
      (Ok (fresh_authority sample_observation 5 None), mk_reader [2])"
  using authority_roundtrip [of "fresh_authority sample_observation 5 None" "[1]" "[2]"]
  by (auto simp: authority_ok_def fresh_authority_def default_authority_def)

end
