(* ===== verification/Protocol.thy ===== *)
theory Protocol
  imports Codec
begin

section \<open>The framed protocol\<close>

text \<open>
  \<^verbatim>\<open>include/servingobs/store/protocol.hpp\<close> and \<^verbatim>\<open>src/protocol.cpp\<close>: message types, the
  CRC-32, the frame with its strict decoder, and the HELLO, OBS_ACK and STATUS payloads. The
  payload decoders are instances of the locale \<open>checked_payload\<close>; the lemmas on the CRC show
  that every change of one byte changes it.
\<close>

unbundle bit_operations_syntax

subsection \<open>Message types\<close>

datatype msg_type = MT_HELLO | MT_HELLO_ACK | MT_OBS | MT_OBS_ACK | MT_STATUS | MT_BYE | MT_PING | MT_PONG

definition kProtocolVersion :: u16 where
  "kProtocolVersion = 1"

definition msg_types :: "msg_type list" where
  "msg_types = [MT_HELLO, MT_HELLO_ACK, MT_OBS, MT_OBS_ACK, MT_STATUS, MT_BYE, MT_PING, MT_PONG]"

fun msg_type_num :: "msg_type \<Rightarrow> u16" where
  "msg_type_num MT_HELLO = 1"
| "msg_type_num MT_HELLO_ACK = 2"
| "msg_type_num MT_OBS = 3"
| "msg_type_num MT_OBS_ACK = 4"
| "msg_type_num MT_STATUS = 5"
| "msg_type_num MT_BYE = 6"
| "msg_type_num MT_PING = 7"
| "msg_type_num MT_PONG = 8"

text \<open>\<^verbatim>\<open>static_cast<MsgType>(t)\<close>, used after the range check.\<close>

definition msg_type_of_num :: "u16 \<Rightarrow> msg_type" where
  "msg_type_of_num t = msg_types ! (unat t - 1)"

fun msg_type_name :: "msg_type \<Rightarrow> string" where
  "msg_type_name MT_HELLO = ''hello''"
| "msg_type_name MT_HELLO_ACK = ''hello_ack''"
| "msg_type_name MT_OBS = ''obs''"
| "msg_type_name MT_OBS_ACK = ''obs_ack''"
| "msg_type_name MT_STATUS = ''status''"
| "msg_type_name MT_BYE = ''bye''"
| "msg_type_name MT_PING = ''ping''"
| "msg_type_name MT_PONG = ''pong''"

lemma msg_type_of_num_num [simp]: "msg_type_of_num (msg_type_num t) = t"
  by (cases t) (simp_all add: msg_type_of_num_def msg_types_def)

lemma msg_type_num_range:
  "(msg_type_num MT_HELLO \<le> msg_type_num t \<and> msg_type_num t \<le> msg_type_num MT_PONG) = True"
  by (cases t) simp_all

subsection \<open>CRC-32\<close>

definition crc_bit :: "u32 \<Rightarrow> u32" where
  "crc_bit crc = (let mask = - (crc AND 1) in drop_bit 1 crc XOR (0xEDB88320 AND mask))"

definition crc_byte :: "u32 \<Rightarrow> u8 \<Rightarrow> u32" where
  "crc_byte crc b = (crc_bit ^^ 8) (crc XOR ucast b)"

definition crc32 :: "bytes \<Rightarrow> u32" where
  "crc32 data = foldl crc_byte 0xFFFFFFFF data XOR 0xFFFFFFFF"

lemma xor_right_cancel [simp]: "a XOR c = b XOR c \<longleftrightarrow> a = (b :: 'w::len word)"
  by (metis xor.assoc xor.right_neutral xor_self_eq)

lemma xor_left_cancel [simp]: "c XOR a = c XOR b \<longleftrightarrow> a = (b :: 'w::len word)"
  by (metis xor.commute xor_right_cancel)

lemma crc_bit_eq: "crc_bit x = drop_bit 1 x XOR (if bit x 0 then 0xEDB88320 else 0)"
proof -
  have "x AND 1 = (if bit x 0 then 1 else 0)"
    by (auto simp: and_one_eq bit_0 even_iff_mod_2_eq_zero odd_iff_mod_2_eq_one)
  then show ?thesis by (simp add: crc_bit_def)
qed

lemma crc_bit_top: "bit (crc_bit x) 31 = bit x 0"
proof -
  have "\<not> bit x 32" using bit_imp_le_length [of x 32] by auto
  then show ?thesis by (simp add: crc_bit_eq bit_simps)
qed

text \<open>One step loses nothing: the bit that is shifted out comes back as the top bit.\<close>

lemma crc_bit_inj: "crc_bit x = crc_bit y \<Longrightarrow> x = y"
proof -
  assume eq: "crc_bit x = crc_bit y"
  then have b0: "bit x 0 = bit y 0" by (metis crc_bit_top)
  then have d: "drop_bit 1 x = drop_bit 1 y"
    using eq by (simp add: crc_bit_eq)
  show ?thesis
  proof (rule bit_word_eqI)
    fix n assume n: "n < LENGTH(32)"
    show "bit x n = bit y n"
    proof (cases n)
      case (Suc m)
      then show ?thesis using arg_cong [OF d, of "\<lambda>w. bit w m"] by (simp add: bit_simps)
    qed (simp add: b0)
  qed
qed

lemma crc_bits_inj: "(crc_bit ^^ n) x = (crc_bit ^^ n) y \<Longrightarrow> x = y"
  by (induction n) (auto dest: crc_bit_inj)

lemma crc_byte_inj: "crc_byte c b = crc_byte d b \<Longrightarrow> c = d"
  unfolding crc_byte_def by (drule crc_bits_inj) simp

lemma crc_byte_inj_byte: "crc_byte c a = crc_byte c b \<Longrightarrow> a = b"
proof -
  assume "crc_byte c a = crc_byte c b"
  then have eq: "(ucast a :: u32) = ucast b"
    unfolding crc_byte_def by (drule_tac crc_bits_inj) simp
  have down: "(ucast (ucast x :: u32) :: u8) = x" for x :: u8
    by (rule bit_word_eqI) (simp add: bit_simps)
  show ?thesis using arg_cong [OF eq, of "\<lambda>w. ucast w :: u8"] by (simp only: down)
qed

lemma crc_fold_inj: "foldl crc_byte c bs = foldl crc_byte d bs \<Longrightarrow> c = d"
  by (induction bs arbitrary: c d) (auto dest: crc_byte_inj)

lemma crc32_one_byte:
  assumes "i < length bs" and "b \<noteq> bs ! i"
  shows "crc32 (bs[i := b]) \<noteq> crc32 bs"
proof
  assume "crc32 (bs[i := b]) = crc32 bs"
  then have "foldl crc_byte 0xFFFFFFFF (bs[i := b]) = foldl crc_byte 0xFFFFFFFF bs"
    by (simp add: crc32_def)
  also have "bs[i := b] = take i bs @ b # drop (Suc i) bs"
    using assms(1) by (simp add: upd_conv_take_nth_drop)
  also have "foldl crc_byte 0xFFFFFFFF bs = foldl crc_byte 0xFFFFFFFF (take i bs @ bs ! i # drop (Suc i) bs)"
    using assms(1) by (simp add: id_take_nth_drop [symmetric])
  finally have "b = bs ! i"
    by (simp del: append_take_drop_id) (metis crc_fold_inj crc_byte_inj_byte)
  then show False using assms(2) by simp
qed

subsection \<open>Frames\<close>

record frame =
  f_version :: u16
  f_type :: msg_type
  f_payload :: bytes

definition wire_length :: "bytes \<Rightarrow> u32" where
  "wire_length payload = of_nat (8 + length payload)"

definition frame_body :: "msg_type \<Rightarrow> bytes \<Rightarrow> u16 \<Rightarrow> bytes" where
  "frame_body t payload version = be_bytes 2 version @ be_bytes 2 (msg_type_num t) @ payload"

definition frame_encode :: "msg_type \<Rightarrow> bytes \<Rightarrow> u16 \<Rightarrow> bytes result" where
  "frame_encode t payload version =
     (case wseq [write_u16 version, write_u16 (msg_type_num t), put payload] (Ok []) of
        Err e \<Rightarrow> Err e
      | Ok body \<Rightarrow> wseq [write_u32 (wire_length payload), write_u32 (crc32 body), put body] (Ok []))"

definition frame_read_body :: "reader \<Rightarrow> frame result" where
  "frame_read_body body =
     fst (run_state (do {
       version \<leftarrow> r_u16;
       if version \<noteq> kProtocolVersion
       then State_Monad.return (Err (''unsupported protocol version '' @ to_string_word version))
       else do {
         t \<leftarrow> r_u16;
         if \<not> (msg_type_num MT_HELLO \<le> t \<and> t \<le> msg_type_num MT_PONG)
         then State_Monad.return (Err (''unknown message type '' @ to_string_word t))
         else do {
           left \<leftarrow> r_remaining;
           payload \<leftarrow> r_raw (of_nat left);
           fin \<leftarrow> r_require_end;
           e \<leftarrow> r_error;
           State_Monad.return
             (if \<not> fin then Err (''trailing garbage in frame: '' @ e)
              else Ok \<lparr>f_version = version, f_type = msg_type_of_num t, f_payload = payload\<rparr>) } } }) body)"

definition frame_decode :: "bytes \<Rightarrow> frame result" where
  "frame_decode data =
     (let n = length data;
          (len, r1) = run_state r_u32 (mk_reader data)
      in if rd_failed r1 then Err ''truncated frame header''
         else if unat len \<noteq> n - 4
         then Err (''frame length mismatch: declared '' @ to_string_word len @ '' but '' @
                   dec_string (n - 4) @ '' bytes follow'')
         else if len < 8 \<or> 64 * 1024 * 1024 < len then Err ''frame length out of range''
         else let (expected_crc, r2) = run_state r_u32 r1
              in if len < 4 then Err ''frame body truncated''
                 else let (body, r3) = run_state (r_sub (len - 4)) r2
                      in if rd_failed body then Err ''frame body overruns''
                         else if crc32 (take (unat (len - 4)) (drop 8 data)) \<noteq> expected_crc
                         then Err ''checksum mismatch''
                         else frame_read_body body)"

definition max_frame_payload :: nat where
  "max_frame_payload = 64 * 1024 * 1024 - 8"

lemma frame_encode_eq:
  "frame_encode t payload version =
     Ok (be_bytes 4 (wire_length payload) @ be_bytes 4 (crc32 (frame_body t payload version)) @
         frame_body t payload version)"
proof -
  have "emits (wseq [write_u16 version, write_u16 (msg_type_num t), put payload])
      (be_bytes 2 version @ be_bytes 2 (msg_type_num t) @ payload @ [])"
    by (intro codec_intros)
  from emits_run [OF this, of "[]"]
  have b: "wseq [write_u16 version, write_u16 (msg_type_num t), put payload] (Ok []) =
      Ok (frame_body t payload version)"
    by (simp add: frame_body_def)
  have "emits (wseq [write_u32 (wire_length payload), write_u32 c, put body])
      (be_bytes 4 (wire_length payload) @ be_bytes 4 c @ body @ [])" for c body
    by (intro codec_intros)
  from emits_run [OF this, of _ _ "[]"] show ?thesis
    by (simp add: frame_encode_def b)
qed

lemma run_failed: "inert m \<Longrightarrow> rd_failed r \<Longrightarrow> \<exists>x. run_state m r = (x, r)"
  by (metis inertD prod.collapse)

lemma u16_short: "length bs < 2 \<Longrightarrow> \<exists>x r. run_state r_u16 (mk_reader bs) = (x, r) \<and> rd_failed r"
  unfolding r_u16_def using run_be_short by (metis prod.collapse)

lemma u16_run:
  "2 \<le> length bs \<Longrightarrow> run_state r_u16 (mk_reader bs) = (be_fold 0 (take 2 bs), mk_reader (drop 2 bs))"
  unfolding r_u16_def by (rule run_be)

lemma read_body_failed:
  assumes "run_state r_u16 body = (x, r)" and "rd_failed r"
  shows "isl (frame_read_body body)"
proof -
  obtain t where "run_state r_u16 r = (t, r)"
    using run_failed [OF inert_words(1) assms(2)] by blast
  then show ?thesis
    using assms by (simp add: frame_read_body_def r_remaining_def r_raw_def r_require_end_def r_error_def)
qed

lemma read_body_short:
  assumes "length body < 4"
  shows "isl (frame_read_body (mk_reader body))"
proof (cases "2 \<le> length body")
  case True
  have "length (drop 2 body) < 2" using assms by simp
  then obtain t r where "run_state r_u16 (mk_reader (drop 2 body)) = (t, r)" "rd_failed r"
    using u16_short by blast
  then show ?thesis
    using u16_run [OF True]
    by (simp add: frame_read_body_def r_remaining_def r_raw_def r_require_end_def r_error_def)
next
  case False
  then show ?thesis
    using u16_short [of body] read_body_failed by force
qed

lemma read_body_long:
  assumes "4 \<le> length body" and "length body \<le> max_frame_payload + 4"
  shows "frame_read_body (mk_reader body) =
    (let v = be_fold 0 (take 2 body); t = be_fold 0 (take 2 (drop 2 body)) in
     if v \<noteq> kProtocolVersion then Err (''unsupported protocol version '' @ to_string_word v)
     else if \<not> (msg_type_num MT_HELLO \<le> t \<and> t \<le> msg_type_num MT_PONG)
     then Err (''unknown message type '' @ to_string_word t)
     else Ok \<lparr>f_version = v, f_type = msg_type_of_num t, f_payload = drop 4 body\<rparr>)"
proof -
  have n: "unat (of_nat (length body - 4) :: u32) = length body - 4"
    using assms by (simp add: unat_of_nat max_frame_payload_def del: of_nat_diff)
  have "2 \<le> length body" "2 \<le> length (drop 2 body)" using assms(1) by simp_all
  then show ?thesis
    using n by (simp add: frame_read_body_def u16_run Let_def r_remaining_def r_raw_def r_require_end_def
          r_error_def del: of_nat_diff) (simp add: mk_reader_def del: of_nat_diff)
qed

lemma msg_type_num_of_num:
  "msg_type_num MT_HELLO \<le> t \<Longrightarrow> t \<le> msg_type_num MT_PONG \<Longrightarrow> msg_type_num (msg_type_of_num t) = t"
proof -
  assume a: "msg_type_num MT_HELLO \<le> t" "t \<le> msg_type_num MT_PONG"
  then have "unat t \<in> {1, 2, 3, 4, 5, 6, 7, 8}"
    by (simp add: word_le_nat_alt) presburger
  then have "t = 1 \<or> t = 2 \<or> t = 3 \<or> t = 4 \<or> t = 5 \<or> t = 6 \<or> t = 7 \<or> t = 8"
    by (simp add: word_unat_eq_iff)
  then show ?thesis
    by (elim disjE) (simp_all add: msg_type_of_num_def msg_types_def)
qed

lemma read_body:
  assumes "length body \<le> max_frame_payload + 4"
  shows "frame_read_body (mk_reader body) = Ok f \<longleftrightarrow>
    f_version f = kProtocolVersion \<and> body = frame_body (f_type f) (f_payload f) (f_version f)"
    (is "?l \<longleftrightarrow> ?r")
proof
  assume r: ?r
  then have "take 2 body = be_bytes 2 (f_version f)" "take 2 (drop 2 body) = be_bytes 2 (msg_type_num (f_type f))"
      "drop 4 body = f_payload f" "4 \<le> length body"
    by (simp_all add: frame_body_def)
  then show ?l
    using r assms
    by (simp add: read_body_long be_fold_word msg_type_num_range Let_def del: msg_type_num.simps)
next
  assume l: ?l
  then have n: "4 \<le> length body"
    using read_body_short [of body] by (cases "length body < 4") auto
  have "be_bytes 2 (be_fold 0 (take 2 body) :: u16) = take 2 body"
      "be_bytes 2 (be_fold 0 (take 2 (drop 2 body)) :: u16) = take 2 (drop 2 body)"
    using be_bytes_be_fold [of "take 2 body" "0 :: u16"]
      be_bytes_be_fold [of "take 2 (drop 2 body)" "0 :: u16"] n by simp_all
  moreover have "take 2 body @ take 2 (drop 2 body) @ drop 4 body = body"
    by (metis append_take_drop_id drop_drop numeral_Bit0)
  ultimately show ?r
    using l read_body_long [OF n assms]
    by (auto simp: Let_def frame_body_def msg_type_num_of_num simp del: msg_type_num.simps split: if_splits)
qed

lemma u32_run:
  "4 \<le> length bs \<Longrightarrow> run_state r_u32 (mk_reader bs) = (be_fold 0 (take 4 bs), mk_reader (drop 4 bs))"
  unfolding r_u32_def by (rule run_be)

lemma u32_short: "length bs < 4 \<Longrightarrow> \<exists>x r. run_state r_u32 (mk_reader bs) = (x, r) \<and> rd_failed r"
  unfolding r_u32_def using run_be_short by (metis prod.collapse)

lemma not_failed_mk_reader [simp]: "\<not> rd_failed (mk_reader bs)"
  by (simp add: mk_reader_def)

lemma decode_short:
  assumes "length data < 8"
  shows "isl (frame_decode data)"
proof (cases "length data < 4")
  case True
  then show ?thesis using u32_short [OF True] by (auto simp: frame_decode_def Let_def)
next
  case False
  define len where "len = (be_fold 0 (take 4 data) :: u32)"
  have "len < 8" if "unat len = length data - 4"
    using that assms False by (simp add: word_less_nat_alt)
  then show ?thesis
    using False by (auto simp: frame_decode_def Let_def u32_run len_def)
qed

lemma decode_long:
  assumes "8 \<le> length data"
  shows "frame_decode data =
    (let len = be_fold 0 (take 4 data) :: u32 in
     if unat len \<noteq> length data - 4
     then Err (''frame length mismatch: declared '' @ to_string_word len @ '' but '' @
               dec_string (length data - 4) @ '' bytes follow'')
     else if len < 8 \<or> 64 * 1024 * 1024 < len then Err ''frame length out of range''
     else if crc32 (drop 8 data) \<noteq> be_fold 0 (take 4 (drop 4 data)) then Err ''checksum mismatch''
     else frame_read_body (mk_reader (drop 8 data)))"
proof -
  define len where "len = (be_fold 0 (take 4 data) :: u32)"
  have l4: "4 \<le> length data" "4 \<le> length (drop 4 data)" using assms by simp_all
  have sub: "unat (len - 4) = length (drop 8 data)" "\<not> len < 4"
    if "unat len = length data - 4" "\<not> len < 8"
  proof -
    have "4 \<le> len" "\<not> len < 4" using that(2) by (simp_all add: word_less_nat_alt word_le_nat_alt)
    then show "\<not> len < 4" "unat (len - 4) = length (drop 8 data)"
      using that(1) by (simp_all add: unat_sub)
  qed
  have "frame_decode data =
    (if unat len \<noteq> length data - 4
     then Err (''frame length mismatch: declared '' @ to_string_word len @ '' but '' @
               dec_string (length data - 4) @ '' bytes follow'')
     else if len < 8 \<or> 64 * 1024 * 1024 < len then Err ''frame length out of range''
     else if crc32 (drop 8 data) \<noteq> be_fold 0 (take 4 (drop 4 data)) then Err ''checksum mismatch''
     else frame_read_body (mk_reader (drop 8 data)))"
  proof (cases "unat len = length data - 4 \<and> \<not> (len < 8 \<or> 64 * 1024 * 1024 < len)")
    case True
    then have s: "unat (len - 4) = length (drop 8 data)" "\<not> len < 4" using sub by blast+
    have d: "drop 4 (drop 4 data) = drop 8 data" by simp
    have r: "run_state (r_sub (len - 4)) (mk_reader (drop 8 data)) = (mk_reader (drop 8 data), mk_reader [])"
      by (simp add: r_sub_def s(1)) (simp add: mk_reader_def)
    show ?thesis
      unfolding frame_decode_def u32_run [OF l4(1)] Let_def prod.case u32_run [OF l4(2)] d
        len_def [symmetric] r s(1)
      using True s(2) by simp
  next
    case False
    then show ?thesis
      unfolding frame_decode_def u32_run [OF l4(1)] Let_def prod.case len_def [symmetric] by auto
  qed
  then show ?thesis by (simp add: Let_def len_def)
qed

lemma length_frame_body [simp]: "length (frame_body t p v) = 4 + length p"
  by (simp add: frame_body_def)

lemma decode_ok_iff:
  "frame_decode data = Ok f \<longleftrightarrow>
     f_version f = kProtocolVersion \<and> length (f_payload f) \<le> max_frame_payload \<and>
     frame_encode (f_type f) (f_payload f) (f_version f) = Ok data"
    (is "?l \<longleftrightarrow> ?r")
proof
  assume r: ?r
  define body where "body = frame_body (f_type f) (f_payload f) (f_version f)"
  have data: "data = be_bytes 4 (wire_length (f_payload f)) @ be_bytes 4 (crc32 body) @ body"
    using r by (auto simp: frame_encode_eq body_def)
  have len: "unat (wire_length (f_payload f)) = length data - 4"
      "8 \<le> wire_length (f_payload f)" "wire_length (f_payload f) \<le> 64 * 1024 * 1024"
    using r by (simp_all add: data body_def wire_length_def word_le_nat_alt unat_of_nat
        max_frame_payload_def del: of_nat_add)
  have n: "length body \<le> max_frame_payload + 4" using r by (simp add: body_def)
  have "take 4 data = be_bytes 4 (wire_length (f_payload f))" "drop 8 data = body"
      "take 4 (drop 4 data) = be_bytes 4 (crc32 body)" "8 \<le> length data"
    by (simp_all add: data)
  then show ?l
    using len r read_body [OF n, of f] by (simp add: decode_long be_fold_word Let_def not_less body_def)
next
  assume l: ?l
  then have n: "8 \<le> length data" using decode_short [of data] by (cases "length data < 8") auto
  define len where "len = (be_fold 0 (take 4 data) :: u32)"
  have p: "unat len = length data - 4" "len \<le> 64 * 1024 * 1024"
      "crc32 (drop 8 data) = be_fold 0 (take 4 (drop 4 data))"
      "frame_read_body (mk_reader (drop 8 data)) = Ok f"
    using l by (auto simp: decode_long [OF n] Let_def len_def split: if_splits)
  have m: "length data \<le> 64 * 1024 * 1024 + 4" using p(1,2) by (simp add: word_le_nat_alt)
  then have body: "f_version f = kProtocolVersion"
      "drop 8 data = frame_body (f_type f) (f_payload f) (f_version f)"
    using p(4) read_body [of "drop 8 data" f] by (simp_all add: max_frame_payload_def)
  have pl: "length (f_payload f) + 8 = length data - 4"
    using arg_cong [OF body(2), of length] n by simp
  have "8 + length (f_payload f) = unat len" using pl p(1) by simp
  then have "wire_length (f_payload f) = len"
    unfolding wire_length_def by (simp del: of_nat_add)
  then have "frame_encode (f_type f) (f_payload f) (f_version f) =
      Ok (take 4 data @ take 4 (drop 4 data) @ drop 8 data)"
    using be_bytes_be_fold [of "take 4 data" "0 :: u32"] be_bytes_be_fold [of "take 4 (drop 4 data)" "0 :: u32"] n
    by (simp add: frame_encode_eq body(2) [symmetric] p(3) len_def)
  moreover have "take 4 data @ take 4 (drop 4 data) @ drop 8 data = data"
    by (metis append_take_drop_id drop_drop numeral_Bit0)
  ultimately show ?r using body(1) pl m by (simp add: max_frame_payload_def)
qed

subsection \<open>Payloads\<close>

record hello_payload =
  h_source :: source_id
  h_worker :: worker_id
  h_boot :: worker_boot_id
  h_src_gen :: u64
  h_obs_gen :: u64
  h_epoch :: u64
  h_clock_domain :: string
  h_role :: string
  h_extra :: string

record obs_ack_payload =
  k_accepted :: bool
  k_decision :: u8
  k_accepted_total :: u32
  k_reason :: string

record status_payload =
  s_health :: string
  s_online_sources :: u32
  s_observations_total :: u32
  s_dropped_stale :: u32
  s_epoch :: u64

text \<open>The common end of the three decoders.\<close>

definition finish_payload :: "string \<Rightarrow> string \<Rightarrow> 'a rd \<Rightarrow> bytes \<Rightarrow> 'a result" where
  "finish_payload bad garbage m b =
     (let (v, r) = run_state m (mk_reader b) in
      if rd_failed r then Err (bad @ rd_err r)
      else if \<not> fst (run_state r_require_end r) then Err garbage
      else Ok v)"

definition write_hello :: "hello_payload \<Rightarrow> writer \<Rightarrow> writer" where
  "write_hello h =
     wseq [write_id (h_source h), write_id (h_worker h), write_id (h_boot h),
       write_u64 (h_src_gen h), write_u64 (h_obs_gen h), write_u64 (h_epoch h),
       write_str (h_clock_domain h), write_str (h_role h), write_str (h_extra h)]"

definition encode_hello :: "hello_payload \<Rightarrow> bytes result" where
  "encode_hello h = write_hello h (Ok [])"

definition read_hello :: "hello_payload rd" where
  "read_hello = do {
     source \<leftarrow> r_id; worker \<leftarrow> r_id; boot \<leftarrow> r_id;
     src_gen \<leftarrow> r_u64; obs_gen \<leftarrow> r_u64; epoch \<leftarrow> r_u64;
     clock_domain \<leftarrow> r_str; role \<leftarrow> r_str; extra \<leftarrow> r_str;
     State_Monad.return
       \<lparr>h_source = source, h_worker = worker, h_boot = boot, h_src_gen = src_gen, h_obs_gen = obs_gen,
        h_epoch = epoch, h_clock_domain = clock_domain, h_role = role, h_extra = extra\<rparr> }"

definition decode_hello :: "bytes \<Rightarrow> hello_payload result" where
  "decode_hello = finish_payload ''bad hello payload: '' ''hello trailing garbage'' read_hello"

definition write_obs_ack :: "bool \<Rightarrow> u8 \<Rightarrow> u32 \<Rightarrow> string \<Rightarrow> writer \<Rightarrow> writer" where
  "write_obs_ack accepted decision accepted_total reason =
     wseq [write_u8 (if accepted then 1 else 0), write_u8 decision, write_u32 accepted_total,
       write_str reason]"

definition encode_obs_ack :: "bool \<Rightarrow> u8 \<Rightarrow> u32 \<Rightarrow> string \<Rightarrow> bytes result" where
  "encode_obs_ack accepted decision accepted_total reason =
     write_obs_ack accepted decision accepted_total reason (Ok [])"

definition read_obs_ack :: "obs_ack_payload rd" where
  "read_obs_ack = do {
     accepted \<leftarrow> r_u8; decision \<leftarrow> r_u8; accepted_total \<leftarrow> r_u32; reason \<leftarrow> r_str;
     State_Monad.return
       \<lparr>k_accepted = (accepted \<noteq> 0), k_decision = decision, k_accepted_total = accepted_total,
        k_reason = reason\<rparr> }"

definition decode_obs_ack :: "bytes \<Rightarrow> obs_ack_payload result" where
  "decode_obs_ack = finish_payload ''bad obs_ack payload: '' ''obs_ack trailing garbage'' read_obs_ack"

definition write_status :: "status_payload \<Rightarrow> writer \<Rightarrow> writer" where
  "write_status s =
     wseq [write_str (s_health s), write_u32 (s_online_sources s), write_u32 (s_observations_total s),
       write_u32 (s_dropped_stale s), write_u64 (s_epoch s)]"

definition encode_status :: "status_payload \<Rightarrow> bytes result" where
  "encode_status s = write_status s (Ok [])"

definition read_status :: "status_payload rd" where
  "read_status = do {
     health \<leftarrow> r_str; online \<leftarrow> r_u32; total \<leftarrow> r_u32; dropped \<leftarrow> r_u32; epoch \<leftarrow> r_u64;
     State_Monad.return
       \<lparr>s_health = health, s_online_sources = online, s_observations_total = total,
        s_dropped_stale = dropped, s_epoch = epoch\<rparr> }"

definition decode_status :: "bytes \<Rightarrow> status_payload result" where
  "decode_status = finish_payload ''bad status payload: '' ''status trailing garbage'' read_status"

definition hello_ok :: "hello_payload \<Rightarrow> bool" where
  "hello_ok h \<longleftrightarrow> fits32 (length (h_clock_domain h)) \<and> fits32 (length (h_role h)) \<and> fits32 (length (h_extra h))"

abbreviation ack_write :: "obs_ack_payload \<Rightarrow> writer \<Rightarrow> writer" where
  "ack_write a \<equiv> write_obs_ack (k_accepted a) (k_decision a) (k_accepted_total a) (k_reason a)"

abbreviation ack_encode :: "obs_ack_payload \<Rightarrow> bytes result" where
  "ack_encode a \<equiv> encode_obs_ack (k_accepted a) (k_decision a) (k_accepted_total a) (k_reason a)"

lemma finish_payload_good:
  "run_state m (mk_reader b) = (v, mk_reader []) \<Longrightarrow> finish_payload bad garbage m b = Ok v"
  by (simp add: finish_payload_def r_require_end_def) (simp add: mk_reader_def)

lemma finish_payload_failed:
  "rd_failed (snd (run_state m (mk_reader b))) \<Longrightarrow> isl (finish_payload bad garbage m b)"
  by (auto simp: finish_payload_def split: prod.split)

lemma finish_payload_rest:
  "rd_rest (snd (run_state m (mk_reader b))) \<noteq> [] \<Longrightarrow> isl (finish_payload bad garbage m b)"
  by (auto simp: finish_payload_def r_require_end_def split: prod.split)

lemma hello_codes:
  assumes "hello_ok h"
  shows "\<exists>bs. emits (write_hello h) bs \<and> codes read_hello h bs"
proof (intro exI conjI)
  have f: "fits32 (length (h_clock_domain h))" "fits32 (length (h_role h))" "fits32 (length (h_extra h))"
    using assms by (simp_all add: hello_ok_def)
  let ?str = "\<lambda>s. be_bytes 4 (of_nat (length s) :: u32) @ str_bytes s"
  let ?bs = "to_bytes (h_source h) @ to_bytes (h_worker h) @ to_bytes (h_boot h) @
    be_bytes 8 (h_src_gen h) @ be_bytes 8 (h_obs_gen h) @ be_bytes 8 (h_epoch h) @
    ?str (h_clock_domain h) @ ?str (h_role h) @ ?str (h_extra h) @ []"
  show "emits (write_hello h) ?bs"
    unfolding write_hello_def by (intro codec_intros f)
  show "codes read_hello h ?bs"
    unfolding read_hello_def
    by (rule codes_bind [OF codes_id], rule codes_bind [OF codes_id], rule codes_bind [OF codes_id],
        rule codes_bind [OF codes_words(3)], rule codes_bind [OF codes_words(3)],
        rule codes_bind [OF codes_words(3)], rule codes_bind [OF codes_str [OF f(1)]],
        rule codes_bind [OF codes_str [OF f(2)]], rule codes_bind [OF codes_str [OF f(3)]],
        rule codes_return_eq, simp)
       (intro inert_intros)+
qed

lemma ack_codes:
  assumes "fits32 (length (k_reason a))"
  shows "\<exists>bs. emits (ack_write a) bs \<and> codes read_obs_ack a bs"
proof (intro exI conjI)
  let ?bs = "[if k_accepted a then 1 else 0] @ [k_decision a] @ be_bytes 4 (k_accepted_total a) @
    (be_bytes 4 (of_nat (length (k_reason a)) :: u32) @ str_bytes (k_reason a)) @ []"
  show "emits (ack_write a) ?bs"
    unfolding write_obs_ack_def by (intro codec_intros assms)
  show "codes read_obs_ack a ?bs"
    unfolding read_obs_ack_def
    by (rule codes_bind [OF codes_u8], rule codes_bind [OF codes_u8],
        rule codes_bind [OF codes_words(2)], rule codes_bind [OF codes_str [OF assms]],
        rule codes_return_eq, simp)
       (intro inert_intros)+
qed

lemma status_codes:
  assumes "fits32 (length (s_health st))"
  shows "\<exists>bs. emits (write_status st) bs \<and> codes read_status st bs"
proof (intro exI conjI)
  let ?bs = "(be_bytes 4 (of_nat (length (s_health st)) :: u32) @ str_bytes (s_health st)) @
    be_bytes 4 (s_online_sources st) @ be_bytes 4 (s_observations_total st) @
    be_bytes 4 (s_dropped_stale st) @ be_bytes 8 (s_epoch st) @ []"
  show "emits (write_status st) ?bs"
    unfolding write_status_def by (intro codec_intros assms)
  show "codes read_status st ?bs"
    unfolding read_status_def
    by (rule codes_bind [OF codes_str [OF assms]], rule codes_bind [OF codes_words(2)],
        rule codes_bind [OF codes_words(2)], rule codes_bind [OF codes_words(2)],
        rule codes_bind [OF codes_words(3)], rule codes_return_eq, simp)
       (intro inert_intros)+
qed

lemma inert_payloads [inert_intros]: "inert read_hello" "inert read_obs_ack" "inert read_status"
  unfolding read_hello_def read_obs_ack_def read_status_def by (intro inert_intros)+

lemmas payload_laws =
  encode_hello_def decode_hello_def encode_obs_ack_def decode_obs_ack_def encode_status_def
  decode_status_def finish_payload_good finish_payload_failed finish_payload_rest

interpretation hello: checked_payload write_hello read_hello "\<lambda>h. h" hello_ok encode_hello decode_hello
  by unfold_locales (use hello_codes in \<open>auto simp: payload_laws intro: inert_intros\<close>)

interpretation obs_ack: checked_payload ack_write read_obs_ack "\<lambda>a. a"
    "\<lambda>a. fits32 (length (k_reason a))" ack_encode decode_obs_ack
  by unfold_locales (use ack_codes in \<open>auto simp: payload_laws intro: inert_intros\<close>)

interpretation status: checked_payload write_status read_status "\<lambda>st. st"
    "\<lambda>st. fits32 (length (s_health st))" encode_status decode_status
  by unfold_locales (use status_codes in \<open>auto simp: payload_laws intro: inert_intros\<close>)

subsection \<open>Properties\<close>

text \<open>C14: The strict frame decoder accepts exactly the encodings: a byte string decodes to a
  frame if and only if it is the encoding of that frame, at the protocol's version and with a
  payload within the size limit. So nothing truncated, extended, mislabelled or with another
  checksum is ever accepted, and every such frame is.\<close>

theorem frame_decode_iff_encode:
  "frame_decode data = Ok f \<longleftrightarrow>
     f_version f = kProtocolVersion \<and> length (f_payload f) \<le> max_frame_payload \<and>
     frame_encode (f_type f) (f_payload f) (f_version f) = Ok data"
  by (rule decode_ok_iff)

text \<open>C26: A change of any one byte of an encoded frame is detected: the damaged frame does not
  decode, whichever of length, checksum, version, type or payload was hit.\<close>

theorem frame_one_byte_corruption:
  assumes "frame_decode data = Ok f" and "i < length data" and "b \<noteq> data ! i"
  shows "isl (frame_decode (data[i := b]))"
proof (rule ccontr)
  define v where "v = data[i := b]"
  assume "\<not> isl (frame_decode (data[i := b]))"
  then obtain g where g: "frame_decode v = Ok g" by (auto simp: v_def isl_def) (metis sum.exhaust)
  define hd where "hd = (\<lambda>f :: frame. be_bytes 4 (wire_length (f_payload f)) :: bytes)"
  define body where "body = (\<lambda>f :: frame. frame_body (f_type f) (f_payload f) (f_version f))"
  have data: "data = hd f @ be_bytes 4 (crc32 (body f)) @ body f"
    and v: "v = hd g @ be_bytes 4 (crc32 (body g)) @ body g"
    using assms(1) g by (auto simp: decode_ok_iff frame_encode_eq hd_def body_def)
  have len: "length (hd f) = 4" "length (hd g) = 4" by (simp_all add: hd_def)
  have "length v = length data" by (simp add: v_def)
  then have lb: "length (body f) = length (body g)" by (simp add: data v len)
  then have "hd f = hd g" by (simp add: hd_def body_def wire_length_def)
  note hds = this
  have i: "4 \<le> i"
  proof (rule ccontr)
    assume i: "\<not> 4 \<le> i"
    then have "v ! i = data ! i" by (simp add: v data nth_append len hds)
    moreover have "v ! i = b" using assms(2) by (simp add: v_def)
    ultimately show False using assms(3) by simp
  qed
  then have "v = hd f @ (be_bytes 4 (crc32 (body f)) @ body f)[i - 4 := b]"
    unfolding v_def by (subst data) (simp add: list_update_append len)
  then have upd: "(be_bytes 4 (crc32 (body f)) @ body f)[i - 4 := b] = be_bytes 4 (crc32 (body g)) @ body g" "4 \<le> i"
    using v hds i by simp_all
  show False
  proof (cases "i < 8")
    case True
    then have "i - 4 < 4" using upd(2) by simp
    then have "(be_bytes 4 (crc32 (body f)) @ body f)[i - 4 := b] =
        (be_bytes 4 (crc32 (body f)))[i - 4 := b] @ body f"
      by (intro list_update_append1) simp
    then have "(be_bytes 4 (crc32 (body f)))[i - 4 := b] @ body f = be_bytes 4 (crc32 (body g)) @ body g"
      using upd(1) by metis
    then have "(be_bytes 4 (crc32 (body f)))[i - 4 := b] = be_bytes 4 (crc32 (body g)) \<and> body f = body g"
      by (rule append_eq_append_conv [THEN iffD1, rotated]) simp
    then have "(be_bytes 4 (crc32 (body f)))[i - 4 := b] = be_bytes 4 (crc32 (body f))" by metis
    moreover have lt: "i - 4 < 4" using True upd(2) by arith
    moreover have "data ! i = be_bytes 4 (crc32 (body f)) ! (i - 4)"
      using lt upd(2) by (simp add: data nth_append len)
    ultimately show False
      using assms(3) by (metis length_be_bytes nth_list_update_eq)
  next
    case False
    then have "\<not> i - 4 < 4" "i - 4 - 4 = i - 8" by simp_all
    then have "be_bytes 4 (crc32 (body f)) @ (body f)[i - 8 := b] = be_bytes 4 (crc32 (body g)) @ body g"
      using upd(1) by (simp add: list_update_append)
    then have "be_bytes 4 (crc32 (body f)) = be_bytes 4 (crc32 (body g))" "(body f)[i - 8 := b] = body g"
      by simp_all
    then have "crc32 ((body f)[i - 8 := b]) = crc32 (body f)"
      using be_bytes_inj [of 4 "crc32 (body f)" "crc32 (body g)"] by simp
    moreover have "\<not> i - 4 < 4" "\<not> i < 4" using False by arith+
    then have "data ! i = body f ! (i - 8)" by (simp add: data nth_append len)
    moreover have "i - 8 < length (body f)" using False assms(2) by (simp add: data len)
    ultimately show False using crc32_one_byte [of "i - 8" "body f" b] assms(3) by simp
  qed
qed

theorem frame_one_byte_corruption_witness:
  "\<exists>data. frame_encode MT_PING [7] kProtocolVersion = Ok data \<and>
     isl (frame_decode (data[5 := data ! 5 + 1]))"
proof -
  obtain data where e: "frame_encode MT_PING [7] kProtocolVersion = Ok data"
    by (auto simp: frame_encode_eq)
  then have d: "frame_decode data = Ok \<lparr>f_version = kProtocolVersion, f_type = MT_PING, f_payload = [7]\<rparr>"
    by (simp add: decode_ok_iff max_frame_payload_def)
  have "5 < length data" using e by (auto simp: frame_encode_eq)
  then show ?thesis
    using e frame_one_byte_corruption [OF d, of 5 "data ! 5 + 1"] by auto
qed

text \<open>HELLO, OBS_ACK and STATUS payloads whose strings fit 32-bit lengths are encoded
  without error and decode to the payload that was sent.\<close>

theorem payload_roundtrips:
  assumes "hello_ok h" and "fits32 (length (k_reason a))" and "fits32 (length (s_health st))"
  shows "(\<exists>bs. encode_hello h = Ok bs \<and> decode_hello bs = Ok h) \<and>
    (\<exists>bs. ack_encode a = Ok bs \<and> decode_obs_ack bs = Ok a) \<and>
    (\<exists>bs. encode_status st = Ok bs \<and> decode_status bs = Ok st)"
  using assms hello.encode_roundtrip obs_ack.encode_roundtrip status.encode_roundtrip by blast

theorem payload_roundtrips_witness:
  "\<exists>bs. encode_hello \<lparr>h_source = Id128 0 1, h_worker = Id128 0 2, h_boot = Id128 0 3, h_src_gen = 1,
       h_obs_gen = 1, h_epoch = 1, h_clock_domain = ''mono'', h_role = ''worker'', h_extra = []\<rparr> = Ok bs \<and>
     decode_hello bs = Ok \<lparr>h_source = Id128 0 1, h_worker = Id128 0 2, h_boot = Id128 0 3, h_src_gen = 1,
       h_obs_gen = 1, h_epoch = 1, h_clock_domain = ''mono'', h_role = ''worker'', h_extra = []\<rparr>"
  by (rule conjunct1 [OF payload_roundtrips
        [where a = "\<lparr>k_accepted = True, k_decision = 0, k_accepted_total = 1, k_reason = ''ok''\<rparr>"
           and st = "\<lparr>s_health = ''healthy'', s_online_sources = 1, s_observations_total = 1,
                     s_dropped_stale = 0, s_epoch = 1\<rparr>"]])
     (simp_all add: hello_ok_def fits32_def)

end
