(* ===== verification/Network.thy ===== *)
theory Network
  imports Protocol
begin

section \<open>Receiving frames from a socket\<close>

text \<open>
  The receiving half of \<^verbatim>\<open>src/network.cpp\<close>. The socket itself belongs to the operating
  system: its \<^verbatim>\<open>recv\<close> is an argument of the definitions, over an unspecified socket state,
  and \<open>delivers\<close> is the documented behaviour of a stream socket with data waiting: \<^verbatim>\<open>recv\<close>
  returns between one and the requested number of its next bytes, wherever the network cut
  the stream. A \<^verbatim>\<open>TcpStream\<close> is the socket, or \<open>None\<close> for \<^verbatim>\<open>INVALID_SOCKET\<close>.
\<close>

text \<open>What \<^verbatim>\<open>recv\<close> returns: bytes (none of them when the peer closed), or an error, which
  \<^verbatim>\<open>WSAGetLastError\<close> says is a timeout or something else.\<close>

datatype recv_result = RecvBytes bytes | RecvTimeout | RecvError nat

type_synonym 's recv = "nat \<Rightarrow> 's \<Rightarrow> recv_result \<times> 's"

definition last_wsa_error :: "nat \<Rightarrow> string" where
  "last_wsa_error err = ''winsock error '' @ dec_string err"

text \<open>The loop of \<^verbatim>\<open>recv_exact\<close>; \<open>out\<close> is what it has so far.\<close>

function recv_loop :: "'s recv \<Rightarrow> nat \<Rightarrow> bytes \<Rightarrow> 's \<Rightarrow> bytes result \<times> 's" where
  "recv_loop recv n out s =
     (if n \<le> length out then (Ok out, s)
      else case recv (min (n - length out) 65536) s of
        (RecvBytes bs, s') \<Rightarrow>
          if bs = [] then (Err ''peer closed during recv'', s') else recv_loop recv n (out @ bs) s'
      | (RecvTimeout, s') \<Rightarrow> (Err ''recv timeout'', s')
      | (RecvError e, s') \<Rightarrow> (Err (''recv failed: '' @ last_wsa_error e), s'))"
  by pat_completeness auto
termination
  by (relation "measure (\<lambda>(recv, n, out, s). n - length out)") (auto simp: neq_Nil_conv)

declare recv_loop.simps [simp del]

fun recv_exact :: "'s recv \<Rightarrow> nat \<Rightarrow> 's option \<Rightarrow> bytes result \<times> 's option" where
  "recv_exact recv n None = (Err ''recv on closed socket'', None)"
| "recv_exact recv n (Some s) = map_prod id Some (recv_loop recv n [] s)"

definition max_wire_frame :: u32 where
  "max_wire_frame = 256 * 1024 * 1024"

definition recv_frame :: "'s recv \<Rightarrow> 's option \<Rightarrow> bytes option result \<times> 's option" where
  "recv_frame recv st =
     (case recv_exact recv 4 st of
        (Err e, st') \<Rightarrow> (Ok None, st')
      | (Ok hdr, st') \<Rightarrow>
          (let len = be_fold 0 hdr :: u32
           in if len < 8 \<or> max_wire_frame < len
              then (Err (''invalid frame length '' @ to_string_word len), st')
              else (case recv_exact recv (unat len) st' of
                      (Err e, st'') \<Rightarrow> (Err (''frame body read failed: '' @ e), st'')
                    | (Ok body, st'') \<Rightarrow> (Ok (Some (hdr @ body)), st''))))"

fun recv_some :: "'s recv \<Rightarrow> nat \<Rightarrow> 's option \<Rightarrow> bytes option result \<times> 's option" where
  "recv_some recv max_n None = (Ok None, None)"
| "recv_some recv max_n (Some s) =
     (case recv (min max_n 65536) s of
        (RecvBytes bs, s') \<Rightarrow> (Ok (if bs = [] then None else Some bs), Some s')
      | (RecvTimeout, s') \<Rightarrow> (Ok None, Some s')
      | (RecvError e, s') \<Rightarrow> (Err (''recv failed: '' @ last_wsa_error e), Some s'))"

subsection \<open>However the stream is cut\<close>

text \<open>\<open>pending s\<close> are the bytes the socket still holds.\<close>

definition delivers :: "'s recv \<Rightarrow> ('s \<Rightarrow> bytes) \<Rightarrow> bool" where
  "delivers recv pending \<longleftrightarrow>
     (\<forall>want s. 0 < want \<longrightarrow> pending s \<noteq> [] \<longrightarrow>
        (\<exists>bs s'. recv want s = (RecvBytes bs, s') \<and> bs \<noteq> [] \<and> length bs \<le> want \<and>
           pending s = bs @ pending s'))"

lemma recv_loop_delivers:
  assumes "delivers recv pending" and "n \<le> length out + length (pending s)" and "length out \<le> n"
  shows "\<exists>s'. recv_loop recv n out s = (Ok (out @ take (n - length out) (pending s)), s') \<and>
    pending s' = drop (n - length out) (pending s)"
  using assms(2,3)
proof (induction "n - length out" arbitrary: out s rule: less_induct)
  case less
  show ?case
  proof (cases "n \<le> length out")
    case True
    then show ?thesis using less.prems by (simp add: recv_loop.simps)
  next
    case False
    then have want: "0 < min (n - length out) 65536" "pending s \<noteq> []"
      using less.prems by auto
    obtain bs s' where bs: "recv (min (n - length out) 65536) s = (RecvBytes bs, s')" "bs \<noteq> []"
        "length bs \<le> min (n - length out) 65536" "pending s = bs @ pending s'"
      using assms(1) want unfolding delivers_def by blast
    have shorter: "n - length (out @ bs) < n - length out"
      using False bs(2) by (cases bs) auto
    have "\<exists>s''. recv_loop recv n (out @ bs) s' =
        (Ok ((out @ bs) @ take (n - length (out @ bs)) (pending s')), s'') \<and>
        pending s'' = drop (n - length (out @ bs)) (pending s')"
      using less.prems bs(3,4) False shorter by (intro less.hyps) auto
    moreover have "recv_loop recv n out s = recv_loop recv n (out @ bs) s'"
      using False bs by (simp add: recv_loop.simps [of recv n out s])
    ultimately show ?thesis using bs(3,4) by simp
  qed
qed

lemma recv_exact_delivers:
  assumes "delivers recv pending" and "n \<le> length (pending s)"
  shows "\<exists>s'. recv_exact recv n (Some s) = (Ok (take n (pending s)), Some s') \<and>
    pending s' = drop n (pending s)"
  using recv_loop_delivers [OF assms(1), of n "[]" s] assms(2) by auto

lemma recv_frame_delivers:
  assumes "delivers recv pending" and "frame_decode data = Ok f" and "pending s = data @ rest"
  shows "\<exists>s'. recv_frame recv (Some s) = (Ok (Some data), Some s') \<and> pending s' = rest"
proof -
  have e: "frame_encode (f_type f) (f_payload f) (f_version f) = Ok data"
    and n: "length (f_payload f) \<le> max_frame_payload"
    using decode_ok_iff assms(2) by blast+
  define len where "len = wire_length (f_payload f)"
  have len: "unat len = length data - 4" "4 \<le> length data" "take 4 data = be_bytes 4 len"
      "\<not> len < 8" "\<not> max_wire_frame < len"
    using e n by (auto simp: frame_encode_eq len_def wire_length_def unat_of_nat max_frame_payload_def
        max_wire_frame_def word_less_nat_alt simp del: of_nat_add)
  obtain s1 where s1: "recv_exact recv 4 (Some s) = (Ok (take 4 data), Some s1)"
      "pending s1 = drop 4 data @ rest"
    using recv_exact_delivers [OF assms(1), of 4 s] assms(3) len(2) by auto
  obtain s2 where s2: "recv_exact recv (unat len) (Some s1) = (Ok (drop 4 data), Some s2)"
      "pending s2 = rest"
    using recv_exact_delivers [OF assms(1), of "unat len" s1] s1(2) len(1) by auto
  have "be_fold 0 (take 4 data) = len" by (simp add: len(3) be_fold_word)
  then show ?thesis
    using len(4,5) s2 by (simp add: recv_frame_def s1(1) Let_def del: recv_exact.simps)
qed

subsection \<open>Properties\<close>

text \<open>C25: However the network cuts the byte stream into pieces, when the socket holds a valid
  frame followed by other bytes, receiving returns exactly the bytes of that frame and leaves
  exactly the other bytes; so frames sent back to back are received one by one.\<close>

theorem recv_frame_any_chunking:
  assumes "delivers recv pending" and "frame_decode data = Ok f" and "pending s = data @ rest"
  shows "\<exists>s'. recv_frame recv (Some s) = (Ok (Some data), Some s') \<and> pending s' = rest"
  using assms by (rule recv_frame_delivers)

text \<open>A socket that hands out its bytes one at a time.\<close>

definition drip_recv :: "bytes recv" where
  "drip_recv want s = (RecvBytes (take 1 s), drop 1 s)"

theorem recv_frame_any_chunking_witness:
  "\<exists>data s'. frame_encode MT_PING [7] kProtocolVersion = Ok data \<and>
     recv_frame drip_recv (Some (data @ [1, 2])) = (Ok (Some data), Some s') \<and> s' = [1, 2]"
proof -
  obtain data where e: "frame_encode MT_PING [7] kProtocolVersion = Ok data"
    by (auto simp: frame_encode_eq)
  then have d: "frame_decode data = Ok \<lparr>f_version = kProtocolVersion, f_type = MT_PING, f_payload = [7]\<rparr>"
    by (simp add: decode_ok_iff max_frame_payload_def)
  have "delivers drip_recv (\<lambda>s. s)"
    by (auto simp: delivers_def drip_recv_def neq_Nil_conv)
  from recv_frame_any_chunking [OF this d refl, of "[1, 2]"] show ?thesis
    using e by auto
qed

end
