(* ===== verification/Coordinator.thy ===== *)
theory Coordinator
  imports Authority Network
begin

section \<open>The coordinator\<close>

text \<open>
  \<^verbatim>\<open>include/servingobs/store/coordinator.hpp\<close> and \<^verbatim>\<open>src/coordinator.cpp\<close>: the state the
  lock protects, its operations, the handler of one client connection, and the step relation of
  the operations that any interleaving of client threads performs. Every public operation takes
  the lock for its whole body, so one operation is one step; the sockets are those of
  \<^verbatim>\<open>Network\<close>, and the threads, the listener and the stop flag's writer are outside the model.
\<close>

subsection \<open>State\<close>

record coordinator =
  c_epoch :: u64
  c_registry :: registry
  c_accepted :: "(observation_id, observation) omap"
  c_by_request :: "(request_id, observation list) omap"
  c_stale :: "(observation \<times> string) list"
  c_accepted_total :: u32
  c_stale_total :: u32
  c_duplicate_total :: u32

record ingest_result =
  i_accepted :: bool
  i_decision :: u8
  i_reason :: string
  i_accepted_total :: u32
  i_rejected_total :: u32

definition set_epoch :: "u64 \<Rightarrow> coordinator \<Rightarrow> coordinator" where
  "set_epoch e c = c\<lparr>c_epoch := e\<rparr>"

definition new_coordinator :: coordinator where
  "new_coordinator = set_epoch 1
     \<lparr>c_epoch = 1, c_registry = [], c_accepted = [], c_by_request = [], c_stale = [],
      c_accepted_total = 0, c_stale_total = 0, c_duplicate_total = 0\<rparr>"

definition reject_duplicate_id :: u8 where
  "reject_duplicate_id = 0xFF"

subsection \<open>Operations\<close>

definition hello_observation :: "hello_payload \<Rightarrow> observation" where
  "hello_observation h = default_observation\<lparr>o_type := OT_REQUEST, o_source := h_source h,
     o_worker := h_worker h, o_boot := h_boot h, o_src_gen := h_src_gen h, o_obs_gen := h_obs_gen h,
     o_epoch := h_epoch h, o_clock_domain := h_clock_domain h\<rparr>"

definition register_hello :: "hello_payload \<Rightarrow> coordinator \<Rightarrow> source_authority result \<times> coordinator" where
  "register_hello h c =
     (let (res, reg) = register_source (hello_observation h) (h_epoch h) False (c_registry c)
      in (res, c\<lparr>c_registry := reg\<rparr>))"

text \<open>\<^verbatim>\<open>by_request_[rid].push_back(o)\<close>: the entry is created when it is missing.\<close>

definition index_request :: "observation \<Rightarrow> (request_id, observation list) omap \<Rightarrow>
    (request_id, observation list) omap" where
  "index_request ob m =
     (let rid = o_request_id ob;
          old = (case map_of m rid of None \<Rightarrow> [] | Some obs \<Rightarrow> obs)
      in if rid \<noteq> id_null then omap_set rid (old @ [ob]) m else m)"

definition ingest :: "observation \<Rightarrow> coordinator \<Rightarrow> ingest_result \<times> coordinator" where
  "ingest ob c =
     (if map_of (c_accepted c) (o_id ob) \<noteq> None
      then (let reason = ''duplicate observation id '' @ to_hex (o_id ob)
            in (\<lparr>i_accepted = False, i_decision = reject_duplicate_id, i_reason = reason,
                 i_accepted_total = c_accepted_total c, i_rejected_total = c_stale_total c\<rparr>,
                c\<lparr>c_duplicate_total := c_duplicate_total c + 1, c_stale := c_stale c @ [(ob, reason)]\<rparr>))
      else let ((d, reason), reg) = validate ob (c_registry c)
           in if d \<noteq> AD_ACCEPTED
              then (\<lparr>i_accepted = False, i_decision = authority_decision_num d, i_reason = reason,
                     i_accepted_total = c_accepted_total c, i_rejected_total = c_stale_total c + 1\<rparr>,
                    c\<lparr>c_registry := reg, c_stale_total := c_stale_total c + 1,
                      c_stale := c_stale c @ [(ob, reason)]\<rparr>)
              else (\<lparr>i_accepted = True, i_decision = authority_decision_num AD_ACCEPTED, i_reason = [],
                     i_accepted_total = c_accepted_total c + 1, i_rejected_total = c_stale_total c\<rparr>,
                    c\<lparr>c_registry := reg, c_accepted := omap_set (o_id ob) ob (c_accepted c),
                      c_by_request := index_request ob (c_by_request c),
                      c_accepted_total := c_accepted_total c + 1\<rparr>))"

definition accepted_count :: "coordinator \<Rightarrow> nat" where
  "accepted_count c = length (c_accepted c)"

definition stale_count :: "coordinator \<Rightarrow> nat" where
  "stale_count c = length (c_stale c)"

definition source_count :: "coordinator \<Rightarrow> nat" where
  "source_count c = length (c_registry c)"

definition all_accepted :: "coordinator \<Rightarrow> observation list" where
  "all_accepted c = map snd (c_accepted c)"

definition registry_snapshot :: "coordinator \<Rightarrow> source_authority list" where
  "registry_snapshot c = map snd (c_registry c)"

text \<open>\<^verbatim>\<open>reset\<close> keeps the epoch.\<close>

definition coord_reset :: "coordinator \<Rightarrow> coordinator" where
  "coord_reset c = c\<lparr>c_accepted := [], c_by_request := [], c_stale := [], c_accepted_total := 0,
     c_stale_total := 0, c_duplicate_total := 0, c_registry := []\<rparr>"

subsection \<open>One client connection\<close>

datatype client_next = CN_Continue | CN_Break | CN_Return

text \<open>
  What handling a message does: go on or leave the loop, the frames it hands to \<^verbatim>\<open>send_all\<close>
  (whose result the handler ignores), the coordinator after it; an exception of an encoder
  leaves the handler.
\<close>

type_synonym handled = "(client_next \<times> bytes list) result \<times> coordinator"

definition send_reply :: "msg_type \<Rightarrow> bytes result \<Rightarrow> coordinator \<Rightarrow> handled" where
  "send_reply t payload c =
     (case payload of
        Err e \<Rightarrow> (Err e, c)
      | Ok p \<Rightarrow> (case frame_encode t p kProtocolVersion of
                   Err e \<Rightarrow> (Err e, c)
                 | Ok enc \<Rightarrow> (Ok (CN_Continue, [enc]), c)))"

definition status_of :: "coordinator \<Rightarrow> status_payload" where
  "status_of c = \<lparr>s_health = ''healthy'', s_online_sources = of_nat (source_count c),
     s_observations_total = c_accepted_total c, s_dropped_stale = c_stale_total c, s_epoch = c_epoch c\<rparr>"

definition handle_frame :: "frame \<Rightarrow> coordinator \<Rightarrow> handled" where
  "handle_frame f c =
     (case f_type f of
        MT_HELLO \<Rightarrow>
          (case decode_hello (f_payload f) of
             Err e \<Rightarrow> (Ok (CN_Continue, []), c)
           | Ok h \<Rightarrow>
               (case register_hello h c of
                  (Ok auth, c') \<Rightarrow> send_reply MT_HELLO_ACK
                    (encode_obs_ack True (authority_decision_num AD_ACCEPTED) (c_accepted_total c') []) c'
                | (Err e, c') \<Rightarrow> send_reply MT_HELLO_ACK
                    (encode_obs_ack False (authority_decision_num AD_ACCEPTED) 0 e) c'))
      | MT_OBS \<Rightarrow>
          (case read_observation_payload (f_payload f) of
             Err e \<Rightarrow> (Ok (CN_Continue, []), c)
           | Ok ob \<Rightarrow>
               (let (ir, c') = ingest ob c
                in send_reply MT_OBS_ACK
                     (encode_obs_ack (i_accepted ir) (i_decision ir) (i_accepted_total ir) (i_reason ir)) c'))
      | MT_STATUS \<Rightarrow> send_reply MT_STATUS (encode_status (status_of c)) c
      | MT_PING \<Rightarrow> send_reply MT_PONG (Ok []) c
      | MT_BYE \<Rightarrow> (Ok (CN_Return, []), c)
      | _ \<Rightarrow> (Ok (CN_Continue, []), c))"

text \<open>One turn of the loop of \<^verbatim>\<open>handle_client\<close>; \<open>stop\<close> is what it reads from the stop flag.\<close>

definition client_turn :: "'s recv \<Rightarrow> bool \<Rightarrow> 's option \<Rightarrow> coordinator \<Rightarrow> handled \<times> 's option" where
  "client_turn recv stop st c =
     (case recv_frame recv st of
        (Err e, st') \<Rightarrow> ((Ok (CN_Break, []), c), st')
      | (Ok None, st') \<Rightarrow>
          if stop then ((Ok (CN_Break, []), c), st')
          else (case recv_some recv 1 st' of
                  (Ok (Some extra), st'') \<Rightarrow> ((Ok (CN_Continue, []), c), st'')
                | (_, st'') \<Rightarrow> ((Ok (CN_Break, []), c), st''))
      | (Ok (Some data), st') \<Rightarrow>
          (case frame_decode data of
             Err e \<Rightarrow> ((Ok (CN_Break, []), c), st')
           | Ok f \<Rightarrow> (handle_frame f c, st')))"

text \<open>The loop, for as many turns as it is given, each with the value the stop flag then has: the
  frames sent, the state and the socket, and whether the handler has ended.\<close>

fun client_loop :: "'s recv \<Rightarrow> bool list \<Rightarrow> 's option \<Rightarrow> coordinator \<Rightarrow>
    (bool \<times> bytes list) \<times> coordinator \<times> 's option" where
  "client_loop recv [] st c = ((False, []), c, st)"
| "client_loop recv (stop # stops) st c =
     (case client_turn recv stop st c of
        ((Ok (CN_Continue, out), c'), st') \<Rightarrow>
          (let ((fin, out'), c'', st'') = client_loop recv stops st' c'
           in ((fin, out @ out'), c'', st''))
      | ((Ok (_, out), c'), st') \<Rightarrow> ((True, out), c', st')
      | ((Err e, c'), st') \<Rightarrow> ((True, []), c', st'))"

subsection \<open>Steps and reachable states\<close>

text \<open>
  \<open>live_step\<close> is one operation under the lock: what clients cause, \<^verbatim>\<open>set_epoch\<close>, and a restart
  marked through \<^verbatim>\<open>registry()\<close>. \<^verbatim>\<open>reset\<close> starts a fresh run.
\<close>

inductive live_step :: "coordinator \<Rightarrow> coordinator \<Rightarrow> bool" where
  hello: "live_step c (snd (register_hello h c))"
| obs: "live_step c (snd (ingest ob c))"
| epoch: "live_step c (set_epoch e c)"
| restart: "live_step c (c\<lparr>c_registry := snd (mark_restart source worker boot e (c_registry c))\<rparr>)"

inductive reachable :: "coordinator \<Rightarrow> bool" where
  start: "reachable new_coordinator"
| step: "reachable c \<Longrightarrow> live_step c c' \<Longrightarrow> reachable c'"
| reset: "reachable c \<Longrightarrow> reachable (coord_reset c)"

inductive_cases live_stepE: "live_step c c'"

subsection \<open>The invariant\<close>

text \<open>
  The accepted index is a map keyed by the observations' own ids; the request index holds
  exactly the accepted observations that name a request, each once, under its request; the
  counters count modulo 32 bits.
\<close>

definition index_ok :: "(observation_id, observation) omap \<Rightarrow> (request_id, observation list) omap \<Rightarrow> bool" where
  "index_ok acc idx \<longleftrightarrow>
     omap_ok idx \<and>
     (\<forall>e \<in> set idx. fst e \<noteq> id_null \<and> snd e \<noteq> [] \<and> (\<forall>ob \<in> set (snd e). o_request_id ob = fst e)) \<and>
     mset (concat (map snd idx)) = mset (filter links_request (map snd acc))"

definition coord_inv :: "coordinator \<Rightarrow> bool" where
  "coord_inv c \<longleftrightarrow>
     omap_ok (c_registry c) \<and> omap_ok (c_accepted c) \<and>
     (\<forall>e \<in> set (c_accepted c). o_id (snd e) = fst e) \<and>
     index_ok (c_accepted c) (c_by_request c) \<and>
     c_accepted_total c = of_nat (length (c_accepted c)) \<and>
     c_stale_total c + c_duplicate_total c = of_nat (length (c_stale c))"

lemma concat_omap_set:
  assumes "omap_ok m" and "old = (case map_of m k of None \<Rightarrow> [] | Some v \<Rightarrow> v)"
  shows "mset (concat (map snd (omap_set k (old @ [x]) m))) = add_mset x (mset (concat (map snd m)))"
  using assms
proof (induction m)
  case (Cons e m)
  have "map_of m k = None" if "k < fst e"
    using Cons.prems(1) that by (force simp: map_of_eq_None_iff)
  then show ?case using Cons by (cases e) auto
qed simp

lemma mset_omap_set_fresh:
  "map_of m k = None \<Longrightarrow> mset (omap_set k v m) = add_mset (k, v) (mset m)"
  by (induction m) (auto split: if_splits)

lemma index_ok_add:
  assumes "index_ok acc idx" and "map_of acc (o_id ob) = None" and "omap_ok acc"
  shows "index_ok (omap_set (o_id ob) ob acc) (index_request ob idx)"
proof -
  have acc: "mset (filter links_request (map snd (omap_set (o_id ob) ob acc))) =
      (if links_request ob then add_mset ob (mset (filter links_request (map snd acc)))
       else mset (filter links_request (map snd acc)))"
    using mset_omap_set_fresh [OF assms(2), of ob]
    by (simp flip: mset_filter mset_map)
       (simp add: mset_filter mset_map)
  show ?thesis
  proof (cases "links_request ob")
    case True
    then have rid: "o_request_id ob \<noteq> id_null" by (simp add: links_request_def o_request_id_def)
    have idx: "omap_ok idx" using assms(1) by (simp add: index_ok_def)
    define old where "old = (case map_of idx (o_request_id ob) of None \<Rightarrow> [] | Some obs \<Rightarrow> obs)"
    have old: "o_request_id o' = o_request_id ob" if o': "o' \<in> set old" for o'
    proof (cases "map_of idx (o_request_id ob)")
      case (Some v)
      then show ?thesis
        using map_of_SomeD [OF Some] o' assms(1) by (force simp: index_ok_def old_def)
    qed (use o' in \<open>simp add: old_def\<close>)
    have ins: "index_request ob idx = omap_set (o_request_id ob) (old @ [ob]) idx"
      using rid by (simp add: index_request_def Let_def old_def)
    have "mset (concat (map snd (index_request ob idx))) = add_mset ob (mset (concat (map snd idx)))"
      unfolding ins by (rule concat_omap_set [OF idx]) (simp add: old_def)
    also have "\<dots> = mset (filter links_request (map snd (omap_set (o_id ob) ob acc)))"
      using assms(1) acc True by (simp only: index_ok_def if_True)
    finally show ?thesis
      using assms(1) rid idx old unfolding index_ok_def ins by (simp add: set_omap_set)
  next
    case False
    then show ?thesis
      using assms(1) acc by (simp add: index_ok_def index_request_def links_request_def o_request_id_def Let_def)
  qed
qed

subsection \<open>What an ingestion does\<close>

definition ingest_accepts :: "observation \<Rightarrow> coordinator \<Rightarrow> bool" where
  "ingest_accepts ob c \<longleftrightarrow> map_of (c_accepted c) (o_id ob) = None \<and> accepts ob (c_registry c)"

lemma ingest_accepted_iff: "i_accepted (fst (ingest ob c)) = ingest_accepts ob c"
  by (auto simp: ingest_def ingest_accepts_def accepts_def Let_def split: prod.split)

lemma ingest_accepted:
  assumes "ingest_accepts ob c"
  shows "snd (ingest ob c) = c\<lparr>c_registry := snd (validate ob (c_registry c)),
    c_accepted := omap_set (o_id ob) ob (c_accepted c),
    c_by_request := index_request ob (c_by_request c), c_accepted_total := c_accepted_total c + 1\<rparr>"
  using assms by (auto simp: ingest_def ingest_accepts_def accepts_def Let_def split: prod.split)

lemma ingest_rejected:
  assumes "\<not> ingest_accepts ob c"
  shows "snd (ingest ob c) = c\<lparr>c_stale := c_stale c @ [(ob, i_reason (fst (ingest ob c)))],
    c_stale_total := c_stale_total (snd (ingest ob c)),
    c_duplicate_total := c_duplicate_total (snd (ingest ob c))\<rparr>"
    and "c_stale_total (snd (ingest ob c)) + c_duplicate_total (snd (ingest ob c)) =
      c_stale_total c + c_duplicate_total c + 1"
proof -
  have reg: "snd (validate ob (c_registry c)) = c_registry c" if "\<not> accepts ob (c_registry c)"
    using that by (rule validate_rejected)
  show "snd (ingest ob c) = c\<lparr>c_stale := c_stale c @ [(ob, i_reason (fst (ingest ob c)))],
      c_stale_total := c_stale_total (snd (ingest ob c)),
      c_duplicate_total := c_duplicate_total (snd (ingest ob c))\<rparr>"
    "c_stale_total (snd (ingest ob c)) + c_duplicate_total (snd (ingest ob c)) =
      c_stale_total c + c_duplicate_total c + 1"
    using assms reg
    by (auto simp: ingest_def ingest_accepts_def accepts_def Let_def split: prod.splits)
qed

lemma ingest_rejected_same:
  assumes "\<not> ingest_accepts ob c"
  shows "c_registry (snd (ingest ob c)) = c_registry c" "c_accepted (snd (ingest ob c)) = c_accepted c"
    "c_by_request (snd (ingest ob c)) = c_by_request c"
    "c_accepted_total (snd (ingest ob c)) = c_accepted_total c" "c_epoch (snd (ingest ob c)) = c_epoch c"
    "c_stale (snd (ingest ob c)) = c_stale c @ [(ob, i_reason (fst (ingest ob c)))]"
  by (subst ingest_rejected(1) [OF assms], simp)+

lemma coord_inv_new: "coord_inv new_coordinator"
  by (simp add: coord_inv_def new_coordinator_def set_epoch_def index_ok_def)

lemma coord_inv_ingest:
  assumes "coord_inv c"
  shows "coord_inv (snd (ingest ob c))"
proof (cases "ingest_accepts ob c")
  case True
  then have new: "map_of (c_accepted c) (o_id ob) = None" by (simp add: ingest_accepts_def)
  have "length (omap_set (o_id ob) ob (c_accepted c)) = Suc (length (c_accepted c))"
    by (rule length_omap_set_fresh [OF new])
  then show ?thesis
    using assms index_ok_add [OF _ new]
    by (auto simp: ingest_accepted [OF True] coord_inv_def set_omap_set)
next
  case False
  note r = ingest_rejected [OF False]
  show ?thesis
    using assms r(2) by (subst r(1)) (simp add: coord_inv_def)
qed

lemma coord_inv_step: "live_step c c' \<Longrightarrow> coord_inv c \<Longrightarrow> coord_inv c'"
proof (induction rule: live_step.induct)
  case (hello c h)
  then show ?case
    using omap_ok_register [of "c_registry c" "hello_observation h" "h_epoch h" False]
    by (simp add: register_hello_def coord_inv_def case_prod_beta)
next
  case (obs c ob)
  then show ?case by (intro coord_inv_ingest)
qed (simp_all add: coord_inv_def set_epoch_def)

lemma coord_inv_reset: "coord_inv (coord_reset c)"
  by (simp add: coord_inv_def coord_reset_def index_ok_def)

lemma reachable_inv: "reachable c \<Longrightarrow> coord_inv c"
  by (induction rule: reachable.induct) (auto intro: coord_inv_new coord_inv_step coord_inv_reset)

text \<open>Accepted observations stay, as they were accepted, through every step but a reset.\<close>

lemma live_step_keeps:
  assumes "live_step c c'" and "map_of (c_accepted c) k = Some ob"
  shows "map_of (c_accepted c') k = Some ob"
  using assms
proof (induction rule: live_step.induct)
  case (obs c o')
  show ?case
  proof (cases "ingest_accepts o' c")
    case True
    then show ?thesis using obs by (auto simp: ingest_accepted ingest_accepts_def)
  qed (use obs in \<open>simp add: ingest_rejected_same\<close>)
qed (simp_all add: register_hello_def set_epoch_def case_prod_beta)

lemma live_steps_keep:
  "live_step\<^sup>*\<^sup>* c c' \<Longrightarrow> map_of (c_accepted c) k = Some ob \<Longrightarrow> map_of (c_accepted c') k = Some ob"
  by (induction rule: rtranclp_induct) (auto intro: live_step_keeps)

subsection \<open>Replies\<close>

text \<open>A reason is short, so no reply throws or outgrows a frame.\<close>

lemma length_dec_string: "0 < k \<Longrightarrow> n < 10 ^ k \<Longrightarrow> length (dec_string n) \<le> k"
proof (induction k arbitrary: n)
  case (Suc k)
  show ?case
  proof (cases "n < 10")
    case False
    then have "0 < k" "n div 10 < 10 ^ k"
      using Suc.prems by (cases k; simp add: less_mult_imp_div_less)+
    then show ?thesis using Suc.IH False by (simp add: dec_string.simps [of n])
  qed (simp add: dec_string.simps [of n])
qed simp

lemma length_to_string_u64: "length (to_string_word (w :: u64)) \<le> 20"
proof -
  have "unat w < 2 ^ LENGTH(64)" by (rule unsigned_less)
  then show ?thesis unfolding to_string_word_def by (intro length_dec_string) simp_all
qed

lemma length_to_hex: "length (to_hex v) = 32"
  by (simp add: to_hex_eq)

lemma length_validate_reason: "length (snd (fst (validate ob reg))) \<le> 200"
  using length_to_string_u64 [of "o_epoch ob"] length_to_string_u64 [of "o_src_gen ob"]
    length_to_string_u64 [of "o_obs_gen ob"] length_to_string_u64 [of "o_seq ob"]
    length_to_string_u64 [of "a_epoch (the (map_of reg (obs_key ob)))"]
    length_to_string_u64 [of "a_src_gen (the (map_of reg (obs_key ob)))"]
    length_to_string_u64 [of "a_obs_gen (the (map_of reg (obs_key ob)))"]
    length_to_string_u64 [of "a_last_seq (the (map_of reg (obs_key ob)))"]
  by (auto simp: validate_def length_to_hex split: option.split)

lemma length_ingest_reason: "length (i_reason (fst (ingest ob c))) \<le> 200"
  using length_validate_reason [of ob "c_registry c"]
  by (auto simp: ingest_def length_to_hex Let_def split: prod.splits)

lemma send_reply_ok:
  "length p \<le> max_frame_payload \<Longrightarrow>
     \<exists>b. send_reply t (Ok p) c = (Ok (CN_Continue, [b]), c) \<and>
       frame_decode b = Ok \<lparr>f_version = kProtocolVersion, f_type = t, f_payload = p\<rparr>"
  by (simp add: send_reply_def frame_encode_eq decode_ok_iff)

lemma ack_reply:
  assumes "length reason \<le> 200"
  shows "\<exists>b p. send_reply t (encode_obs_ack acc d n reason) c = (Ok (CN_Continue, [b]), c) \<and>
    frame_decode b = Ok \<lparr>f_version = kProtocolVersion, f_type = t, f_payload = p\<rparr> \<and>
    decode_obs_ack p = Ok \<lparr>k_accepted = acc, k_decision = d, k_accepted_total = n, k_reason = reason\<rparr>"
proof -
  let ?a = "\<lparr>k_accepted = acc, k_decision = d, k_accepted_total = n, k_reason = reason\<rparr>"
  have fits: "fits32 (length reason)" using assms by (simp add: fits32_def)
  then obtain p where p: "encode_obs_ack acc d n reason = Ok p" "decode_obs_ack p = Ok ?a"
    using obs_ack.encode_roundtrip [of ?a] by auto
  have "emits (write_obs_ack acc d n reason) ([if acc then 1 else 0] @ [d] @ be_bytes 4 n @
      (be_bytes 4 (of_nat (length reason) :: u32) @ str_bytes reason) @ [])"
    unfolding write_obs_ack_def by (intro codec_intros fits)
  from emits_run [OF this, of "[]"] have "length p \<le> max_frame_payload"
    using p(1) assms by (auto simp: encode_obs_ack_def max_frame_payload_def)
  from send_reply_ok [OF this, of t c] show ?thesis using p by auto
qed

text \<open>A turn of the handler performs at most one operation on the coordinator.\<close>

lemma send_reply_state [simp]: "snd (send_reply t p c) = c"
  by (simp add: send_reply_def split: sum.split)

lemma handle_frame_step: "snd (handle_frame f c) = c \<or> live_step c (snd (handle_frame f c))"
  using live_step.hello [of c] live_step.obs [of c]
  by (auto simp: handle_frame_def case_prod_beta split: msg_type.split sum.split)

lemma client_turn_step: "snd (fst (client_turn recv stop st c)) = c \<or> live_step c (snd (fst (client_turn recv stop st c)))"
  using handle_frame_step
  by (auto simp: client_turn_def split: prod.split sum.split option.split)

lemma client_loop_steps: "live_step\<^sup>*\<^sup>* c (fst (snd (client_loop recv stops st c)))"
proof (induction stops arbitrary: st c)
  case (Cons stop stops)
  obtain r c' st' where t: "client_turn recv stop st c = ((r, c'), st')"
    by (metis prod.collapse)
  have c': "live_step\<^sup>*\<^sup>* c c'"
    using client_turn_step [of recv stop st c] by (auto simp: t)
  show ?case
  proof (cases r)
    case (Inr res)
    obtain nx out where res: "res = (nx, out)" by (cases res)
    show ?thesis
      using c' Cons.IH [of c' st'] t Inr
      by (cases nx) (auto simp: res Let_def split: prod.split)
  qed (use c' t in simp)
qed simp

text \<open>So whatever bytes arrive, a reachable state stays reachable.\<close>

lemma client_loop_reachable:
  assumes "reachable c"
  shows "reachable (fst (snd (client_loop recv stops st c)))"
proof -
  have "live_step\<^sup>*\<^sup>* c c' \<Longrightarrow> reachable c'" for c'
    by (induction rule: rtranclp_induct) (auto intro: assms reachable.step)
  then show ?thesis using client_loop_steps by blast
qed

text \<open>What the handler does with an OBS frame.\<close>

lemma handle_obs:
  assumes "obs_ok ob" and "encode_observation_payload ob = Ok p"
  shows "\<exists>ack f k. handle_frame \<lparr>f_version = v, f_type = MT_OBS, f_payload = p\<rparr> c =
      (Ok (CN_Continue, [ack]), snd (ingest ob c)) \<and>
    frame_decode ack = Ok f \<and> f_type f = MT_OBS_ACK \<and> decode_obs_ack (f_payload f) = Ok k \<and>
    k_accepted k = i_accepted (fst (ingest ob c)) \<and> k_decision k = i_decision (fst (ingest ob c)) \<and>
    k_accepted_total k = i_accepted_total (fst (ingest ob c)) \<and> k_reason k = i_reason (fst (ingest ob c))"
proof -
  have ob: "read_observation_payload p = Ok ob"
    using obs_payload.decode_encode [OF assms] .
  obtain ir c' where ir: "ingest ob c = (ir, c')" by fastforce
  then have reason: "length (i_reason ir) \<le> 200" using length_ingest_reason [of ob c] by simp
  obtain b q where "send_reply MT_OBS_ACK (encode_obs_ack (i_accepted ir) (i_decision ir)
      (i_accepted_total ir) (i_reason ir)) c' = (Ok (CN_Continue, [b]), c')"
    "frame_decode b = Ok \<lparr>f_version = kProtocolVersion, f_type = MT_OBS_ACK, f_payload = q\<rparr>"
    "decode_obs_ack q = Ok \<lparr>k_accepted = i_accepted ir, k_decision = i_decision ir,
       k_accepted_total = i_accepted_total ir, k_reason = i_reason ir\<rparr>"
    using ack_reply [OF reason] by blast
  then show ?thesis by (simp add: handle_frame_def ob ir)
qed

subsection \<open>Properties\<close>

text \<open>C1: Whatever operations the clients and the operator perform, in whatever order the
  threads take the lock, the coordinator's state is consistent: the accepted index is a map
  keyed by the observations' ids, the request index holds exactly the accepted observations
  that name a request, once each and under that request, and the counters count them modulo
  32 bits (the stale and duplicate counters together count the history).\<close>

theorem reachable_consistent:
  assumes "reachable c"
  shows "coord_inv c"
  using assms by (rule reachable_inv)

theorem reachable_consistent_witness:
  "coord_inv (snd (ingest sample_observation (new_coordinator\<lparr>c_registry := snd (mark_restart
     (Id128 0 1) (Id128 0 2) (Id128 0 3) 5 (c_registry new_coordinator))\<rparr>)))"
  by (rule reachable_consistent)
     (intro reachable.step [OF _ live_step.obs] reachable.step [OF _ live_step.restart] reachable.start)

text \<open>C2: An observation is accepted exactly when its id is new and the registry accepts it;
  acceptance stores it, indexes it, counts it and touches no history; any other outcome leaves
  registry, accepted observations, request index, accepted counter and epoch as they were and
  appends the observation to the history with the reason that is returned.\<close>

theorem ingest_effect:
  "i_accepted (fst (ingest ob c)) = ingest_accepts ob c \<and>
   (if ingest_accepts ob c
    then c_accepted (snd (ingest ob c)) = omap_set (o_id ob) ob (c_accepted c) \<and>
         c_by_request (snd (ingest ob c)) = index_request ob (c_by_request c) \<and>
         c_registry (snd (ingest ob c)) = snd (validate ob (c_registry c)) \<and>
         c_accepted_total (snd (ingest ob c)) = c_accepted_total c + 1 \<and>
         c_stale (snd (ingest ob c)) = c_stale c
    else c_registry (snd (ingest ob c)) = c_registry c \<and>
         c_accepted (snd (ingest ob c)) = c_accepted c \<and>
         c_by_request (snd (ingest ob c)) = c_by_request c \<and>
         c_accepted_total (snd (ingest ob c)) = c_accepted_total c \<and>
         c_epoch (snd (ingest ob c)) = c_epoch c \<and>
         c_stale (snd (ingest ob c)) = c_stale c @ [(ob, i_reason (fst (ingest ob c)))])"
  by (simp add: ingest_accepted_iff ingest_accepted ingest_rejected_same)

text \<open>C12: An accepted observation is final: through every later operation but a reset it stays
  stored as it was accepted, and no observation with its id is accepted again.\<close>

theorem accepted_once:
  assumes "i_accepted (fst (ingest ob c))" and "live_step\<^sup>*\<^sup>* (snd (ingest ob c)) c'"
    and "o_id ob' = o_id ob"
  shows "map_of (c_accepted c') (o_id ob) = Some ob \<and> \<not> i_accepted (fst (ingest ob' c'))"
proof -
  have "ingest_accepts ob c" using assms(1) by (simp add: ingest_accepted_iff)
  then have "map_of (c_accepted (snd (ingest ob c))) (o_id ob) = Some ob"
    by (simp add: ingest_accepted)
  then have "map_of (c_accepted c') (o_id ob) = Some ob"
    using live_steps_keep [OF assms(2)] by blast
  then show ?thesis using assms(3) by (simp add: ingest_accepted_iff ingest_accepts_def)
qed

theorem accepted_once_witness:
  "map_of (c_accepted (snd (ingest sample_observation (new_coordinator\<lparr>c_registry := sample_registry\<rparr>))))
     (o_id sample_observation) = Some sample_observation \<and>
   \<not> i_accepted (fst (ingest (sample_observation\<lparr>o_seq := 9\<rparr>)
     (snd (ingest sample_observation (new_coordinator\<lparr>c_registry := sample_registry\<rparr>)))))"
proof (rule accepted_once)
  show "i_accepted (fst (ingest sample_observation (new_coordinator\<lparr>c_registry := sample_registry\<rparr>)))"
    using sample_accepted
    by (simp add: ingest_accepted_iff ingest_accepts_def new_coordinator_def set_epoch_def)
qed simp_all

text \<open>C7: An OBS frame that arrives in any pieces is ingested exactly once, and the one reply is
  a valid OBS_ACK frame that decodes to the decision, total and reason of that ingestion; the
  bytes after the frame stay for the next turn.\<close>

theorem obs_frame_end_to_end:
  assumes "delivers recv pending" and "obs_ok ob" and "encode_observation_payload ob = Ok p"
    and "length p \<le> max_frame_payload" and "frame_encode MT_OBS p kProtocolVersion = Ok data"
    and "pending s = data @ rest"
  shows "\<exists>ack s' f k. client_turn recv stop (Some s) c =
      ((Ok (CN_Continue, [ack]), snd (ingest ob c)), Some s') \<and> pending s' = rest \<and>
    frame_decode ack = Ok f \<and> f_type f = MT_OBS_ACK \<and> decode_obs_ack (f_payload f) = Ok k \<and>
    k_accepted k = i_accepted (fst (ingest ob c)) \<and> k_decision k = i_decision (fst (ingest ob c)) \<and>
    k_accepted_total k = i_accepted_total (fst (ingest ob c)) \<and> k_reason k = i_reason (fst (ingest ob c))"
proof -
  let ?f = "\<lparr>f_version = kProtocolVersion, f_type = MT_OBS, f_payload = p\<rparr>"
  have d: "frame_decode data = Ok ?f"
    using assms(4,5) by (simp add: decode_ok_iff)
  obtain s' where s': "recv_frame recv (Some s) = (Ok (Some data), Some s')" "pending s' = rest"
    using recv_frame_delivers [OF assms(1) d assms(6)] by blast
  show ?thesis
    using handle_obs [OF assms(2,3), of kProtocolVersion c] s' by (auto simp: client_turn_def d)
qed

lemma default_payload:
  "\<exists>p. obs_ok default_observation \<and> encode_observation_payload default_observation = Ok p \<and>
     length p \<le> max_frame_payload"
proof -
  have ok: "obs_ok default_observation"
    by (simp add: obs_ok_def fields_ok_def default_observation_def fits32_def)
  have "emits (write_fields (o_fields default_observation)) []"
    by (simp add: default_observation_def emits_skip)
  from emits_run [OF emits_observation [OF ok this], of "[]"] ok show ?thesis
    by (simp add: encode_observation_payload_def header_bytes_def presence_bytes_def
          default_observation_def max_frame_payload_def)
qed

theorem obs_frame_end_to_end_witness:
  "\<exists>p data ack s' f k. frame_encode MT_OBS p kProtocolVersion = Ok data \<and>
    client_turn drip_recv False (Some (data @ [9])) new_coordinator =
      ((Ok (CN_Continue, [ack]), snd (ingest default_observation new_coordinator)), Some s') \<and>
    s' = [9] \<and> frame_decode ack = Ok f \<and> decode_obs_ack (f_payload f) = Ok k \<and>
    k_accepted k = i_accepted (fst (ingest default_observation new_coordinator))"
proof -
  obtain p where p: "obs_ok default_observation" "encode_observation_payload default_observation = Ok p"
      "length p \<le> max_frame_payload"
    using default_payload by blast
  obtain data where data: "frame_encode MT_OBS p kProtocolVersion = Ok data"
    by (simp add: frame_encode_eq)
  have "delivers drip_recv (\<lambda>s. s)"
    by (auto simp: delivers_def drip_recv_def neq_Nil_conv)
  from obs_frame_end_to_end [OF this p data refl, where rest = "[9]" and stop = False and c = new_coordinator] data show ?thesis
    by blast
qed

text \<open>The coordinator's own epoch decides nothing: setting it before an ingestion or a
  registration gives the same result as setting it after; envelopes are judged by the epoch of
  the source's last HELLO alone.\<close>

theorem coordinator_epoch_not_enforced:
  "ingest ob (set_epoch e c) = map_prod id (set_epoch e) (ingest ob c) \<and>
   register_hello h (set_epoch e c) = map_prod id (set_epoch e) (register_hello h c)"
  by (auto simp: ingest_def register_hello_def set_epoch_def Let_def split: prod.splits)

text \<open>A receive timeout at a frame boundary loses a byte: the handler then probes the
  connection by receiving one byte, which it discards, so the next frame is read from its
  second byte on.\<close>

theorem timeout_probe_drops_byte:
  assumes "recv 4 s = (RecvTimeout, s1)" and "recv 1 s1 = (RecvBytes [b], s2)"
  shows "client_turn recv False (Some s) c = ((Ok (CN_Continue, []), c), Some s2)"
  using assms by (simp add: client_turn_def recv_frame_def recv_loop.simps)

theorem timeout_probe_drops_byte_witness:
  "client_turn (\<lambda>want s. if fst s then (RecvTimeout, (False, snd s))
       else (RecvBytes (take want (snd s)), (False, drop want (snd s))))
     False (Some (True, [1, 2, 3 :: u8])) new_coordinator =
   ((Ok (CN_Continue, []), new_coordinator), Some (False, [2, 3]))"
  by (rule timeout_probe_drops_byte [where ?s1.0 = "(False, [1, 2, 3])"]) simp_all

end
