(* ===== verification/Persistence.thy ===== *)
theory Persistence
  imports Replay Coordinator
begin

section \<open>Archives\<close>

text \<open>
  \<^verbatim>\<open>include/servingobs/store/persistence.hpp\<close> and \<^verbatim>\<open>src/persistence.cpp\<close>: a coordinator's
  registry, accepted and stale evidence and replay digests as one checksummed file, and the
  loader that verifies it. A disk maps paths to what a stream finds there; how a write goes is
  a parameter of \<open>save_archive\<close>. The outer result of an operation is a C++ exception (a length
  beyond 32 bits), the inner one the code's own \<^verbatim>\<open>Result\<close>.
\<close>

subsection \<open>Contents\<close>

definition kArchiveMagic :: u32 where
  "kArchiveMagic = 0x534F4253"

definition kArchiveVersion :: u16 where
  "kArchiveVersion = 1"

record archive =
  ar_epoch :: u64
  ar_registry :: "source_authority list"
  ar_accepted :: "observation list"
  ar_stale :: "(observation \<times> string) list"
  ar_created_ns :: u64
  ar_evidence_digest :: bytes
  ar_trace_digest :: bytes
  ar_explanation_digest :: bytes
  ar_aggregate_digest :: bytes
  ar_verified_replay :: replay_result
  ar_replay_match :: bool

definition empty_archive :: archive where [defaults]:
  "empty_archive = \<lparr>ar_epoch = 1, ar_registry = [], ar_accepted = [], ar_stale = [], ar_created_ns = 0,
     ar_evidence_digest = no_digest, ar_trace_digest = no_digest, ar_explanation_digest = no_digest,
     ar_aggregate_digest = no_digest, ar_verified_replay = empty_replay, ar_replay_match = False\<rparr>"

definition build_archive :: "coordinator \<Rightarrow> archive result" where
  "build_archive c =
     (case replay (all_accepted c) of
        Err e \<Rightarrow> Err e
      | Ok rp \<Rightarrow> Ok
          \<lparr>ar_epoch = c_epoch c, ar_registry = registry_snapshot c, ar_accepted = all_accepted c,
           ar_stale = c_stale c, ar_created_ns = 0,
           ar_evidence_digest = rp_evidence_digest rp, ar_trace_digest = rp_trace_digest rp,
           ar_explanation_digest = rp_explanation_digest rp, ar_aggregate_digest = rp_aggregate_digest rp,
           ar_verified_replay = rp, ar_replay_match = True\<rparr>)"

definition archive_json :: "archive \<Rightarrow> json" where
  "archive_json a = json_object (
     [(''magic'', JUInt (ucast kArchiveMagic)), (''version'', JUInt (ucast kArchiveVersion)),
      (''epoch'', JUInt (ar_epoch a)), (''created_ns'', JUInt (ar_created_ns a)),
      (''registry_count'', JUInt (of_nat (length (ar_registry a)))),
      (''accepted_count'', JUInt (of_nat (length (ar_accepted a)))),
      (''stale_count'', JUInt (of_nat (length (ar_stale a)))),
      (''stored_evidence_digest'', JString (digest_hex (ar_evidence_digest a))),
      (''stored_trace_digest'', JString (digest_hex (ar_trace_digest a))),
      (''stored_explanation_digest'', JString (digest_hex (ar_explanation_digest a))),
      (''stored_aggregate_digest'', JString (digest_hex (ar_aggregate_digest a))),
      (''replay_match'', JBool (ar_replay_match a))] @
     (if ar_replay_match a then [(''replay'', replay_json (ar_verified_replay a))] else []))"

subsection \<open>Files\<close>

datatype file_state = No_file | Unsized | Unreadable | File bytes

type_synonym disk = "string \<Rightarrow> file_state"

definition file_read_all :: "disk \<Rightarrow> string \<Rightarrow> bytes result" where
  "file_read_all d path =
     (case d path of
        No_file \<Rightarrow> Err (''cannot open '' @ path)
      | Unsized \<Rightarrow> Err ''cannot determine file size''
      | Unreadable \<Rightarrow> Err (''read failed: '' @ path)
      | File b \<Rightarrow> Ok b)"

text \<open>
  How writing a file goes: the stream does not open, the write fails, it succeeds into the
  stream's buffer but not to the disk when the stream is closed, or it succeeds. The file a
  failure leaves is whatever the environment says.
\<close>

datatype write_outcome = NOT_OPENED | WRITE_FAILED file_state | CLOSE_FAILED file_state | WRITTEN

subsection \<open>Saving\<close>

definition write_stale :: "observation \<times> string \<Rightarrow> writer \<Rightarrow> writer" where
  "write_stale e = wseq [write_entry (fst e), write_str (snd e)]"

definition write_digests :: "archive \<Rightarrow> writer \<Rightarrow> writer" where
  "write_digests a = wseq (map write_u8
     (ar_evidence_digest a @ ar_trace_digest a @ ar_explanation_digest a @ ar_aggregate_digest a))"

definition archive_body :: "archive \<Rightarrow> writer" where
  "archive_body a =
     (case write_digests a (Ok []) of Err e \<Rightarrow> Err e
      | Ok digests \<Rightarrow>
          wseq [write_u32 kArchiveMagic, write_u16 kArchiveVersion, write_u8 0,
            write_u64 (ar_epoch a), write_u64 (ar_created_ns a),
            write_count (length (ar_registry a)), wseq (map write_authority (ar_registry a)),
            write_count (length (ar_accepted a)), wseq (map write_entry (ar_accepted a)),
            write_count (length (ar_stale a)), wseq (map write_stale (ar_stale a)),
            write_bytes digests] (Ok []))"

definition archive_file :: "bytes \<Rightarrow> writer" where
  "archive_file body =
     wseq [write_u32 (of_nat (length body)), wseq (map write_u8 body), wseq (map write_u8 (sha256 body))] (Ok [])"

definition save_archive :: "(string \<Rightarrow> write_outcome) \<Rightarrow> disk \<Rightarrow> coordinator \<Rightarrow> string \<Rightarrow>
    archive result result \<times> disk" where
  "save_archive st d c path =
     (case build_archive c of
        Err e \<Rightarrow> (Err e, d)
      | Ok a \<Rightarrow>
          (case archive_body a of
             Err e \<Rightarrow> (Err e, d)
           | Ok body \<Rightarrow>
               (case archive_file body of
                  Err e \<Rightarrow> (Err e, d)
                | Ok data \<Rightarrow>
                    (case st path of
                       NOT_OPENED \<Rightarrow> (Ok (Err (''cannot open for write: '' @ path)), d)
                     | WRITE_FAILED f \<Rightarrow> (Ok (Err (''write failed: '' @ path)), d(path := f))
                     | CLOSE_FAILED f \<Rightarrow> (Ok (Ok a), d(path := f))
                     | WRITTEN \<Rightarrow> (Ok (Ok a), d(path := File data))))))"

subsection \<open>Loading\<close>

text \<open>A step that may return an error early, and the steps that cannot.\<close>

definition rbind :: "'a result rd \<Rightarrow> ('a \<Rightarrow> 'b result rd) \<Rightarrow> 'b result rd" where
  "rbind m f = do { x \<leftarrow> m; (case x of Err e \<Rightarrow> State_Monad.return (Err e) | Ok v \<Rightarrow> f v) }"

definition rlift :: "'a rd \<Rightarrow> 'a result rd" where
  "rlift m = do { x \<leftarrow> m; State_Monad.return (Ok x) }"

definition require :: "bool \<Rightarrow> string \<Rightarrow> unit result rd" where
  "require c msg = State_Monad.return (if c then Ok () else Err msg)"

definition read_obs_entry :: "observation result rd" where
  "read_obs_entry = do {
     b \<leftarrow> r_bytes;
     good \<leftarrow> r_ok;
     if \<not> good then do { e \<leftarrow> r_error; State_Monad.return (Err (''truncated observation entry: '' @ e)) }
     else State_Monad.return (read_observation_payload b) }"

text \<open>
  The three loops \<^verbatim>\<open>for (i < n)\<close> push what one entry reads; an entry may depend on the entries
  before it (the set \<^verbatim>\<open>seen\<close> holds the ids of the observations accepted so far).
\<close>

fun read_loop :: "('a list \<Rightarrow> 'a result rd) \<Rightarrow> nat \<Rightarrow> 'a list \<Rightarrow> 'a list result rd" where
  "read_loop rd 0 acc = State_Monad.return (Ok acc)"
| "read_loop rd (Suc n) acc = rbind (rd acc) (\<lambda>x. read_loop rd n (acc @ [x]))"

definition registry_entry :: "source_authority list \<Rightarrow> source_authority result rd" where
  "registry_entry acc = do {
     auth \<leftarrow> read_authority;
     State_Monad.return (case auth of Err e \<Rightarrow> Err (''bad authority in archive: '' @ e) | Ok a \<Rightarrow> Ok a) }"

definition accepted_entry :: "observation list \<Rightarrow> observation result rd" where
  "accepted_entry acc = rbind read_obs_entry (\<lambda>ob.
     rbind (require (o_id ob \<notin> o_id ` set acc) ''duplicate observation id in archive'') (\<lambda>_.
       State_Monad.return (Ok ob)))"

definition stale_entry :: "(observation \<times> string) list \<Rightarrow> (observation \<times> string) result rd" where
  "stale_entry acc = rbind read_obs_entry (\<lambda>ob.
     rbind (rlift r_str) (\<lambda>reason. rbind (rlift r_ok) (\<lambda>good.
       rbind (require good ''truncated stale reason'') (\<lambda>_. State_Monad.return (Ok (ob, reason))))))"

text \<open>A count, its limit, and the loop.\<close>

definition read_counted :: "u64 \<Rightarrow> string \<Rightarrow> ('a list \<Rightarrow> 'a result rd) \<Rightarrow> 'a list result rd" where
  "read_counted limit msg entry = rbind (rlift r_count) (\<lambda>n.
     rbind (require (n \<le> limit) msg) (\<lambda>_. read_loop entry (unat n) []))"

definition read_body :: "(archive \<times> bytes) result rd" where
  "read_body =
     rbind (rlift r_u32) (\<lambda>magic. rbind (require (magic = kArchiveMagic) ''bad archive magic'') (\<lambda>_.
     rbind (rlift r_u16) (\<lambda>ver.
     rbind (require (ver = kArchiveVersion) (''unsupported archive version '' @ to_string_word ver)) (\<lambda>_.
     rbind (rlift r_u8) (\<lambda>_. rbind (rlift r_u64) (\<lambda>epoch. rbind (rlift r_u64) (\<lambda>created.
     rbind (read_counted 1000000 ''registry count overflow'' registry_entry) (\<lambda>registry.
     rbind (read_counted 1000000000 ''observation count overflow'' accepted_entry) (\<lambda>accepted.
     rbind (read_counted 100000000 ''stale count overflow'' stale_entry) (\<lambda>stale.
     rbind (rlift r_bytes) (\<lambda>digests. State_Monad.return (Ok
       (empty_archive\<lparr>ar_epoch := epoch, ar_created_ns := created, ar_registry := registry,
          ar_accepted := accepted, ar_stale := stale\<rparr>, digests)))))))))))))"

definition copy32 :: "bytes \<Rightarrow> nat \<Rightarrow> bytes" where
  "copy32 src off = map (\<lambda>i. src ! (off + i)) [0..<32]"

definition with_digests :: "bytes \<Rightarrow> archive \<Rightarrow> archive" where
  "with_digests b a = a\<lparr>ar_evidence_digest := copy32 b 0, ar_trace_digest := copy32 b 32,
     ar_explanation_digest := copy32 b 64, ar_aggregate_digest := copy32 b 96\<rparr>"

definition digests_match :: "replay_result \<Rightarrow> archive \<Rightarrow> bool" where
  "digests_match rp a \<longleftrightarrow>
     rp_evidence_digest rp = ar_evidence_digest a \<and> rp_trace_digest rp = ar_trace_digest a \<and>
     rp_explanation_digest rp = ar_explanation_digest a \<and> rp_aggregate_digest rp = ar_aggregate_digest a"

definition verify_archive :: "archive \<Rightarrow> archive result result" where
  "verify_archive a =
     (case replay (ar_accepted a) of
        Err e \<Rightarrow> Err e
      | Ok rp \<Rightarrow>
          if \<not> digests_match rp a then Ok (Err ''replay digests do not match stored digests'')
          else Ok (Ok (a\<lparr>ar_verified_replay := rp, ar_replay_match := True\<rparr>)))"

definition load_body :: "bytes \<Rightarrow> bool \<Rightarrow> archive result result" where
  "load_body bodyb verify =
     (case run_state read_body (mk_reader bodyb) of
        (Err e, r) \<Rightarrow> Ok (Err e)
      | (Ok (a, digests), r) \<Rightarrow>
          if \<not> fst (run_state r_require_end r) then Ok (Err ''trailing garbage in archive body'')
          else if length digests \<noteq> 128 then Ok (Err ''bad stored digest block'')
          else if verify then verify_archive (with_digests digests a)
          else Ok (Ok (with_digests digests a)))"

definition digest_from_bytes :: "bytes \<Rightarrow> bytes" where
  "digest_from_bytes b = map (\<lambda>i. if i < length b then b ! i else 0) [0..<32]"

definition load_archive :: "disk \<Rightarrow> string \<Rightarrow> bool \<Rightarrow> archive result result" where
  "load_archive d path verify =
     (case file_read_all d path of
        Err e \<Rightarrow> Ok (Err e)
      | Ok data \<Rightarrow>
          (let (body_len, r1) = run_state r_u32 (mk_reader data);
               (bodyb, r2) = run_state (r_raw body_len) r1;
               (stored, r3) = run_state (r_raw 32) r2
           in if rd_failed r1 then Ok (Err ''truncated archive header'')
              else if length data \<noteq> 4 + unat body_len + 32
              then Ok (Err (''archive size mismatch: '' @ dec_string (length data) @ '' != expected '' @
                            to_string_word (4 + body_len + 32)))
              else if length bodyb \<noteq> unat body_len then Ok (Err ''truncated archive body'')
              else if length stored \<noteq> 32 then Ok (Err ''truncated archive digest'')
              else if \<not> fst (run_state r_require_end r3) then Ok (Err ''trailing garbage after archive'')
              else if sha256 bodyb \<noteq> digest_from_bytes stored then Ok (Err ''archive checksum mismatch'')
              else load_body bodyb verify))"

subsection \<open>The codec of an archive\<close>

lemma inert_rbind [inert_intros]: "inert m \<Longrightarrow> (\<And>x. inert (f x)) \<Longrightarrow> inert (rbind m f)"
  unfolding rbind_def by (intro inert_intros)

lemma inert_rlift [inert_intros]: "inert m \<Longrightarrow> inert (rlift m)"
  unfolding rlift_def by (intro inert_intros)

lemma inert_require [inert_intros]: "inert (require c msg)"
  unfolding require_def by (intro inert_intros)

lemma inert_obs_entry [inert_intros]: "inert read_obs_entry"
  unfolding read_obs_entry_def by (intro inert_intros)

lemma inert_loop: "(\<And>acc. inert (rd acc)) \<Longrightarrow> inert (read_loop rd n acc)"
  by (induction n arbitrary: acc) (auto intro: inert_intros)

lemma inert_entries [inert_intros]:
  "inert (registry_entry rs)" "inert (accepted_entry obs)" "inert (stale_entry es)"
  unfolding registry_entry_def accepted_entry_def stale_entry_def by (intro inert_intros)+

lemma inert_counted [inert_intros]: "(\<And>acc. inert (rd acc)) \<Longrightarrow> inert (read_counted limit msg rd)"
  unfolding read_counted_def by (intro inert_intros inert_loop)

lemma codes_rbind:
  assumes "codes m (Ok v) bs" and "codes (f v) w cs" and "\<And>x. inert (f x)"
  shows "codes (rbind m f) w (bs @ cs)"
  unfolding rbind_def using assms
  by (intro codes_bind [where v = "Ok v"]) (auto intro: inert_intros)

lemma codes_rlift: "codes m v bs \<Longrightarrow> codes (rlift m) (Ok v) bs"
  using codes_bind [of m v bs "\<lambda>x. State_Monad.return (Ok x)" "Ok v" "[]"]
  by (simp add: rlift_def codes_return inert_return)

lemma codes_require: "c \<Longrightarrow> codes (require c msg) (Ok ()) []"
  by (simp add: require_def codes_return)

lemma codes_loop:
  assumes "\<And>ys x zs. xs = ys @ x # zs \<Longrightarrow> codes (rd (acc @ ys)) (Ok x) (f x)"
    and "\<And>acc. inert (rd acc)"
  shows "codes (read_loop rd (length xs) acc) (Ok (acc @ xs)) (concat (map f xs))"
  using assms(1)
proof (induction xs arbitrary: acc)
  case (Cons x xs)
  have "codes (read_loop rd (length xs) (acc @ [x])) (Ok ((acc @ [x]) @ xs)) (concat (map f xs))"
    using Cons.prems [of "x # ys" for ys] by (intro Cons.IH) simp
  moreover have "codes (rd acc) (Ok x) (f x)"
    using Cons.prems [of "[]" x xs] by simp
  ultimately show ?case
    using codes_rbind [where f = "\<lambda>x. read_loop rd (length xs) (acc @ [x])"]
    by (simp add: inert_loop assms(2))
qed (simp add: codes_return)

lemma emits_each:
  assumes "\<And>x. x \<in> set xs \<Longrightarrow> emits (wr x) (f x)"
  shows "emits (wseq (map wr xs)) (concat (map f xs))"
  using assms by (induction xs) (simp_all add: codec_intros)

text \<open>An observation whose payload is a length-prefixed entry.\<close>

definition entry_bytes :: "observation \<Rightarrow> bytes" where
  "entry_bytes ob =
     (case encode_observation_payload ob of Err e \<Rightarrow> []
      | Ok p \<Rightarrow> be_bytes 4 (of_nat (length p) :: u32) @ p)"

definition entry_fits :: "observation \<Rightarrow> bool" where
  "entry_fits ob \<longleftrightarrow> obs_ok ob \<and>
     (case encode_observation_payload ob of Err e \<Rightarrow> False | Ok p \<Rightarrow> fits32 (length p))"

lemma emits_entry: "entry_fits ob \<Longrightarrow> emits (write_entry ob) (entry_bytes ob)"
  using emits_bytes by (auto simp: entry_fits_def entry_bytes_def write_entry_def emits_def split: sum.splits)

lemma codes_entry:
  assumes "entry_fits ob"
  shows "codes read_obs_entry (Ok ob) (entry_bytes ob)"
proof -
  obtain p where p: "encode_observation_payload ob = Ok p" "fits32 (length p)" "obs_ok ob"
    using assms by (auto simp: entry_fits_def split: sum.splits)
  have dec: "read_observation_payload p = Ok ob"
    using p by (intro obs_payload.decode_encode)
  have "codes read_obs_entry (Ok ob) ((be_bytes 4 (of_nat (length p) :: u32) @ p) @ [] @ [])"
    unfolding read_obs_entry_def
    by (rule codes_bind [OF codes_bytes [OF p(2)]], rule codes_bind [OF codes_ok],
        simp only: not_True_eq_False if_False dec, rule codes_return)
       (intro inert_intros)+
  then show ?thesis by (simp add: entry_bytes_def p)
qed

interpretation entry: codec write_entry read_obs_entry Ok entry_fits
  by unfold_locales (use emits_entry codes_entry in \<open>auto intro: inert_intros\<close>)

definition stale_bytes :: "observation \<times> string \<Rightarrow> bytes" where
  "stale_bytes e = entry_bytes (fst e) @ (be_bytes 4 (of_nat (length (snd e)) :: u32) @ str_bytes (snd e)) @ []"

definition stale_ok :: "observation \<times> string \<Rightarrow> bool" where
  "stale_ok e \<longleftrightarrow> entry_fits (fst e) \<and> fits32 (length (snd e))"

lemma emits_stale: "stale_ok e \<Longrightarrow> emits (write_stale e) (stale_bytes e)"
  unfolding write_stale_def stale_bytes_def stale_ok_def by (intro codec_intros emits_entry) auto

lemma codes_stale:
  assumes "stale_ok e"
  shows "codes (stale_entry acc) (Ok e) (stale_bytes e)"
proof -
  have "codes (stale_entry acc) (Ok e)
    (entry_bytes (fst e) @ (be_bytes 4 (of_nat (length (snd e)) :: u32) @ str_bytes (snd e)) @ [] @ [] @ [])"
    unfolding stale_entry_def using assms
    by (intro codes_rbind [OF codes_entry] codes_rbind [OF codes_rlift [OF codes_str]]
          codes_rbind [OF codes_rlift [OF codes_ok]] codes_rbind [OF codes_require] codes_return_eq inert_intros)
       (simp_all add: stale_ok_def)
  then show ?thesis by (simp add: stale_bytes_def)
qed

lemma codes_accepted:
  assumes "entry_fits ob" and "o_id ob \<notin> o_id ` set acc"
  shows "codes (accepted_entry acc) (Ok ob) (entry_bytes ob)"
proof -
  have "codes (accepted_entry acc) (Ok ob) (entry_bytes ob @ [] @ [])"
    unfolding accepted_entry_def
    by (intro codes_rbind [OF codes_entry [OF assms(1)]] codes_rbind [OF codes_require [OF assms(2)]]
          codes_return inert_intros)
  then show ?thesis by simp
qed

lemma codes_registry:
  assumes "authority_ok a"
  shows "codes (registry_entry acc) (Ok a) (authority_bytes a)"
  using codes_bind [OF codes_authority [OF assms], of _ "Ok a" "[]"] unfolding registry_entry_def
  by (simp add: codes_return inert_return)

lemma codes_counted:
  assumes "length xs \<le> unat limit" and "fits32 (length xs)"
    and "\<And>ys x zs. xs = ys @ x # zs \<Longrightarrow> codes (rd ys) (Ok x) (f x)"
    and "\<And>acc. inert (rd acc)"
  shows "codes (read_counted limit msg rd) (Ok xs) (be_bytes 4 (of_nat (length xs) :: u32) @ concat (map f xs))"
proof -
  have n: "unat (of_nat (length xs) :: u64) = length xs"
    using assms(2) by (simp add: unat_of_nat fits32_def take_bit_nat_eq_self)
  have le: "(of_nat (length xs) :: u64) \<le> limit"
    using assms(1) n by (simp add: word_le_nat_alt)
  have "codes (read_loop rd (unat (of_nat (length xs) :: u64)) []) (Ok ([] @ xs)) (concat (map f xs))"
    unfolding n by (rule codes_loop) (simp_all add: assms(3,4))
  then have "codes (read_counted limit msg rd) (Ok xs)
      (be_bytes 4 (of_nat (length xs) :: u32) @ [] @ concat (map f xs))"
    unfolding read_counted_def
    by (intro codes_rbind [OF codes_rlift [OF codes_count [OF assms(2)]]] codes_rbind [OF codes_require [OF le]])
       (auto intro: inert_intros inert_loop assms(4))
  then show ?thesis by simp
qed

text \<open>The digest block, and the whole body.\<close>

definition digest_block :: "archive \<Rightarrow> bytes" where
  "digest_block a = ar_evidence_digest a @ ar_trace_digest a @ ar_explanation_digest a @ ar_aggregate_digest a"

definition archive_bytes :: "archive \<Rightarrow> bytes" where
  "archive_bytes a =
     be_bytes 4 kArchiveMagic @ be_bytes 2 kArchiveVersion @ [0] @
     be_bytes 8 (ar_epoch a) @ be_bytes 8 (ar_created_ns a) @
     be_bytes 4 (of_nat (length (ar_registry a)) :: u32) @ concat (map authority_bytes (ar_registry a)) @
     be_bytes 4 (of_nat (length (ar_accepted a)) :: u32) @ concat (map entry_bytes (ar_accepted a)) @
     be_bytes 4 (of_nat (length (ar_stale a)) :: u32) @ concat (map stale_bytes (ar_stale a)) @
     (be_bytes 4 (of_nat (length (digest_block a)) :: u32) @ digest_block a) @ []"

text \<open>An archive the format can carry: well-formed entries, distinct ids, counts within the
  limits of the loader, 32-byte digests and a body whose length fits its 32-bit field.\<close>

definition archive_ok :: "archive \<Rightarrow> bool" where
  "archive_ok a \<longleftrightarrow>
     list_all authority_ok (ar_registry a) \<and> length (ar_registry a) \<le> 1000000 \<and>
     list_all entry_fits (ar_accepted a) \<and> length (ar_accepted a) \<le> 1000000000 \<and>
     distinct (map o_id (ar_accepted a)) \<and>
     list_all stale_ok (ar_stale a) \<and> length (ar_stale a) \<le> 100000000 \<and>
     length (ar_evidence_digest a) = 32 \<and> length (ar_trace_digest a) = 32 \<and>
     length (ar_explanation_digest a) = 32 \<and> length (ar_aggregate_digest a) = 32 \<and>
     fits32 (length (archive_bytes a))"

lemma length_digest_block: "archive_ok a \<Longrightarrow> length (digest_block a) = 128"
  by (simp add: archive_ok_def digest_block_def)

lemma emits_u8s: "emits (wseq (map write_u8 bs)) bs"
  using emits_each [of bs write_u8 "\<lambda>b. [b]"] by (simp add: emits_u8)

lemma archive_body_bytes:
  assumes "archive_ok a"
  shows "archive_body a = Ok (archive_bytes a)"
proof -
  have d: "write_digests a (Ok []) = Ok (digest_block a)"
    using emits_run [OF emits_u8s [of "digest_block a"], of "[]"]
    by (simp only: write_digests_def digest_block_def append_Nil)
  have dlen: "fits32 (length (digest_block a))"
    using length_digest_block [OF assms] by (simp add: fits32_def)
  have lens: "fits32 (length (ar_registry a))" "fits32 (length (ar_accepted a))" "fits32 (length (ar_stale a))"
    using assms by (simp_all add: archive_ok_def fits32_def)
  have "emits (wseq [write_u32 kArchiveMagic, write_u16 kArchiveVersion, write_u8 0,
            write_u64 (ar_epoch a), write_u64 (ar_created_ns a),
            write_count (length (ar_registry a)), wseq (map write_authority (ar_registry a)),
            write_count (length (ar_accepted a)), wseq (map write_entry (ar_accepted a)),
            write_count (length (ar_stale a)), wseq (map write_stale (ar_stale a)),
            write_bytes (digest_block a)]) (archive_bytes a)"
    unfolding archive_bytes_def
    by (intro codec_intros emits_each emits_authority emits_entry emits_stale lens dlen)
       (use assms in \<open>auto simp: archive_ok_def list_all_iff\<close>)
  then show ?thesis
    using emits_run [of _ _ "[]"] by (simp add: archive_body_def d)
qed

lemma codes_body:
  assumes "archive_ok a"
  shows "codes read_body (Ok (empty_archive\<lparr>ar_epoch := ar_epoch a, ar_created_ns := ar_created_ns a,
      ar_registry := ar_registry a, ar_accepted := ar_accepted a, ar_stale := ar_stale a\<rparr>, digest_block a))
    (archive_bytes a)"
proof -
  have reg: "codes (read_counted 1000000 msg registry_entry) (Ok (ar_registry a))
      (be_bytes 4 (of_nat (length (ar_registry a)) :: u32) @ concat (map authority_bytes (ar_registry a)))" for msg
    using assms by (intro codes_counted codes_registry inert_intros)
      (auto simp: archive_ok_def fits32_def)
  have acc: "codes (read_counted 1000000000 msg accepted_entry) (Ok (ar_accepted a))
      (be_bytes 4 (of_nat (length (ar_accepted a)) :: u32) @ concat (map entry_bytes (ar_accepted a)))" for msg
    using assms by (intro codes_counted codes_accepted inert_intros)
      (auto simp: archive_ok_def fits32_def)
  have stale: "codes (read_counted 100000000 msg stale_entry) (Ok (ar_stale a))
      (be_bytes 4 (of_nat (length (ar_stale a)) :: u32) @ concat (map stale_bytes (ar_stale a)))" for msg
    using assms by (intro codes_counted codes_stale inert_intros)
      (auto simp: archive_ok_def fits32_def)
  have dg: "codes (rlift r_bytes) (Ok (digest_block a))
      (be_bytes 4 (of_nat (length (digest_block a)) :: u32) @ digest_block a)"
    using length_digest_block [OF assms] by (intro codes_rlift codes_bytes) (simp add: fits32_def)
  have "codes read_body (Ok (empty_archive\<lparr>ar_epoch := ar_epoch a, ar_created_ns := ar_created_ns a,
      ar_registry := ar_registry a, ar_accepted := ar_accepted a, ar_stale := ar_stale a\<rparr>, digest_block a))
    (be_bytes 4 kArchiveMagic @ [] @ be_bytes 2 kArchiveVersion @ [] @ [0] @
     be_bytes 8 (ar_epoch a) @ be_bytes 8 (ar_created_ns a) @
     (be_bytes 4 (of_nat (length (ar_registry a)) :: u32) @ concat (map authority_bytes (ar_registry a))) @
     (be_bytes 4 (of_nat (length (ar_accepted a)) :: u32) @ concat (map entry_bytes (ar_accepted a))) @
     (be_bytes 4 (of_nat (length (ar_stale a)) :: u32) @ concat (map stale_bytes (ar_stale a))) @
     (be_bytes 4 (of_nat (length (digest_block a)) :: u32) @ digest_block a) @ [])"
    unfolding read_body_def
    by (intro codes_rbind [OF codes_rlift [OF codes_words(2)]] codes_rbind [OF codes_require]
          codes_rbind [OF codes_rlift [OF codes_words(1)]] codes_rbind [OF codes_rlift [OF codes_u8]]
          codes_rbind [OF codes_rlift [OF codes_words(3)]] codes_rbind [OF reg] codes_rbind [OF acc]
          codes_rbind [OF stale] codes_rbind [OF dg] codes_return inert_intros refl)
  then show ?thesis by (simp add: archive_bytes_def)
qed

subsection \<open>The frame of a file\<close>

definition archive_frame :: "bytes \<Rightarrow> bytes" where
  "archive_frame body = be_bytes 4 (of_nat (length body) :: u32) @ body @ sha256 body"

lemma archive_file_frame: "archive_file body = Ok (archive_frame body)"
proof -
  have "emits (wseq [write_u32 (of_nat (length body)), wseq (map write_u8 body), wseq (map write_u8 (sha256 body))])
      (be_bytes 4 (of_nat (length body) :: u32) @ body @ sha256 body @ [])"
    by (intro codec_intros emits_u8s)
  then show ?thesis using emits_run [of _ _ "[]"] by (simp add: archive_file_def archive_frame_def)
qed

lemma run_raw:
  "unat n \<le> length b \<Longrightarrow> run_state (r_raw n) (mk_reader b) = (take (unat n) b, mk_reader (drop (unat n) b))"
  by (simp add: r_raw_def mk_reader_def)

lemma digest_from_bytes_id: "length b = 32 \<Longrightarrow> digest_from_bytes b = b"
  by (rule nth_equalityI) (simp_all add: digest_from_bytes_def)

lemma run_word4:
  "4 \<le> length bs \<Longrightarrow> run_state r_u32 (mk_reader bs) = (be_fold 0 (take 4 bs), mk_reader (drop 4 bs))"
  unfolding r_u32_def by (rule run_be) simp

lemma require_end_mk: "fst (run_state r_require_end (mk_reader bs)) \<longleftrightarrow> bs = []"
  by (simp add: r_require_end_def mk_reader_def)

text \<open>Loading a file of the declared size, and the only files that load at all.\<close>

lemma load_sized:
  assumes "d path = File data" and "length data = 4 + unat (n :: u32) + 32" and "n = be_fold 0 (take 4 data)"
  shows "load_archive d path v =
    (let body = take (unat n) (drop 4 data)
     in if sha256 body \<noteq> drop (4 + unat n) data then Ok (Err ''archive checksum mismatch'')
        else load_body body v)"
proof -
  have "4 \<le> length data" using assms(2) by linarith
  then have w: "run_state r_u32 (mk_reader data) = (n, mk_reader (drop 4 data))"
    unfolding assms(3) by (rule run_word4)
  have b: "run_state (r_raw n) (mk_reader (drop 4 data)) =
      (take (unat n) (drop 4 data), mk_reader (drop (4 + unat n) data))"
    using run_raw [of n "drop 4 data"] assms(2) by (simp add: add.commute)
  have s: "run_state (r_raw 32) (mk_reader (drop (4 + unat n) data)) = (drop (4 + unat n) data, mk_reader [])"
    using run_raw [of 32 "drop (4 + unat n) data"] assms(2) by simp
  have ok: "\<not> rd_failed (mk_reader (drop 4 data))" by (simp add: mk_reader_def)
  show ?thesis
    using assms(2)
    by (simp add: load_archive_def file_read_all_def assms(1) w b s ok require_end_mk digest_from_bytes_id Let_def)
qed

lemma load_frame:
  assumes "d path = File (archive_frame body)" and "fits32 (length body)"
  shows "load_archive d path v = load_body body v"
proof -
  let ?n = "of_nat (length body) :: u32"
  have head: "take 4 (archive_frame body) = be_bytes 4 ?n" and tail: "drop 4 (archive_frame body) = body @ sha256 body"
    by (simp_all add: archive_frame_def)
  have n: "unat ?n = length body" using assms(2) by simp
  have word: "be_fold 0 (be_bytes 4 ?n) = ?n" by (rule be_fold_word) simp
  have "drop (length body) (drop 4 (archive_frame body)) = sha256 body" unfolding tail by simp
  then have sum: "drop (4 + length body) (archive_frame body) = sha256 body"
    by (simp add: add.commute)
  have size: "length (archive_frame body) = 4 + unat ?n + 32"
    unfolding n by (simp add: archive_frame_def length_sha256)
  have "?n = be_fold 0 (take 4 (archive_frame body))" unfolding head word ..
  from load_sized [where d = d and path = path and v = v, OF assms(1) size this]
  show ?thesis unfolding n sum tail by (simp add: Let_def)
qed

lemma load_short:
  assumes "d path = File data" and "length data < 4"
  shows "load_archive d path v = Ok (Err ''truncated archive header'')"
proof -
  have "rd_failed (snd (run_state r_u32 (mk_reader data)))"
    unfolding r_u32_def using assms(2) by (rule run_be_short)
  then show ?thesis
    by (simp add: load_archive_def file_read_all_def assms(1) Let_def case_prod_beta)
qed

lemma load_frame_only:
  assumes "d path = File data" and "load_archive d path v = Ok (Ok a)"
  shows "\<exists>body. data = archive_frame body \<and> fits32 (length body) \<and> load_body body v = Ok (Ok a)"
proof -
  have four: "4 \<le> length data"
    using load_short [where d = d and path = path, OF assms(1)] assms(2) by (cases "length data < 4") auto
  define n where "n = (be_fold 0 (take 4 data) :: u32)"
  have w: "run_state r_u32 (mk_reader data) = (n, mk_reader (drop 4 data))"
    unfolding n_def by (rule run_word4 [OF four])
  have size: "length data = 4 + unat n + 32"
  proof (rule ccontr)
    assume ne: "length data \<noteq> 4 + unat n + 32"
    have "\<not> rd_failed (mk_reader (drop 4 data))" by (simp add: mk_reader_def)
    then have "\<exists>e. load_archive d path v = Ok (Err e)"
      using ne by (simp add: load_archive_def file_read_all_def assms(1) w Let_def case_prod_beta)
    then show False using assms(2) by auto
  qed
  define body where "body = take (unat n) (drop 4 data)"
  have len: "length body = unat n" using size by (simp add: body_def)
  have "sha256 body = drop (4 + unat n) data" and load: "load_body body v = Ok (Ok a)"
    using load_sized [where d = d and path = path and v = v, OF assms(1) size n_def] assms(2)
    by (simp_all add: body_def Let_def split: if_splits)
  then have "data = take 4 data @ body @ sha256 body"
    by (metis append_take_drop_id body_def drop_drop add.commute)
  moreover have "be_bytes 4 n = take 4 data"
    using be_bytes_be_fold [of "take 4 data" "0 :: u32"] four by (simp add: n_def)
  moreover have "(of_nat (unat n) :: u32) = n" by simp
  ultimately have "data = archive_frame body"
    by (simp only: archive_frame_def len)
  then show ?thesis using load unat_u32_fits [of n] len by auto
qed

subsection \<open>What a loaded archive is\<close>

lemma rbind_ok:
  "fst (run_state (rbind m f) r) = Ok w \<longleftrightarrow>
     (\<exists>v. fst (run_state m r) = Ok v \<and> fst (run_state (f v) (snd (run_state m r))) = Ok w)"
  by (auto simp: rbind_def case_prod_beta split: sum.splits)

lemma require_ok: "fst (run_state (require c msg) r) = Ok u \<longleftrightarrow> c"
  by (simp add: require_def)

lemma loop_inv:
  assumes "fst (run_state (read_loop rd n acc) r) = Ok xs" and "P acc"
    and "\<And>acc r x. P acc \<Longrightarrow> fst (run_state (rd acc) r) = Ok x \<Longrightarrow> P (acc @ [x])"
  shows "P xs"
  using assms(1,2)
proof (induction n arbitrary: acc r)
  case (Suc n)
  then show ?case using assms(3) by (auto simp: rbind_ok)
qed simp

lemma counted_inv:
  assumes "fst (run_state (read_counted limit msg rd) r) = Ok xs" and "P []"
    and "\<And>acc r x. P acc \<Longrightarrow> fst (run_state (rd acc) r) = Ok x \<Longrightarrow> P (acc @ [x])"
  shows "P xs"
proof -
  obtain n r' where "fst (run_state (read_loop rd n []) r') = Ok xs"
    using assms(1) by (auto simp: read_counted_def rbind_ok)
  then show ?thesis using loop_inv assms(2,3) by metis
qed

lemma obs_entry_ok: "fst (run_state read_obs_entry r) = Ok ob \<Longrightarrow> obs_ok ob"
  by (auto simp: read_obs_entry_def case_prod_beta r_ok_def r_error_def dest: decode_obs_ok split: if_splits)

lemma read_accepted_ok:
  assumes "fst (run_state (read_counted limit msg accepted_entry) r) = Ok obs"
  shows "distinct (map o_id obs) \<and> list_all obs_ok obs"
  by (rule counted_inv [OF assms])
     (auto simp: accepted_entry_def rbind_ok require_ok dest: obs_entry_ok)

lemma read_stale_ok:
  assumes "fst (run_state (read_counted limit msg stale_entry) r) = Ok es"
  shows "list_all (\<lambda>e. obs_ok (fst e)) es"
  by (rule counted_inv [OF assms])
     (auto simp: stale_entry_def rbind_ok require_ok dest: obs_entry_ok)

lemma read_body_ok:
  assumes "fst (run_state read_body r) = Ok (a, digests)"
  shows "distinct (map o_id (ar_accepted a)) \<and> list_all obs_ok (ar_accepted a) \<and>
    list_all (\<lambda>e. obs_ok (fst e)) (ar_stale a)"
  using assms by (auto simp: read_body_def rbind_ok dest: read_accepted_ok read_stale_ok)

lemma load_body_ok:
  assumes "load_body b v = Ok (Ok a)"
  shows "distinct (map o_id (ar_accepted a)) \<and> list_all obs_ok (ar_accepted a) \<and>
    list_all (\<lambda>e. obs_ok (fst e)) (ar_stale a)"
    and "v \<Longrightarrow> replay (ar_accepted a) = Ok (ar_verified_replay a) \<and>
      digests_match (ar_verified_replay a) a \<and> ar_replay_match a"
proof -
  obtain a0 dg where a0: "fst (run_state read_body (mk_reader b)) = Ok (a0, dg)"
      "(if v then verify_archive (with_digests dg a0) else Ok (Ok (with_digests dg a0))) = Ok (Ok a)"
    using assms by (auto simp: load_body_def split: prod.splits sum.splits if_splits)
  have "ar_accepted a = ar_accepted a0" "ar_stale a = ar_stale a0"
    using a0(2) by (auto simp: verify_archive_def with_digests_def split: sum.splits if_splits)
  then show "distinct (map o_id (ar_accepted a)) \<and> list_all obs_ok (ar_accepted a) \<and>
      list_all (\<lambda>e. obs_ok (fst e)) (ar_stale a)"
    using read_body_ok [OF a0(1)] by simp
  show "replay (ar_accepted a) = Ok (ar_verified_replay a) \<and>
      digests_match (ar_verified_replay a) a \<and> ar_replay_match a" if v
    using a0(2) that by (auto simp: verify_archive_def digests_match_def split: sum.splits if_splits)
qed

subsection \<open>What is saved is what is loaded\<close>

lemma copy32_block:
  assumes "length p = n" and "length q = 32"
  shows "copy32 (p @ q @ s) n = q"
  by (rule nth_equalityI) (use assms in \<open>simp_all add: copy32_def nth_append\<close>)

lemma with_digest_block:
  assumes "archive_ok a"
  shows "with_digests (digest_block a) b = b\<lparr>ar_evidence_digest := ar_evidence_digest a,
    ar_trace_digest := ar_trace_digest a, ar_explanation_digest := ar_explanation_digest a,
    ar_aggregate_digest := ar_aggregate_digest a\<rparr>"
proof -
  let ?e = "ar_evidence_digest a" and ?t = "ar_trace_digest a" and ?x = "ar_explanation_digest a"
    and ?g = "ar_aggregate_digest a"
  have l: "length ?e = 32" "length ?t = 32" "length ?x = 32" "length ?g = 32"
    using assms by (simp_all add: archive_ok_def)
  have "copy32 (digest_block a) 0 = ?e"
    using copy32_block [of "[]" 0 ?e "?t @ ?x @ ?g"] l by (simp add: digest_block_def)
  moreover have "copy32 (digest_block a) 32 = ?t"
    using copy32_block [of ?e 32 ?t "?x @ ?g"] l by (simp add: digest_block_def)
  moreover have "copy32 (digest_block a) 64 = ?x"
    using copy32_block [of "?e @ ?t" 64 ?x ?g] l by (simp add: digest_block_def)
  moreover have "copy32 (digest_block a) 96 = ?g"
    using copy32_block [of "?e @ ?t @ ?x" 96 ?g "[]"] l by (simp add: digest_block_def)
  ultimately show ?thesis by (simp add: with_digests_def)
qed

lemma load_body_bytes:
  assumes "archive_ok a"
  shows "load_body (archive_bytes a) v =
    (let a' = a\<lparr>ar_verified_replay := empty_replay, ar_replay_match := False\<rparr>
     in if v then verify_archive a' else Ok (Ok a'))"
proof -
  let ?b = "empty_archive\<lparr>ar_epoch := ar_epoch a, ar_created_ns := ar_created_ns a,
      ar_registry := ar_registry a, ar_accepted := ar_accepted a, ar_stale := ar_stale a\<rparr>"
  have "run_state read_body (mk_reader (archive_bytes a)) = (Ok (?b, digest_block a), mk_reader [])"
    by (rule codes_run_all [OF codes_body [OF assms]])
  moreover have "with_digests (digest_block a) ?b = a\<lparr>ar_verified_replay := empty_replay, ar_replay_match := False\<rparr>"
    by (simp add: with_digest_block [OF assms] empty_archive_def)
  ultimately show ?thesis
    by (simp add: load_body_def length_digest_block [OF assms] require_end_mk Let_def)
qed

lemma build_archive_replay:
  assumes "build_archive c = Ok a"
  shows "replay (ar_accepted a) = Ok (ar_verified_replay a)" "digests_match (ar_verified_replay a) a"
    "ar_replay_match a"
  using assms by (auto simp: build_archive_def digests_match_def split: sum.splits)

lemma verify_built:
  assumes "build_archive c = Ok a"
  shows "verify_archive (a\<lparr>ar_verified_replay := empty_replay, ar_replay_match := False\<rparr>) = Ok (Ok a)"
  using build_archive_replay [OF assms] by (simp add: verify_archive_def digests_match_def)

lemma save_archive_file:
  assumes "save_archive st d c path = (Ok (Ok a), d')" and "archive_ok a"
  shows "build_archive c = Ok a"
    and "st path = WRITTEN \<Longrightarrow> d' path = File (archive_frame (archive_bytes a))"
proof -
  obtain a' where a': "build_archive c = Ok a'"
    using assms(1) by (cases "build_archive c") (simp_all add: save_archive_def)
  then have "a' = a"
    using assms(1) by (auto simp: save_archive_def split: sum.splits write_outcome.splits)
  with a' show b: "build_archive c = Ok a" by simp
  show "d' path = File (archive_frame (archive_bytes a))" if "st path = WRITTEN"
    using assms(1) that by (auto simp: save_archive_def b archive_body_bytes [OF assms(2)] archive_file_frame)
qed

text \<open>A coordinator whose archive can be computed: one accepted and one stale observation.\<close>

definition sample_coordinator :: coordinator where
  "sample_coordinator = new_coordinator\<lparr>c_accepted := [(id_null, default_observation)],
     c_stale := [(default_observation, ''late'')]\<rparr>"

lemma default_entry_ok: "entry_fits default_observation" and length_default_entry: "length (entry_bytes default_observation) \<le> 100000000"
proof -
  obtain p where p: "obs_ok default_observation" "encode_observation_payload default_observation = Ok p"
      "length p \<le> max_frame_payload"
    using default_payload by blast
  then show "entry_fits default_observation" "length (entry_bytes default_observation) \<le> 100000000"
    by (simp_all add: entry_fits_def entry_bytes_def fits32_def max_frame_payload_def)
qed

lemma sample_archive:
  obtains a where "build_archive sample_coordinator = Ok a" and "archive_ok a"
    and "ar_accepted a = [default_observation]"
proof -
  have "o_request_id default_observation = id_null"
    by (simp add: o_request_id_def id_field_def default_observation_def)
  then have groups: "replay_traces [default_observation] = []"
    by (simp add: replay_traces_requests requests_of_def)
  have "\<exists>b. evidence_bytes [default_observation] = Ok b"
    using emits_run [OF emits_entry [OF default_entry_ok]] emits_run [OF emits_u64]
    by (simp add: evidence_bytes_def wseq_def)
  then obtain b where b: "evidence_digest_of [default_observation] = Ok (sha256 b)"
    by (auto simp: evidence_digest_of_def hash_writer_def)
  obtain a where a: "build_archive sample_coordinator = Ok a"
    by (simp add: build_archive_def sample_coordinator_def all_accepted_def replay_def b groups Let_def)
  moreover have fields: "ar_accepted a = [default_observation]" "ar_stale a = [(default_observation, ''late'')]"
      "ar_registry a = []" "length (digest_block a) = 128"
      "length (ar_evidence_digest a) = 32" "length (ar_trace_digest a) = 32"
      "length (ar_explanation_digest a) = 32" "length (ar_aggregate_digest a) = 32"
    using a by (auto simp: build_archive_def sample_coordinator_def all_accepted_def replay_def b groups Let_def
        registry_snapshot_def new_coordinator_def set_epoch_def length_sha256 digest_block_def)
  moreover from fields have "archive_ok a"
    using length_default_entry default_entry_ok
    by (simp add: archive_ok_def archive_bytes_def stale_ok_def stale_bytes_def fits32_def)
  ultimately show thesis using that by blast
qed

subsection \<open>Properties\<close>

lemma saved_loads:
  assumes "save_archive st d c path = (Ok (Ok a), d')" and "st path = WRITTEN" and "archive_ok a"
  shows "load_archive d' path True = Ok (Ok a)"
proof -
  have "load_archive d' path True = load_body (archive_bytes a) True"
    using save_archive_file(2) [OF assms(1,3,2)] assms(3) by (intro load_frame) (simp_all add: archive_ok_def)
  then show ?thesis
    using verify_built [OF save_archive_file(1) [OF assms(1,3)]]
    by (simp add: load_body_bytes [OF assms(3)] Let_def)
qed

text \<open>C4: An archive that \<^verbatim>\<open>save_archive\<close> wrote in full loads, with its replay verified, as exactly what was
  saved (epoch, registry, accepted and stale evidence, digests and replay), when it is an archive that the
  format represents: every accepted and stale observation well formed, which makes its floating-point
  fields finite, and every count and length within the loader's limits. Generations and timestamps
  are stored as they are: neither side checks them.\<close>

theorem archive_roundtrip:
  assumes "save_archive st d c path = (Ok (Ok a), d')" and "st path = WRITTEN" and "archive_ok a"
  shows "load_archive d' path True = Ok (Ok a)"
  using assms by (rule saved_loads)

theorem archive_roundtrip_witness:
  "\<exists>a d'. save_archive (\<lambda>_. WRITTEN) (\<lambda>_. No_file) sample_coordinator ''run.sobs'' = (Ok (Ok a), d') \<and>
     ar_accepted a = [default_observation] \<and> load_archive d' ''run.sobs'' True = Ok (Ok a)"
proof -
  obtain a where a: "build_archive sample_coordinator = Ok a" "archive_ok a" "ar_accepted a = [default_observation]"
    by (rule sample_archive)
  then have "\<exists>d'. save_archive (\<lambda>_. WRITTEN) (\<lambda>_. No_file) sample_coordinator ''run.sobs'' = (Ok (Ok a), d')"
    by (simp add: save_archive_def archive_body_bytes archive_file_frame)
  then obtain d' where "save_archive (\<lambda>_. WRITTEN) (\<lambda>_. No_file) sample_coordinator ''run.sobs'' = (Ok (Ok a), d')" ..
  with archive_roundtrip [OF this refl a(2)] a(3) show ?thesis by blast
qed

text \<open>C6: Whatever file loads with verification is a body behind its length and before its SHA-256,
  and what it gives is consistent: accepted observations well formed with distinct ids, stale
  ones well formed, and a replay of the accepted evidence that reproduces all four digests.\<close>

theorem load_sound:
  assumes "load_archive d path True = Ok (Ok a)"
  shows "(\<exists>body. d path = File (be_bytes 4 (of_nat (length body) :: u32) @ body @ sha256 body)) \<and>
    distinct (map o_id (ar_accepted a)) \<and> list_all obs_ok (ar_accepted a) \<and>
    list_all (\<lambda>e. obs_ok (fst e)) (ar_stale a) \<and>
    replay (ar_accepted a) = Ok (ar_verified_replay a) \<and> digests_match (ar_verified_replay a) a \<and>
    ar_replay_match a"
proof -
  obtain data where data: "d path = File data"
    using assms by (cases "d path") (simp_all add: load_archive_def file_read_all_def)
  obtain body where "data = archive_frame body" "load_body body True = Ok (Ok a)"
    using load_frame_only [OF data assms] by blast
  then show ?thesis
    using load_body_ok [of body True a] data by (auto simp: archive_frame_def)
qed

theorem load_sound_witness:
  "\<exists>a d'. load_archive d' ''run.sobs'' True = Ok (Ok a) \<and> replay (ar_accepted a) = Ok (ar_verified_replay a)"
proof -
  obtain a where a: "build_archive sample_coordinator = Ok a" "archive_ok a" "ar_accepted a = [default_observation]"
    by (rule sample_archive)
  have "load_archive (\<lambda>_. File (archive_frame (archive_bytes a))) ''run.sobs'' True = Ok (Ok a)"
    using a(2) verify_built [OF a(1)]
    by (simp add: load_frame archive_ok_def load_body_bytes [OF a(2)] Let_def)
  with load_sound [OF this] show ?thesis by blast
qed

lemma frame_head:
  assumes "prefix (archive_frame b) (archive_frame b')" and "fits32 (length b)" and "fits32 (length b')"
  shows "archive_frame b = archive_frame b'"
proof -
  have "take 4 (archive_frame b) = take 4 (archive_frame b')"
    using assms(1) by (auto simp: prefix_def archive_frame_def)
  then have "be_bytes 4 (of_nat (length b) :: u32) = be_bytes 4 (of_nat (length b') :: u32)"
    by (simp add: archive_frame_def)
  then have "(of_nat (length b) :: u32) = of_nat (length b')"
    by (rule be_bytes_inj [rotated]) simp
  then have "length b = length b'"
    using assms(2,3) by (metis unat_of_nat_fits)
  then have "length (archive_frame b) = length (archive_frame b')"
    by (simp add: archive_frame_def length_sha256)
  moreover obtain t where "archive_frame b' = archive_frame b @ t"
    using assms(1) by (auto simp: prefix_def)
  ultimately show ?thesis by simp
qed

text \<open>C27: A file that loads has no truncation and no extension that loads: of two files comparable
  by prefix that both load, verified or not, one is the other.\<close>

theorem archive_exact:
  assumes "load_archive d path v = Ok (Ok a)" and "load_archive d' path' v' = Ok (Ok a')"
    and "d path = File f" and "d' path' = File f'" and "prefix f f' \<or> prefix f' f"
  shows "f = f'"
proof -
  obtain b where b: "f = archive_frame b" "fits32 (length b)"
    using load_frame_only [OF assms(3,1)] by blast
  obtain b' where b': "f' = archive_frame b'" "fits32 (length b')"
    using load_frame_only [OF assms(4,2)] by blast
  show ?thesis using assms(5) frame_head b b' by metis
qed

theorem archive_exact_witness:
  "\<exists>f a. load_archive (\<lambda>_. File f) ''a'' True = Ok (Ok a) \<and>
     (\<forall>t. t \<noteq> [] \<longrightarrow> (\<nexists>a'. load_archive (\<lambda>_. File (f @ t)) ''a'' False = Ok (Ok a')))"
proof -
  obtain a where a: "build_archive sample_coordinator = Ok a" "archive_ok a" "ar_accepted a = [default_observation]"
    by (rule sample_archive)
  let ?f = "archive_frame (archive_bytes a)"
  have load: "load_archive (\<lambda>_. File ?f) ''a'' True = Ok (Ok a)"
    using a(2) verify_built [OF a(1)]
    by (simp add: load_frame archive_ok_def load_body_bytes [OF a(2)] Let_def)
  moreover have "\<nexists>a'. load_archive (\<lambda>_. File (?f @ t)) ''a'' False = Ok (Ok a')" if "t \<noteq> []" for t
    using archive_exact [OF load, of "\<lambda>_. File (?f @ t)" "''a''" False _ ?f "?f @ t"] that by auto
  ultimately show ?thesis by blast
qed

text \<open>\<^verbatim>\<open>save_archive\<close> checks its stream before it is closed, so a write that only fails when the
  buffer is flushed is reported as saved: the result is the archive, the file does not load.\<close>

theorem save_unflushed:
  assumes "build_archive c = Ok a" and "archive_ok a" and "st path = CLOSE_FAILED (File [])"
  shows "\<exists>d'. save_archive st d c path = (Ok (Ok a), d') \<and>
    load_archive d' path True = Ok (Err ''truncated archive header'')"
proof -
  have "save_archive st d c path = (Ok (Ok a), d(path := File []))"
    by (simp add: save_archive_def assms archive_body_bytes archive_file_frame)
  then show ?thesis using load_short [of "d(path := File [])" path "[]"] by simp
qed

theorem save_unflushed_witness:
  "\<exists>a d'. save_archive (\<lambda>_. CLOSE_FAILED (File [])) (\<lambda>_. No_file) sample_coordinator ''a'' = (Ok (Ok a), d') \<and>
    load_archive d' ''a'' True = Ok (Err ''truncated archive header'')"
proof -
  obtain a where a: "build_archive sample_coordinator = Ok a" "archive_ok a" "ar_accepted a = [default_observation]"
    by (rule sample_archive)
  from save_unflushed [OF a(1,2), of "\<lambda>_. CLOSE_FAILED (File [])" "''a''"] show ?thesis by blast
qed

subsection \<open>The evidence digest\<close>

lemma entries_unique:
  assumes "list_all entry_fits xs" and "list_all entry_fits ys" and "length xs = length ys"
    and "concat (map entry_bytes xs) = concat (map entry_bytes ys)"
  shows "xs = ys"
proof -
  have loop: "codes (read_loop (\<lambda>_. read_obs_entry) (length zs) []) (Ok ([] @ zs)) (concat (map entry_bytes zs))"
    if "list_all entry_fits zs" for zs
    using that by (intro codes_loop codes_entry inert_intros) auto
  show ?thesis
    using codes_run_all [OF loop [OF assms(1)]] codes_run_all [OF loop [OF assms(2)]]
    unfolding assms(3,4) by simp
qed

lemma evidence_bytes_eq:
  assumes "list_all entry_fits obs"
  shows "evidence_bytes obs =
    Ok (be_bytes 8 (of_nat (length obs) :: u64) @ concat (map entry_bytes (cpp_sort before_id obs)))"
proof -
  have "list_all entry_fits (cpp_sort before_id obs)"
    using assms by (simp add: list_all_iff)
  then have "emits (wseq [write_u64 (of_nat (length obs)), wseq (map write_entry (cpp_sort before_id obs))])
      (be_bytes 8 (of_nat (length obs) :: u64) @ concat (map entry_bytes (cpp_sort before_id obs)) @ [])"
    by (intro codec_intros emits_each emits_entry) (simp add: list_all_iff)
  then show ?thesis using emits_run [of _ _ "[]"] by (simp add: evidence_bytes_def)
qed

lemma evidence_bytes_inj:
  assumes "list_all entry_fits obs" and "list_all entry_fits obs'"
    and "length obs < 2 ^ 64" and "length obs' < 2 ^ 64"
    and "evidence_bytes obs = evidence_bytes obs'"
  shows "mset obs = mset obs'"
proof -
  have word_len: "unat (of_nat n :: u64) = n" if "n < 2 ^ 64" for n
    using that by (simp add: unat_of_nat take_bit_nat_eq_self)
  have eq: "be_bytes 8 (of_nat (length obs) :: u64) @ concat (map entry_bytes (cpp_sort before_id obs)) =
      be_bytes 8 (of_nat (length obs') :: u64) @ concat (map entry_bytes (cpp_sort before_id obs'))"
    using assms(5) by (simp only: evidence_bytes_eq [OF assms(1)] evidence_bytes_eq [OF assms(2)] sum.inject)
  then have "be_bytes 8 (of_nat (length obs) :: u64) = be_bytes 8 (of_nat (length obs') :: u64)" by simp
  then have "(of_nat (length obs) :: u64) = of_nat (length obs')"
    by (rule be_bytes_inj [rotated]) simp
  then have "length obs = length obs'"
    using word_len [OF assms(3)] word_len [OF assms(4)] by metis
  moreover have "concat (map entry_bytes (cpp_sort before_id obs)) = concat (map entry_bytes (cpp_sort before_id obs'))"
    using eq by simp
  ultimately have "cpp_sort before_id obs = cpp_sort before_id obs'"
    using assms(1,2) by (intro entries_unique) (simp_all add: list_all_iff)
  then show ?thesis by (metis mset_cpp_sort)
qed

lemma default_entry_like: "entry_fits (default_observation\<lparr>o_id := i, o_seq := q\<rparr>)"
proof -
  let ?ob = "default_observation\<lparr>o_id := i, o_seq := q\<rparr>"
  have ok: "obs_ok ?ob" by (simp add: obs_ok_def fields_ok_def default_observation_def fits32_def)
  have "emits (write_fields (o_fields ?ob)) []" by (simp add: default_observation_def emits_skip)
  from emits_run [OF emits_observation [OF ok this], of "[]"] ok show ?thesis
    by (simp add: encode_observation_payload_def header_bytes_def presence_bytes_def default_observation_def
          entry_fits_def fits32_def)
qed

text \<open>C31: The bytes hashed for the evidence digest determine the evidence and nothing else: for two lists of
  fewer than $2^{64}$ observations that the codec represents in fewer than $2^{32}$ bytes each, equal bytes
  mean the same observations, and where the ids differ the order of the list does not matter.\<close>

theorem evidence_bytes_determine:
  assumes "list_all entry_fits obs" and "list_all entry_fits obs'"
    and "length obs < 2 ^ 64" and "length obs' < 2 ^ 64"
  shows "(evidence_bytes obs = evidence_bytes obs' \<longrightarrow> mset obs = mset obs') \<and>
    (distinct (map o_id obs) \<longrightarrow> mset obs = mset obs' \<longrightarrow> evidence_bytes obs = evidence_bytes obs')"
proof (intro conjI impI)
  assume ids: "distinct (map o_id obs)" and eq: "mset obs = mset obs'"
  have "separates before_id (set obs)" using ids by (intro separates_ids) (simp add: distinct_map)
  then have "cpp_sort before_id obs = cpp_sort before_id obs'" using by_id.sort_permutation [OF eq] by simp
  then show "evidence_bytes obs = evidence_bytes obs'"
    using mset_eq_length [OF eq] by (simp only: evidence_bytes_eq [OF assms(1)] evidence_bytes_eq [OF assms(2)])
qed (rule evidence_bytes_inj [OF assms])

theorem evidence_bytes_determine_witness:
  "evidence_bytes [default_observation\<lparr>o_id := Id128 1 1, o_seq := 0\<rparr>, default_observation] =
     evidence_bytes [default_observation, default_observation\<lparr>o_id := Id128 1 1, o_seq := 0\<rparr>] \<and>
   evidence_bytes [default_observation\<lparr>o_id := Id128 1 1, o_seq := 1\<rparr>, default_observation] \<noteq>
     evidence_bytes [default_observation, default_observation\<lparr>o_id := Id128 1 1, o_seq := 0\<rparr>]"
proof -
  let ?d = default_observation and ?e = "default_observation\<lparr>o_id := Id128 1 1, o_seq := 0\<rparr>"
    and ?f = "default_observation\<lparr>o_id := Id128 1 1, o_seq := 1\<rparr>"
  have fits: "list_all entry_fits [?e, ?d]" "list_all entry_fits [?d, ?e]" "list_all entry_fits [?f, ?d]"
    using default_entry_ok default_entry_like by simp_all
  have "distinct (map o_id [?e, ?d])" "mset [?e, ?d] = mset [?d, ?e]"
    by (simp_all add: default_observation_def id_null_def)
  moreover have "mset [?f, ?d] \<noteq> mset [?d, ?e]" by (simp add: default_observation_def)
  ultimately show ?thesis
    using evidence_bytes_determine [of "[?e, ?d]" "[?d, ?e]"] evidence_bytes_determine [of "[?f, ?d]" "[?d, ?e]"] fits
    by simp
qed

subsection \<open>The coordinator's index and the replay\<close>

lemma filter_group:
  assumes "distinct (map fst idx)" and "\<forall>e \<in> set idx. \<forall>ob \<in> set (snd e). o_request_id ob = fst e"
    and "(rid, os) \<in> set idx"
  shows "request_evidence rid (concat (map snd idx)) = os"
proof -
  have none: "request_evidence rid (concat (map snd es)) = []"
    if "rid \<notin> fst ` set es" "\<forall>e \<in> set es. \<forall>ob \<in> set (snd e). o_request_id ob = fst e" for es
    using that by (force simp: request_evidence_def filter_empty_conv)
  show ?thesis using assms
  proof (induction idx)
    case (Cons e es)
    show ?case
    proof (cases "e = (rid, os)")
      case True
      then have "request_evidence rid (concat (map snd es)) = []"
        using Cons.prems by (intro none) auto
      then show ?thesis using True Cons.prems(2) by (simp add: request_evidence_def filter_id_conv)
    next
      case False
      then have e: "(rid, os) \<in> set es" using Cons.prems(3) by auto
      then have "rid \<in> fst ` set es" by force
      then have "fst e \<noteq> rid" using Cons.prems(1) by auto
      then have "filter (\<lambda>ob. o_request_id ob = rid) (snd e) = []"
        using Cons.prems(2) by (auto simp: filter_empty_conv)
      then show ?thesis using Cons e by (simp add: request_evidence_def)
    qed
  qed simp
qed

text \<open>C16: The index a coordinator keeps by request and a replay of what it accepted agree: in every
  reachable state the replay's traces are the traces of the indexed groups, key by key, although
  the index lists a group in arrival order and the replay in id order.\<close>

theorem replay_of_index:
  assumes "reachable c"
  shows "replay_traces (all_accepted c) = map (\<lambda>(rid, os). reconstruct_trace os rid) (c_by_request c)"
proof -
  let ?acc = "map snd (c_accepted c)" and ?idx = "c_by_request c"
  have inv: "coord_inv c" by (rule reachable_inv [OF assms])
  then have idx: "omap_ok ?idx" "\<forall>e \<in> set ?idx. fst e \<noteq> id_null \<and> snd e \<noteq> [] \<and> (\<forall>ob \<in> set (snd e). o_request_id ob = fst e)"
    and all: "mset (concat (map snd ?idx)) = mset (filter links_request ?acc)"
    by (simp_all add: coord_inv_def index_ok_def)
  have "map o_id ?acc = map fst (c_accepted c)"
    using inv by (simp add: coord_inv_def)
  then have inj: "inj_on o_id (set ?acc)"
    using inv omap_ok_distinct by (metis coord_inv_def distinct_map)
  have part: "mset os = mset (request_evidence rid ?acc)" if e: "(rid, os) \<in> set ?idx" for rid os
  proof -
    have "rid \<noteq> id_null" using idx(2) e by force
    then have "request_evidence rid (filter links_request ?acc) = request_evidence rid ?acc"
      by (auto simp: request_evidence_def links_request_def o_request_id_def intro: filter_cong)
    moreover have "request_evidence rid (concat (map snd ?idx)) = os"
      using idx e by (intro filter_group) (auto dest: omap_ok_distinct)
    moreover have "mset (request_evidence rid (concat (map snd ?idx))) =
        mset (request_evidence rid (filter links_request ?acc))"
      using all by (simp only: request_evidence_def mset_filter)
    ultimately show ?thesis by simp
  qed
  have sets: "set (concat (map snd ?idx)) = {ob \<in> set ?acc. o_request_id ob \<noteq> id_null}"
    using mset_eq_setD [OF all] by (simp add: links_request_def o_request_id_def)
  have "fst ` set ?idx = requests_of ?acc"
  proof
    show "fst ` set ?idx \<subseteq> requests_of ?acc"
    proof
      fix rid assume "rid \<in> fst ` set ?idx"
      then obtain e ob where e: "e \<in> set ?idx" "rid = fst e" "ob \<in> set (snd e)"
        using idx(2) by (metis imageE list.set_sel(1))
      then have "ob \<in> set (concat (map snd ?idx))" "o_request_id ob = rid" using idx(2) by auto
      then show "rid \<in> requests_of ?acc" unfolding sets by (auto simp: requests_of_def)
    qed
    show "requests_of ?acc \<subseteq> fst ` set ?idx"
    proof
      fix rid assume "rid \<in> requests_of ?acc"
      then obtain ob where "ob \<in> set (concat (map snd ?idx))" "o_request_id ob = rid"
        unfolding sets by (auto simp: requests_of_def)
      then show "rid \<in> fst ` set ?idx" using idx(2) by fastforce
    qed
  qed
  then have keys: "map fst ?idx = sorted_list_of_set (requests_of ?acc)"
    using idx(1) sorted_list_of_set.idem_if_sorted_distinct [of "map fst ?idx"]
    by (simp add: omap_ok_def strict_sorted_iff)
  have "map (\<lambda>(rid, os). reconstruct_trace os rid) ?idx =
      map (\<lambda>e. reconstruct_trace (request_evidence (fst e) ?acc) (fst e)) ?idx"
  proof (rule map_cong [OF refl], clarify)
    fix rid os assume e: "(rid, os) \<in> set ?idx"
    have "inj_on o_id (set os)"
      by (rule inj_on_subset [OF inj]) (use mset_eq_setD [OF part [OF e]] in \<open>auto simp: request_evidence_def\<close>)
    then show "reconstruct_trace os rid =
        reconstruct_trace (request_evidence (fst (rid, os)) ?acc) (fst (rid, os))"
      using reconstruct_permutation [OF part [OF e]] by simp
  qed
  then show ?thesis
    by (simp add: all_accepted_def replay_traces_requests keys [symmetric] comp_def)
qed

theorem replay_of_index_witness:
  "replay_traces (all_accepted (snd (ingest sample_observation new_coordinator))) =
   map (\<lambda>(rid, os). reconstruct_trace os rid) (c_by_request (snd (ingest sample_observation new_coordinator)))"
  by (intro replay_of_index reachable.step [OF reachable.start] live_step.obs)

end
