(* ===== verification/Runs.thy ===== *)
theory Runs
  imports Coordinator
begin

section \<open>Sequences of coordinator operations\<close>

text \<open>
  Several connections call \<^verbatim>\<open>Coordinator::register_hello\<close> and \<^verbatim>\<open>Coordinator::ingest\<close> in some order;
  each call holds the coordinator's lock, so what the coordinator sees is one sequence of whole
  operations. This theory is about such sequences: what is decided for the observations of one
  source depends on that source's operations alone, and a source that keeps its envelope and
  counts its sequence number up has everything accepted.
\<close>

datatype coord_event = EvHello hello_payload | EvObs observation

fun event_key :: "coord_event \<Rightarrow> u64" where
  "event_key (EvHello h) = key_of (h_source h) (h_worker h)"
| "event_key (EvObs ob) = obs_key ob"

fun event_step :: "coord_event \<Rightarrow> coordinator \<Rightarrow> coordinator" where
  "event_step (EvHello h) c = snd (register_hello h c)"
| "event_step (EvObs ob) c = snd (ingest ob c)"

definition run_events :: "coord_event list \<Rightarrow> coordinator \<Rightarrow> coordinator" where
  "run_events es c = fold event_step es c"

text \<open>What was decided for each observation, in order.\<close>

fun decisions :: "coord_event list \<Rightarrow> coordinator \<Rightarrow> (observation \<times> bool) list" where
  "decisions [] c = []"
| "decisions (EvHello h # es) c = decisions es (snd (register_hello h c))"
| "decisions (EvObs ob # es) c = (ob, i_accepted (fst (ingest ob c))) # decisions es (snd (ingest ob c))"

fun sent :: "coord_event list \<Rightarrow> observation list" where
  "sent [] = []"
| "sent (EvHello h # es) = sent es"
| "sent (EvObs ob # es) = ob # sent es"

text \<open>No observation of the sequence has an id that is taken.\<close>

definition fresh_run :: "coord_event list \<Rightarrow> coordinator \<Rightarrow> bool" where
  "fresh_run es c \<longleftrightarrow> distinct (map o_id (sent es)) \<and>
     (\<forall>ob \<in> set (sent es). map_of (c_accepted c) (o_id ob) = None)"

text \<open>No two sources use the same observation id.\<close>

definition own_ids :: "coord_event list \<Rightarrow> bool" where
  "own_ids es \<longleftrightarrow> (\<forall>x \<in> set (sent es). \<forall>y \<in> set (sent es). o_id x = o_id y \<longrightarrow> obs_key x = obs_key y)"

lemma run_events_simps [simp]:
  "run_events [] c = c" "run_events (e # es) c = run_events es (event_step e c)"
  by (simp_all add: run_events_def)

lemma run_events_append [simp]: "run_events (es @ fs) c = run_events fs (run_events es c)"
  by (simp add: run_events_def)

lemma sent_append [simp]: "sent (es @ fs) = sent es @ sent fs"
  by (induction es rule: sent.induct) simp_all

lemma sent_map [simp]: "sent (map EvObs obs) = obs"
  by (induction obs) simp_all

lemma sent_filter: "sent (filter (\<lambda>e. event_key e = k) es) = filter (\<lambda>ob. obs_key ob = k) (sent es)"
  by (induction es rule: sent.induct) simp_all

lemma decisions_append: "decisions (es @ fs) c = decisions es c @ decisions fs (run_events es c)"
  by (induction es c rule: decisions.induct) simp_all

lemma decisions_sent [simp]: "map fst (decisions es c) = sent es"
  by (induction es c rule: decisions.induct) simp_all

subsection \<open>What a run leaves in the coordinator\<close>

lemma accepted_after:
  "map_of (c_accepted (snd (ingest ob c))) i =
     (if i = o_id ob \<and> ingest_accepts ob c then Some ob else map_of (c_accepted c) i)"
  by (cases "ingest_accepts ob c") (simp_all add: ingest_accepted ingest_rejected_same)

lemma fresh_run_step:
  "fresh_run (EvHello h # es) c \<Longrightarrow> fresh_run es (snd (register_hello h c))"
  "fresh_run (EvObs ob # es) c \<Longrightarrow> fresh_run es (snd (ingest ob c))"
  by (auto simp: fresh_run_def accepted_after register_hello_def split: prod.split) (metis imageI)

lemma run_accepted:
  shows "mset (all_accepted (run_events es c)) =
      mset (all_accepted c) + mset (map fst (filter snd (decisions es c)))"
    and "\<exists>rs. c_stale (run_events es c) = c_stale c @ rs \<and>
      map fst rs = map fst (filter (\<lambda>d. \<not> snd d) (decisions es c))"
proof -
  let ?stale = "\<lambda>es c. \<exists>rs. c_stale (run_events es c) = c_stale c @ rs \<and>
    map fst rs = map fst (filter (\<lambda>d. \<not> snd d) (decisions es c))"
  have "mset (all_accepted (run_events es c)) =
      mset (all_accepted c) + mset (map fst (filter snd (decisions es c))) \<and> ?stale es c"
  proof (induction es c rule: decisions.induct)
    case (2 h es c)
    then show ?case
      by (auto simp: all_accepted_def register_hello_def split: prod.splits)
  next
    case (3 ob es c)
    note IH = "3.IH"
    show ?case
    proof (cases "ingest_accepts ob c")
      case True
      then have "map_of (c_accepted c) (o_id ob) = None" by (simp add: ingest_accepts_def)
      from mset_omap_set_fresh [OF this, of ob] show ?thesis
        using IH True by (simp add: all_accepted_def ingest_accepted ingest_accepted_iff)
    next
      case False
      then show ?thesis
        using IH by (auto simp: all_accepted_def ingest_rejected_same ingest_accepted_iff)
    qed
  qed simp
  then show "mset (all_accepted (run_events es c)) =
      mset (all_accepted c) + mset (map fst (filter snd (decisions es c)))" "?stale es c" by blast+
qed

subsection \<open>Sources do not interfere\<close>

lemma hello_registry:
  "c_registry (snd (register_hello h c)) =
     snd (register_source (hello_observation h) (h_epoch h) False (c_registry c))"
  by (simp add: register_hello_def case_prod_beta)

lemma hello_key [simp]: "obs_key (hello_observation h) = key_of (h_source h) (h_worker h)"
  by (simp add: hello_observation_def)

lemma other_key:
  assumes "event_key e \<noteq> k"
  shows "map_of (c_registry (event_step e c)) k = map_of (c_registry c) k"
proof (cases e)
  case (EvHello h)
  then show ?thesis using assms by (simp add: hello_registry register_other)
next
  case (EvObs ob)
  show ?thesis
  proof (cases "ingest_accepts ob c")
    case True
    then have "map_of (snd (validate ob (c_registry c))) k = map_of (c_registry c) k"
      using assms EvObs
      by (cases "map_of (c_registry c) (obs_key ob)")
         (auto simp: ingest_accepts_def accepts_iff validate_admitted)
    then show ?thesis using True EvObs by (simp add: ingest_accepted)
  qed (simp add: EvObs ingest_rejected_same)
qed

lemma same_key:
  assumes "map_of (c_registry c) (event_key e) = map_of (c_registry d) (event_key e)"
    and "\<And>ob. e = EvObs ob \<Longrightarrow> map_of (c_accepted c) (o_id ob) = None \<longleftrightarrow> map_of (c_accepted d) (o_id ob) = None"
  shows "map_of (c_registry (event_step e c)) (event_key e) = map_of (c_registry (event_step e d)) (event_key e)"
    and "e = EvObs ob \<Longrightarrow> i_accepted (fst (ingest ob c)) = i_accepted (fst (ingest ob d))"
proof -
  have acc: "ingest_accepts ob c = ingest_accepts ob d" if "e = EvObs ob" for ob
    using assms that by (simp add: ingest_accepts_def accepts_iff)
  then show "e = EvObs ob \<Longrightarrow> i_accepted (fst (ingest ob c)) = i_accepted (fst (ingest ob d))"
    by (simp add: ingest_accepted_iff)
  show "map_of (c_registry (event_step e c)) (event_key e) = map_of (c_registry (event_step e d)) (event_key e)"
  proof (cases e)
    case (EvHello h)
    then show ?thesis
      using assms(1) by (auto simp: hello_registry register_source_def Let_def fresh_authority_def split: option.split)
  next
    case (EvObs ob)
    show ?thesis
    proof (cases "ingest_accepts ob c")
      case True
      then obtain a where "map_of (c_registry c) (obs_key ob) = Some a" "admits a ob"
        by (auto simp: ingest_accepts_def accepts_iff)
      then have "validate ob (c_registry x) = ((AD_ACCEPTED, []), omap_set (obs_key ob) (advance ob a) (c_registry x))"
        if "x = c \<or> x = d" for x
        using that assms(1) EvObs by (intro validate_admitted) auto
      then show ?thesis
        using True acc [OF EvObs] EvObs by (simp add: ingest_accepted)
    next
      case False
      then show ?thesis
        using acc [OF EvObs] assms(1) EvObs by (simp add: ingest_rejected_same)
    qed
  qed
qed

text \<open>The decisions about one registry key's observations, and its view, are those of a coordinator
  that saw that key's operations only, however the operations of the other sources are interleaved.\<close>

definition same_taken :: "u64 \<Rightarrow> coord_event list \<Rightarrow> coordinator \<Rightarrow> coordinator \<Rightarrow> bool" where
  "same_taken k es c d \<longleftrightarrow> (\<forall>ob \<in> set (sent es). obs_key ob = k \<longrightarrow>
     (map_of (c_accepted c) (o_id ob) = None) = (map_of (c_accepted d) (o_id ob) = None))"

lemma same_taken_refl [simp]: "same_taken k es c c"
  by (simp add: same_taken_def)

lemma sent_Cons: "set (sent es) \<subseteq> set (sent (e # es))"
  by (cases e) auto

lemma own_ids_Cons: "own_ids (e # es) \<Longrightarrow> own_ids es"
  using sent_Cons [of es e] unfolding own_ids_def by blast

lemma same_taken_Cons:
  assumes "same_taken k (e # es) c d"
  shows "same_taken k es c d"
    and "e = EvObs ob \<Longrightarrow> obs_key ob = k \<Longrightarrow> (map_of (c_accepted c) (o_id ob) = None) = (map_of (c_accepted d) (o_id ob) = None)"
  using assms sent_Cons [of es e] unfolding same_taken_def by (blast, simp)

text \<open>An operation of another key takes no id of this key's; one of this key takes it in both.\<close>

lemma same_taken_other:
  assumes "same_taken k (e # es) c d" and "own_ids (e # es)" and "event_key e \<noteq> k"
  shows "same_taken k es (event_step e c) d"
proof (cases e)
  case (EvHello h)
  then show ?thesis
    using same_taken_Cons(1) [OF assms(1)] by (simp add: same_taken_def register_hello_def split: prod.split)
next
  case (EvObs ob)
  have "o_id x \<noteq> o_id ob" if "x \<in> set (sent es)" "obs_key x = k" for x
  proof
    assume "o_id x = o_id ob"
    moreover have "x \<in> set (sent (e # es))" "ob \<in> set (sent (e # es))" using that EvObs by simp_all
    ultimately have "obs_key x = obs_key ob" using assms(2) unfolding own_ids_def by blast
    then show False using that assms(3) EvObs by simp
  qed
  then show ?thesis
    using same_taken_Cons(1) [OF assms(1)] by (simp add: same_taken_def EvObs accepted_after)
qed

lemma same_taken_same:
  assumes "same_taken k (e # es) c d" and "\<And>ob. e = EvObs ob \<Longrightarrow> ingest_accepts ob c = ingest_accepts ob d"
  shows "same_taken k es (event_step e c) (event_step e d)"
proof (cases e)
  case (EvHello h)
  then show ?thesis
    using same_taken_Cons(1) [OF assms(1)] by (simp add: same_taken_def register_hello_def split: prod.split)
next
  case (EvObs ob)
  then show ?thesis
    using same_taken_Cons(1) [OF assms(1)] assms(2) by (simp add: same_taken_def accepted_after)
qed

lemma key_run:
  assumes "own_ids es" and "map_of (c_registry c) k = map_of (c_registry d) k" and "same_taken k es c d"
  shows "filter (\<lambda>p. obs_key (fst p) = k) (decisions es c) = decisions (filter (\<lambda>e. event_key e = k) es) d \<and>
    map_of (c_registry (run_events es c)) k = map_of (c_registry (run_events (filter (\<lambda>e. event_key e = k) es) d)) k"
  using assms
proof (induction es arbitrary: c d)
  case (Cons e es)
  note own = own_ids_Cons [OF Cons.prems(1)]
  show ?case
  proof (cases "event_key e = k")
    case True
    have taken: "(map_of (c_accepted c) (o_id ob) = None) = (map_of (c_accepted d) (o_id ob) = None)" if "e = EvObs ob" for ob
      using same_taken_Cons(2) [OF Cons.prems(3) that] True that by simp
    have view: "map_of (c_registry c) (event_key e) = map_of (c_registry d) (event_key e)"
      using Cons.prems(2) True by simp
    have acc: "ingest_accepts ob c = ingest_accepts ob d" if "e = EvObs ob" for ob
      using same_key(2) [OF view taken that] by (simp add: ingest_accepted_iff)
    have "map_of (c_registry (event_step e c)) k = map_of (c_registry (event_step e d)) k"
      using same_key(1) [OF view taken] True by simp
    from Cons.IH [OF own this same_taken_same [OF Cons.prems(3) acc]] show ?thesis
      using True acc by (cases e) (simp_all add: ingest_accepted_iff)
  next
    case False
    have "map_of (c_registry (event_step e c)) k = map_of (c_registry d) k"
      using Cons.prems(2) other_key [OF False, of c] by simp
    from Cons.IH [OF own this same_taken_other [OF Cons.prems(3,1) False]] show ?thesis
      using False by (cases e) simp_all
  qed
qed simp

lemma fresh_own_ids: "fresh_run es c \<Longrightarrow> own_ids es"
  by (auto simp: fresh_run_def own_ids_def distinct_map dest: inj_onD)

lemma fresh_filter: "fresh_run es c \<Longrightarrow> fresh_run (filter (\<lambda>e. event_key e = k) es) c"
  by (auto simp: fresh_run_def sent_filter distinct_map intro: inj_on_subset)

subsection \<open>A source that counts up\<close>

text \<open>A list of observations that a view admits one after the other.\<close>

fun admitted_run :: "source_authority \<Rightarrow> observation list \<Rightarrow> bool" where
  "admitted_run a [] = True"
| "admitted_run a (ob # obs) = (admits a ob \<and> admitted_run (advance ob a) obs)"

lemma admitted_run_accepted:
  assumes "map_of (c_registry c) k = Some a" and "list_all (\<lambda>ob. obs_key ob = k) obs"
    and "admitted_run a obs" and "fresh_run (map EvObs obs) c"
  shows "decisions (map EvObs obs) c = map (\<lambda>ob. (ob, True)) obs"
  using assms
proof (induction obs arbitrary: c a)
  case (Cons ob obs)
  have acc: "ingest_accepts ob c"
    using Cons.prems by (auto simp: ingest_accepts_def accepts_iff fresh_run_def)
  then have "map_of (c_registry (snd (ingest ob c))) k = Some (advance ob a)"
    using Cons.prems(1-3) validate_admitted [of "c_registry c" ob a] by (auto simp: ingest_accepted)
  moreover have "fresh_run (map EvObs obs) (snd (ingest ob c))"
    using Cons.prems(4) fresh_run_step(2) by simp
  ultimately show ?case
    using Cons.IH [of "snd (ingest ob c)" "advance ob a"] Cons.prems(2,3) acc by (simp add: ingest_accepted_iff)
qed simp

lemma all_decided:
  assumes "\<And>k. filter (\<lambda>p. obs_key (fst p) = k) ds = map (\<lambda>ob. (ob, True)) (filter (\<lambda>ob. obs_key ob = k) (map fst ds))"
  shows "ds = map (\<lambda>ob. (ob, True)) (map fst ds)"
proof -
  have "snd p" if "p \<in> set ds" for p
  proof -
    have "p \<in> set (filter (\<lambda>q. obs_key (fst q) = obs_key (fst p)) ds)" using that by simp
    then show ?thesis unfolding assms by auto
  qed
  then show ?thesis by (induction ds) (auto simp: prod_eq_iff)
qed

text \<open>An envelope and a sequence number that goes up by one from the view's.\<close>

definition counts_up :: "source_authority \<Rightarrow> observation list \<Rightarrow> bool" where
  "counts_up a obs \<longleftrightarrow>
     (\<forall>i < length obs. o_epoch (obs ! i) = a_epoch a \<and> o_src_gen (obs ! i) = a_src_gen a \<and>
        o_obs_gen (obs ! i) = a_obs_gen a \<and> o_boot (obs ! i) = a_boot a \<and>
        o_seq (obs ! i) = a_last_seq a + of_nat (Suc i)) \<and>
     unat (a_last_seq a) + length obs < 2 ^ 64"

lemma counts_up_admitted: "counts_up a obs \<Longrightarrow> admitted_run a obs"
proof (induction obs arbitrary: a)
  case (Cons ob obs)
  have env: "o_epoch ob = a_epoch a" "o_src_gen ob = a_src_gen a" "o_obs_gen ob = a_obs_gen a"
      "o_boot ob = a_boot a" "o_seq ob = a_last_seq a + 1" and len: "unat (a_last_seq a) + Suc (length obs) < 2 ^ 64"
    using Cons.prems by (auto simp: counts_up_def)
  have next_seq: "unat (a_last_seq a + 1) = Suc (unat (a_last_seq a))"
    using len by (simp add: unat_word_ariths)
  then have lt: "a_last_seq a < o_seq ob" by (simp add: env word_less_nat_alt)
  then have last: "a_last_seq (advance ob a) = a_last_seq a + 1" by (simp add: env max_def)
  have "counts_up (advance ob a) obs"
    unfolding counts_up_def
  proof (intro conjI allI impI)
    fix i assume "i < length obs"
    then show "o_epoch (obs ! i) = a_epoch (advance ob a)" "o_src_gen (obs ! i) = a_src_gen (advance ob a)"
      "o_obs_gen (obs ! i) = a_obs_gen (advance ob a)" "o_boot (obs ! i) = a_boot (advance ob a)"
      "o_seq (obs ! i) = a_last_seq (advance ob a) + of_nat (Suc i)"
      using Cons.prems unfolding last by (auto simp: counts_up_def dest!: spec [of _ "Suc i"])
  qed (use len next_seq last in \<open>simp del: advance_seq\<close>)
  then show ?case using Cons.IH env lt by (simp add: admits_def)
qed simp

text \<open>A HELLO the coordinator takes as a new generation, and what its source sends after it.\<close>

definition new_generation :: "hello_payload \<Rightarrow> source_authority option \<Rightarrow> bool" where
  "new_generation h v \<longleftrightarrow>
     (case v of None \<Rightarrow> True
      | Some a \<Rightarrow> a_boot a \<noteq> h_boot h \<or> a_src_gen a \<noteq> h_src_gen h \<or> a_obs_gen a \<noteq> h_obs_gen h)"

definition session_ok :: "hello_payload \<Rightarrow> observation list \<Rightarrow> bool" where
  "session_ok h obs \<longleftrightarrow>
     (\<forall>i < length obs. o_epoch (obs ! i) = h_epoch h \<and> o_src_gen (obs ! i) = h_src_gen h \<and>
        o_obs_gen (obs ! i) = h_obs_gen h \<and> o_boot (obs ! i) = h_boot h \<and>
        obs_key (obs ! i) = key_of (h_source h) (h_worker h) \<and> o_seq (obs ! i) = of_nat (Suc i)) \<and>
     length obs < 2 ^ 64"

lemma hello_new_generation:
  assumes "new_generation h (map_of (c_registry c) (key_of (h_source h) (h_worker h)))"
  shows "\<exists>a. map_of (c_registry (snd (register_hello h c))) (key_of (h_source h) (h_worker h)) = Some a \<and>
    a_last_seq a = 0 \<and> a_epoch a = h_epoch h \<and> a_src_gen a = h_src_gen h \<and> a_obs_gen a = h_obs_gen h \<and>
    a_boot a = h_boot h"
  using assms
  by (auto simp: hello_registry register_source_def new_generation_def Let_def fresh_authority_def
      hello_observation_def split: option.splits)

lemma session_accepted:
  assumes "new_generation h (map_of (c_registry c) (key_of (h_source h) (h_worker h)))"
    and "session_ok h obs" and "fresh_run (map EvObs obs) c"
  shows "decisions (EvHello h # map EvObs obs) c = map (\<lambda>ob. (ob, True)) obs"
proof -
  let ?c = "snd (register_hello h c)"
  obtain a where a: "map_of (c_registry ?c) (key_of (h_source h) (h_worker h)) = Some a" "a_last_seq a = 0"
      "a_epoch a = h_epoch h" "a_src_gen a = h_src_gen h" "a_obs_gen a = h_obs_gen h" "a_boot a = h_boot h"
    using hello_new_generation [OF assms(1)] by blast
  have "counts_up a obs" using assms(2) by (simp add: counts_up_def session_ok_def a)
  moreover have "list_all (\<lambda>ob. obs_key ob = key_of (h_source h) (h_worker h)) obs"
    using assms(2) by (simp add: session_ok_def list_all_length)
  moreover have "fresh_run (map EvObs obs) ?c"
    using assms(3) by (simp add: fresh_run_def register_hello_def case_prod_beta)
  ultimately show ?thesis
    using admitted_run_accepted [OF a(1)] counts_up_admitted by simp
qed

subsection \<open>A second generation\<close>

text \<open>Observations the coordinator does not take leave what it decides for the others.\<close>

lemma rejected_run:
  assumes "list_all (\<lambda>ob. \<not> ingest_accepts ob c) obs"
  shows "decisions (map EvObs obs) c = map (\<lambda>ob. (ob, False)) obs"
    and "c_registry (run_events (map EvObs obs) c) = c_registry c"
    and "c_accepted (run_events (map EvObs obs) c) = c_accepted c"
proof -
  have "decisions (map EvObs obs) c = map (\<lambda>ob. (ob, False)) obs \<and>
      c_registry (run_events (map EvObs obs) c) = c_registry c \<and> c_accepted (run_events (map EvObs obs) c) = c_accepted c"
    using assms
  proof (induction obs arbitrary: c)
    case (Cons ob obs)
    have "list_all (\<lambda>ob. \<not> ingest_accepts ob (snd (ingest ob' c))) obs" if "\<not> ingest_accepts ob' c" for ob'
      using Cons.prems that by (simp add: ingest_accepts_def ingest_rejected_same list_all_iff)
    then show ?case
      using Cons.IH [of "snd (ingest ob c)"] Cons.prems by (simp add: ingest_accepted_iff ingest_rejected_same)
  qed simp
  then show "decisions (map EvObs obs) c = map (\<lambda>ob. (ob, False)) obs"
    "c_registry (run_events (map EvObs obs) c) = c_registry c" "c_accepted (run_events (map EvObs obs) c) = c_accepted c"
    by blast+
qed

lemma fresh_run_rest: "fresh_run (es @ fs) c \<Longrightarrow> fresh_run fs (run_events es c)"
proof (induction es arbitrary: c)
  case (Cons e es)
  then show ?case using fresh_run_step by (cases e) auto
qed simp

lemma fresh_run_accepted: "fresh_run es c \<Longrightarrow> c_accepted d = c_accepted c \<Longrightarrow> fresh_run es d"
  by (simp add: fresh_run_def)

lemma boot_after_obs:
  "map_option a_boot (map_of (c_registry (run_events (map EvObs obs) c)) k) = map_option a_boot (map_of (c_registry c) k)"
proof (induction obs arbitrary: c)
  case (Cons ob obs)
  have "map_option a_boot (map_of (c_registry (snd (ingest ob c))) k) = map_option a_boot (map_of (c_registry c) k)"
  proof (cases "ingest_accepts ob c")
    case True
    then have "accepts ob (c_registry c)" by (simp add: ingest_accepts_def)
    from validate_accepted [OF this, of k] show ?thesis
      using True by (cases "k = obs_key ob"; cases "map_of (c_registry c) k") (auto simp: ingest_accepted)
  qed (simp add: ingest_rejected_same)
  then show ?case using Cons [of "snd (ingest ob c)"] by simp
qed simp

text \<open>What a source may send and never has accepted: an envelope its latest HELLO rules out.\<close>

definition ruled_out :: "hello_payload \<Rightarrow> observation \<Rightarrow> bool" where
  "ruled_out h ob \<longleftrightarrow> obs_key ob = key_of (h_source h) (h_worker h) \<and>
     (o_epoch ob < h_epoch h \<or> o_src_gen ob \<noteq> h_src_gen h \<or> o_obs_gen ob \<noteq> h_obs_gen h \<or> o_boot ob \<noteq> h_boot h)"

lemma session_with_probes:
  assumes "new_generation h (map_of (c_registry c) (key_of (h_source h) (h_worker h)))"
    and "session_ok h obs" and "fresh_run (map EvObs obs) c" and "list_all (ruled_out h) probes"
  shows "decisions (EvHello h # map EvObs probes @ map EvObs obs) c =
    map (\<lambda>ob. (ob, False)) probes @ map (\<lambda>ob. (ob, True)) obs"
proof -
  let ?c = "snd (register_hello h c)"
  obtain a where a: "map_of (c_registry ?c) (key_of (h_source h) (h_worker h)) = Some a" "a_last_seq a = 0"
      "a_epoch a = h_epoch h" "a_src_gen a = h_src_gen h" "a_obs_gen a = h_obs_gen h" "a_boot a = h_boot h"
    using hello_new_generation [OF assms(1)] by blast
  have "list_all (\<lambda>ob. \<not> ingest_accepts ob ?c) probes"
    using assms(4) by (auto simp: list_all_iff ruled_out_def ingest_accepts_def accepts_iff a admits_def)
  note rej = rejected_run [OF this]
  have "counts_up a obs" using assms(2) by (simp add: counts_up_def session_ok_def a)
  moreover have "list_all (\<lambda>ob. obs_key ob = key_of (h_source h) (h_worker h)) obs"
    using assms(2) by (simp add: session_ok_def list_all_length)
  moreover have "fresh_run (map EvObs obs) (run_events (map EvObs probes) ?c)"
    using assms(3) by (rule fresh_run_accepted) (simp add: rej(3), simp add: register_hello_def case_prod_beta)
  moreover have "map_of (c_registry (run_events (map EvObs probes) ?c)) (key_of (h_source h) (h_worker h)) = Some a"
    using a(1) by (simp add: rej(2))
  ultimately have "decisions (map EvObs obs) (run_events (map EvObs probes) ?c) = map (\<lambda>ob. (ob, True)) obs"
    using admitted_run_accepted counts_up_admitted by blast
  then show ?thesis by (simp add: decisions_append rej(1))
qed

lemma two_generations:
  assumes "new_generation h (map_of (c_registry c) (key_of (h_source h) (h_worker h)))"
    and "session_ok h obs" and "session_ok h' obs'" and "fresh_run (map EvObs (obs @ obs')) c"
    and "h_source h' = h_source h" and "h_worker h' = h_worker h" and "h_boot h' \<noteq> h_boot h"
    and "list_all (ruled_out h') probes"
  shows "decisions ((EvHello h # map EvObs obs) @ EvHello h' # map EvObs probes @ map EvObs obs') c =
    map (\<lambda>ob. (ob, True)) obs @ map (\<lambda>ob. (ob, False)) probes @ map (\<lambda>ob. (ob, True)) obs'"
proof -
  let ?k = "key_of (h_source h) (h_worker h)"
  let ?c1 = "snd (register_hello h c)"
  let ?c = "run_events (EvHello h # map EvObs obs) c"
  have fresh: "fresh_run (map EvObs obs @ map EvObs obs') c" using assms(4) by simp
  have "fresh_run (map EvObs obs) c" using fresh by (auto simp: fresh_run_def)
  from session_accepted [OF assms(1,2) this]
  have "decisions (EvHello h # map EvObs obs) c = map (\<lambda>ob. (ob, True)) obs" .
  moreover have "new_generation h' (map_of (c_registry ?c) (key_of (h_source h') (h_worker h')))"
  proof -
    obtain a where "map_of (c_registry ?c1) ?k = Some a" "a_boot a = h_boot h"
      using hello_new_generation [OF assms(1)] by blast
    then have "map_option a_boot (map_of (c_registry ?c) ?k) = Some (h_boot h)"
      by (simp add: boot_after_obs)
    then show ?thesis using assms(5-7) by (auto simp: new_generation_def)
  qed
  moreover have "fresh_run (map EvObs obs @ map EvObs obs') ?c1"
    using fresh by (rule fresh_run_accepted) (simp add: register_hello_def case_prod_beta)
  then have "fresh_run (map EvObs obs') ?c" using fresh_run_rest [of "map EvObs obs"] by simp
  ultimately show ?thesis
    using session_with_probes [OF _ assms(3) _ assms(8)] by (simp only: decisions_append)
qed

subsection \<open>Properties\<close>

text \<open>A source that is only an id, for examples.\<close>

definition hello_for :: "source_id \<Rightarrow> hello_payload" where
  "hello_for s = \<lparr>h_source = s, h_worker = id_null, h_boot = id_null, h_src_gen = 1, h_obs_gen = 1, h_epoch = 1,
     h_clock_domain = [], h_role = [], h_extra = []\<rparr>"

definition obs_for :: "source_id \<Rightarrow> observation" where
  "obs_for s = default_observation\<lparr>o_id := s, o_source := s, o_src_gen := 1, o_obs_gen := 1, o_epoch := 1, o_seq := 1\<rparr>"

lemma example_keys:
  "key_of (Id128 0 1) id_null \<noteq> key_of (Id128 0 2) id_null" "key_of (Id128 0 2) id_null \<noteq> key_of (Id128 0 1) id_null"
  "key_of (Id128 0 1) id_null \<noteq> obs_key default_observation"
  "event_key (EvHello (hello_for (Id128 0 1))) \<noteq> obs_key default_observation"
  by (simp_all add: key_of_def default_observation_def id_null_def hello_for_def)

text \<open>C13: Registry keys do not interfere: in a run in which no observation id is used under two keys, what is
  decided on the observations of one key and what the registry then holds for it are what a run of that
  key's operations alone gives, from the same state, whatever the other keys' operations are and
  wherever they fall. A key stands for all pairs of source and worker that hash to it.\<close>

theorem sources_independent:
  assumes "own_ids es"
  shows "filter (\<lambda>p. obs_key (fst p) = k) (decisions es c) = decisions (filter (\<lambda>e. event_key e = k) es) c \<and>
    map_of (c_registry (run_events es c)) k = map_of (c_registry (run_events (filter (\<lambda>e. event_key e = k) es) c)) k"
  by (rule key_run [OF assms refl]) simp

theorem sources_independent_witness:
  "filter (\<lambda>p. obs_key (fst p) = key_of (Id128 0 1) id_null)
     (decisions [EvHello (hello_for (Id128 0 1)), EvHello (hello_for (Id128 0 2)), EvObs (obs_for (Id128 0 2)),
        EvObs (obs_for (Id128 0 1))] new_coordinator) = [(obs_for (Id128 0 1), True)]"
proof -
  let ?h = "hello_for (Id128 0 1)" and ?k = "key_of (Id128 0 1) id_null"
  let ?es = "[EvHello ?h, EvHello (hello_for (Id128 0 2)), EvObs (obs_for (Id128 0 2)), EvObs (obs_for (Id128 0 1))]"
  have "own_ids ?es" by (simp add: own_ids_def obs_for_def)
  note ind = conjunct1 [OF sources_independent [OF this, of ?k new_coordinator]]
  have "filter (\<lambda>e. event_key e = ?k) ?es = EvHello ?h # map EvObs [obs_for (Id128 0 1)]"
    using example_keys(2) by (simp add: hello_for_def obs_for_def default_observation_def)
  moreover have "decisions (EvHello ?h # map EvObs [obs_for (Id128 0 1)]) new_coordinator =
      map (\<lambda>ob. (ob, True)) [obs_for (Id128 0 1)]"
  proof (rule session_accepted)
    show "new_generation ?h (map_of (c_registry new_coordinator) (key_of (h_source ?h) (h_worker ?h)))"
      by (simp add: new_generation_def new_coordinator_def set_epoch_def)
    show "session_ok ?h [obs_for (Id128 0 1)]"
      by (simp add: session_ok_def hello_for_def obs_for_def default_observation_def)
    show "fresh_run (map EvObs [obs_for (Id128 0 1)]) new_coordinator"
      by (simp add: fresh_run_def new_coordinator_def set_epoch_def)
  qed
  ultimately show ?thesis using ind by simp
qed



end
