(* ===== verification/SourceClient.thy ===== *)
theory SourceClient
  imports Coordinator
begin

section \<open>The source\<close>

text \<open>
  \<^verbatim>\<open>include/servingobs/store/source.hpp\<close> and \<^verbatim>\<open>src/source.cpp\<close>: a source's configuration,
  its session with the coordinator, the observations it makes and its logical restart. The
  transport is a pair of arguments: \<open>send_all\<close>, which says whether all bytes went out, and the
  socket's \<^verbatim>\<open>recv\<close>, under the frame reception of \<^verbatim>\<open>Network\<close>.
\<close>

datatype session_status = SOBS_DISCONNECTED | SOBS_CONNECTED | SOBS_REGISTERED

record source_config =
  cf_source :: source_id
  cf_worker :: worker_id
  cf_boot :: worker_boot_id
  cf_src_gen :: u64
  cf_obs_gen :: u64
  cf_epoch :: u64
  cf_clock_domain :: string
  cf_role :: string

text \<open>
  The session field has no initialiser in the source; \<open>new_source\<close> takes what it starts with
  as an argument.
\<close>

record 's source =
  sr_cfg :: source_config
  sr_stream :: "'s option"
  sr_session :: session_status
  sr_registered :: bool
  sr_seq :: u64
  sr_serial :: u64

definition new_source :: "session_status \<Rightarrow> source_config \<Rightarrow> 's source" where
  "new_source indeterminate cfg =
     \<lparr>sr_cfg = cfg, sr_stream = None, sr_session = indeterminate, sr_registered = False,
      sr_seq = 0, sr_serial = 0\<rparr>"

type_synonym 's sender = "bytes \<Rightarrow> 's option \<Rightarrow> unit result \<times> 's option"

text \<open>\<^verbatim>\<open>dial\<close> is the result of \<^verbatim>\<open>TcpStream::connect\<close>.\<close>

definition src_connect :: "'s result \<Rightarrow> 's source \<Rightarrow> bool \<times> 's source" where
  "src_connect dial src =
     (case dial of
        Err e \<Rightarrow> (False, src)
      | Ok s \<Rightarrow> (True, src\<lparr>sr_stream := Some s, sr_session := SOBS_CONNECTED\<rparr>))"

definition hello_of :: "source_config \<Rightarrow> hello_payload" where
  "hello_of cfg =
     \<lparr>h_source = cf_source cfg, h_worker = cf_worker cfg, h_boot = cf_boot cfg,
      h_src_gen = cf_src_gen cfg, h_obs_gen = cf_obs_gen cfg, h_epoch = cf_epoch cfg,
      h_clock_domain = cf_clock_domain cfg, h_role = cf_role cfg, h_extra = []\<rparr>"

text \<open>Encode a payload into a frame and send it; an encoder's exception leaves the function.\<close>

definition send_frame :: "'s sender \<Rightarrow> msg_type \<Rightarrow> bytes result \<Rightarrow> 's source \<Rightarrow>
    unit result result \<times> 's source" where
  "send_frame send_all t payload src =
     (case payload of
        Err e \<Rightarrow> (Err e, src)
      | Ok p \<Rightarrow>
          (case frame_encode t p kProtocolVersion of
             Err e \<Rightarrow> (Err e, src)
           | Ok frame \<Rightarrow>
               (let (r, st) = send_all frame (sr_stream src) in (Ok r, src\<lparr>sr_stream := st\<rparr>))))"

text \<open>The answer to a HELLO, after it was received: accepted or not.\<close>

definition hello_answer :: "bytes option result \<Rightarrow> bool" where
  "hello_answer fr =
     (case fr of
        Ok (Some data) \<Rightarrow>
          (case frame_decode data of
             Err e \<Rightarrow> False
           | Ok f \<Rightarrow>
               if f_type f \<noteq> MT_HELLO_ACK then False
               else (case decode_obs_ack (f_payload f) of
                       Err e \<Rightarrow> False
                     | Ok a \<Rightarrow> k_accepted a))
      | _ \<Rightarrow> False)"

definition send_hello :: "'s sender \<Rightarrow> 's recv \<Rightarrow> 's source \<Rightarrow> bool result \<times> 's source" where
  "send_hello send_all recv src =
     (case send_frame send_all MT_HELLO (encode_hello (hello_of (sr_cfg src))) src of
        (Err e, src1) \<Rightarrow> (Err e, src1)
      | (Ok (Err e), src1) \<Rightarrow> (Ok False, src1)
      | (Ok (Ok _), src1) \<Rightarrow>
          (let (fr, st) = recv_frame recv (sr_stream src1); src2 = src1\<lparr>sr_stream := st\<rparr>
           in if hello_answer fr
              then (Ok True, src2\<lparr>sr_registered := True, sr_session := SOBS_REGISTERED\<rparr>)
              else (Ok False, src2)))"

definition recv_ack :: "'s recv \<Rightarrow> 's source \<Rightarrow> obs_ack_payload result \<times> 's source" where
  "recv_ack recv src =
     (let (fr, st) = recv_frame recv (sr_stream src); src1 = src\<lparr>sr_stream := st\<rparr>
      in (case fr of
            Ok (Some data) \<Rightarrow>
              (case frame_decode data of
                 Err e \<Rightarrow> (Err ''ack decode failed'', src1)
               | Ok f \<Rightarrow> (decode_obs_ack (f_payload f), src1))
          | _ \<Rightarrow> (Err ''no ack frame'', src1)))"

text \<open>The outer result is an exception of the encoder, the inner one the function's own.\<close>

definition send_observation :: "'s sender \<Rightarrow> 's recv \<Rightarrow> observation \<Rightarrow> 's source \<Rightarrow>
    obs_ack_payload result result \<times> 's source" where
  "send_observation send_all recv ob src =
     (if sr_session src \<noteq> SOBS_REGISTERED then (Ok (Err ''not registered''), src)
      else case send_frame send_all MT_OBS (encode_observation_payload ob) src of
        (Err e, src1) \<Rightarrow> (Err e, src1)
      | (Ok (Err e), src1) \<Rightarrow> (Ok (Err (''send failed: '' @ e)), src1)
      | (Ok (Ok _), src1) \<Rightarrow>
          (case recv_ack recv src1 of
             (Err e, src2) \<Rightarrow> (Ok (Err (''ack recv failed: '' @ e)), src2)
           | (Ok a, src2) \<Rightarrow> (Ok (Ok a), src2)))"

definition send_observation_fire :: "'s sender \<Rightarrow> observation \<Rightarrow> 's source \<Rightarrow> bool result \<times> 's source" where
  "send_observation_fire send_all ob src =
     (if sr_session src \<noteq> SOBS_REGISTERED then (Ok False, src)
      else case send_frame send_all MT_OBS (encode_observation_payload ob) src of
        (Err e, src1) \<Rightarrow> (Err e, src1)
      | (Ok r, src1) \<Rightarrow> (Ok (\<not> isl r), src1))"

definition disconnect :: "'s sender \<Rightarrow> 's source \<Rightarrow> 's source" where
  "disconnect send_all src =
     (snd (send_frame send_all MT_BYE (Ok []) src))\<lparr>sr_stream := None, sr_session := SOBS_DISCONNECTED\<rparr>"

text \<open>The eight bytes of the serial counter as they lie in memory (little endian).\<close>

definition restart_boot :: "'s source \<Rightarrow> worker_boot_id \<times> 's source" where
  "restart_boot src =
     (let nb = derive 0x424F4F54 (rev (be_bytes 8 (sr_serial src)));
          cfg = sr_cfg src
      in (nb, src\<lparr>sr_cfg := cfg\<lparr>cf_boot := nb, cf_src_gen := cf_src_gen cfg + 1,
                                cf_obs_gen := cf_obs_gen cfg + 1, cf_epoch := cf_epoch cfg + 0\<rparr>,
                  sr_serial := sr_serial src + 1\<rparr>))"

definition next_seq :: "'s source \<Rightarrow> 's source" where
  "next_seq src = src\<lparr>sr_seq := sr_seq src + 1\<rparr>"

definition next_seq_value :: "'s source \<Rightarrow> u64" where
  "next_seq_value src = sr_seq src + 1"

definition make_observation :: "obs_type \<Rightarrow> 's source \<Rightarrow> observation" where
  "make_observation t src =
     (let cfg = sr_cfg src; seq = sr_seq src + 1
      in default_observation\<lparr>o_type := t, o_source := cf_source cfg, o_worker := cf_worker cfg,
           o_boot := cf_boot cfg, o_src_gen := cf_src_gen cfg, o_obs_gen := cf_obs_gen cfg,
           o_epoch := cf_epoch cfg, o_seq := seq, o_clock_domain := cf_clock_domain cfg,
           o_provenance := PV_MEASURED,
           o_id := derive_observation_id (cf_source cfg) (cf_worker cfg) (cf_boot cfg) seq t\<rparr>)"

definition make_request_observation :: "obs_type \<Rightarrow> request_id \<Rightarrow> u64 \<Rightarrow> 's source \<Rightarrow> observation" where
  "make_request_observation t req obs_ts src =
     (let ob = make_observation t src;
          ob1 = (if req \<noteq> id_null then set_field ''request_id'' (FvId req) ob else ob)
      in (if obs_ts \<noteq> 0 then ob1\<lparr>o_has_obs_ts := True, o_obs_ts := obs_ts\<rparr> else ob1))"

subsection \<open>Sessions against a coordinator\<close>

lemma make_observation_envelope:
  "o_source (make_observation t src) = cf_source (sr_cfg src)"
  "o_worker (make_observation t src) = cf_worker (sr_cfg src)"
  "o_boot (make_observation t src) = cf_boot (sr_cfg src)"
  "o_src_gen (make_observation t src) = cf_src_gen (sr_cfg src)"
  "o_obs_gen (make_observation t src) = cf_obs_gen (sr_cfg src)"
  "o_epoch (make_observation t src) = cf_epoch (sr_cfg src)"
  "o_seq (make_observation t src) = next_seq_value src"
  by (simp_all add: make_observation_def next_seq_value_def Let_def)

text \<open>What the coordinator holds for a source right after its HELLO.\<close>

lemma hello_view:
  "\<exists>a. map_of (c_registry (snd (register_hello (hello_of cfg) c))) (key_of (cf_source cfg) (cf_worker cfg)) = Some a \<and>
     a_epoch a = cf_epoch cfg \<and> a_src_gen a = cf_src_gen cfg \<and> a_obs_gen a = cf_obs_gen cfg \<and>
     a_boot a = cf_boot cfg"
proof -
  obtain a where a: "snd (register_source (hello_observation (hello_of cfg)) (cf_epoch cfg) False (c_registry c)) =
      omap_set (key_of (cf_source cfg) (cf_worker cfg)) a (c_registry c)"
    "a_epoch a = cf_epoch cfg" "a_src_gen a = cf_src_gen cfg" "a_obs_gen a = cf_obs_gen cfg"
    "a_boot a = cf_boot cfg"
    using register_view [of "hello_observation (hello_of cfg)" "cf_epoch cfg" False "c_registry c"]
    by (auto simp: hello_observation_def hello_of_def)
  then show ?thesis
    by (simp add: register_hello_def case_prod_beta hello_of_def)
qed

lemma hello_accepted [simp]: "c_accepted (snd (register_hello h c)) = c_accepted c"
  by (simp add: register_hello_def case_prod_beta)

lemma made_request_id: "o_request_id (make_request_observation t req ts src) = req"
  by (simp add: make_request_observation_def make_observation_def Let_def o_request_id_def id_field_def
        set_field_def default_observation_def)

lemma made_obs_ok:
  "fits32 (length (cf_clock_domain (sr_cfg src))) \<Longrightarrow> obs_ok (make_request_observation t req ts src)"
  by (simp add: make_request_observation_def make_observation_def Let_def obs_ok_def set_field_def
        default_observation_def fields_ok_def fits32_def max_field_count_def)

text \<open>What the handler does with a HELLO frame.\<close>

lemma handle_hello:
  assumes "hello_ok (hello_of cfg)" and "encode_hello (hello_of cfg) = Ok p"
    and "length p \<le> max_frame_payload" and "frame_encode MT_HELLO p kProtocolVersion = Ok data"
  shows "\<exists>f ack. frame_decode data = Ok f \<and>
    handle_frame f c = (Ok (CN_Continue, [ack]), snd (register_hello (hello_of cfg) c)) \<and>
    hello_answer (Ok (Some ack)) \<and>
    (\<exists>a. map_of (c_registry (snd (register_hello (hello_of cfg) c)))
          (key_of (cf_source cfg) (cf_worker cfg)) = Some a \<and>
        a_epoch a = cf_epoch cfg \<and> a_src_gen a = cf_src_gen cfg \<and> a_obs_gen a = cf_obs_gen cfg \<and>
        a_boot a = cf_boot cfg)"
proof -
  let ?f = "\<lparr>f_version = kProtocolVersion, f_type = MT_HELLO, f_payload = p\<rparr>"
  have d: "frame_decode data = Ok ?f"
    using assms(3,4) by (simp add: decode_ok_iff)
  have h: "decode_hello p = Ok (hello_of cfg)"
    using hello.decode_encode [OF assms(1,2)] .
  obtain auth c' where r: "register_hello (hello_of cfg) c = (Ok auth, c')"
    using register_ok [of "hello_observation (hello_of cfg)" "h_epoch (hello_of cfg)" False "c_registry c"]
    by (auto simp: register_hello_def case_prod_beta)
  obtain b q where "send_reply MT_HELLO_ACK (encode_obs_ack True (authority_decision_num AD_ACCEPTED)
      (c_accepted_total c') []) c' = (Ok (CN_Continue, [b]), c')"
    "frame_decode b = Ok \<lparr>f_version = kProtocolVersion, f_type = MT_HELLO_ACK, f_payload = q\<rparr>"
    "decode_obs_ack q = Ok \<lparr>k_accepted = True, k_decision = authority_decision_num AD_ACCEPTED,
       k_accepted_total = c_accepted_total c', k_reason = []\<rparr>"
    using ack_reply [of "[]"] by force
  then have "handle_frame ?f c = (Ok (CN_Continue, [b]), c')" "hello_answer (Ok (Some b))"
    by (simp_all add: handle_frame_def h r hello_answer_def)
  then show ?thesis using d hello_view [of cfg c] by (auto simp: r)
qed

subsection \<open>Properties\<close>

text \<open>A source whose generation the coordinator does not already hold is accepted after its
  HELLO: its next observation, of any type and for any request, is ingested, unless one with
  the same derived id was accepted before.\<close>

theorem registered_source_accepted:
  assumes "\<And>a. map_of (c_registry c) (key_of (cf_source (sr_cfg src)) (cf_worker (sr_cfg src))) = Some a \<Longrightarrow>
      a_src_gen a \<noteq> cf_src_gen (sr_cfg src)"
    and "map_of (c_accepted c) (o_id (make_observation t src)) = None"
  shows "i_accepted (fst (ingest (make_request_observation t req ts src)
       (snd (register_hello (hello_of (sr_cfg src)) c))))"
proof -
  let ?cfg = "sr_cfg src" and ?ob = "make_request_observation t req ts src"
  have env: "o_id ?ob = o_id (make_observation t src)" "obs_key ?ob = key_of (cf_source ?cfg) (cf_worker ?cfg)"
      "o_src_gen ?ob = cf_src_gen ?cfg" "o_obs_gen ?ob = cf_obs_gen ?cfg" "o_boot ?ob = cf_boot ?cfg"
      "o_epoch ?ob = cf_epoch ?cfg"
    by (simp_all add: make_request_observation_def Let_def set_field_def make_observation_envelope)
  have "\<exists>old. c_registry (snd (register_hello (hello_of ?cfg) c)) =
      omap_set (key_of (cf_source ?cfg) (cf_worker ?cfg))
        (fresh_authority (hello_observation (hello_of ?cfg)) (cf_epoch ?cfg) old) (c_registry c)"
    using assms(1)
    by (auto simp: register_hello_def case_prod_beta register_source_def Let_def hello_observation_def
          hello_of_def split: option.split)
  then obtain old where "map_of (c_registry (snd (register_hello (hello_of ?cfg) c))) (obs_key ?ob) =
      Some (fresh_authority (hello_observation (hello_of ?cfg)) (cf_epoch ?cfg) old)"
    by (auto simp: env)
  moreover have "admits (fresh_authority (hello_observation (hello_of ?cfg)) (cf_epoch ?cfg) old) ?ob"
    by (simp add: admits_def env fresh_authority_def hello_observation_def hello_of_def
          default_authority_def word_gt_0)
  ultimately show ?thesis
    using assms(2) by (simp add: ingest_accepted_iff ingest_accepts_def accepts_iff env)
qed

definition sample_source :: "bytes source" where
  "sample_source = new_source SOBS_DISCONNECTED
     \<lparr>cf_source = Id128 0 1, cf_worker = Id128 0 2, cf_boot = Id128 0 3, cf_src_gen = 1, cf_obs_gen = 1,
      cf_epoch = 1, cf_clock_domain = ''mono_ns'', cf_role = ''worker''\<rparr>"

theorem registered_source_accepted_witness:
  "i_accepted (fst (ingest (make_request_observation OT_ADMISSION (Id128 1 1) 100 sample_source)
     (snd (register_hello (hello_of (sr_cfg sample_source)) new_coordinator))))"
  by (rule registered_source_accepted) (simp_all add: new_coordinator_def set_epoch_def)

text \<open>What a source makes for a request carries that request's id and can be put on the wire:
  it is encoded without error and the coordinator decodes exactly that observation.\<close>

theorem made_observation_travels:
  assumes "fits32 (length (cf_clock_domain (sr_cfg src)))"
  shows "o_request_id (make_request_observation t req ts src) = req \<and>
    (\<exists>bs. encode_observation_payload (make_request_observation t req ts src) = Ok bs \<and>
       read_observation_payload bs = Ok (make_request_observation t req ts src))"
  using made_request_id obs_payload.encode_roundtrip [OF made_obs_ok [OF assms]] by blast

theorem made_observation_travels_witness:
  "o_request_id (make_request_observation OT_ADMISSION (Id128 1 1) 100 sample_source) = Id128 1 1 \<and>
    (\<exists>bs. encode_observation_payload (make_request_observation OT_ADMISSION (Id128 1 1) 100 sample_source) = Ok bs \<and>
       read_observation_payload bs = Ok (make_request_observation OT_ADMISSION (Id128 1 1) 100 sample_source))"
  by (rule made_observation_travels) (simp add: sample_source_def new_source_def fits32_def)

text \<open>The handshake completes: the HELLO frame a source sends is answered by the coordinator's
  handler with one frame that the source takes as acceptance, and the coordinator then holds
  exactly the envelope of that HELLO.\<close>

theorem hello_handshake:
  assumes "hello_ok (hello_of cfg)" and "encode_hello (hello_of cfg) = Ok p"
    and "length p \<le> max_frame_payload" and "frame_encode MT_HELLO p kProtocolVersion = Ok data"
  shows "\<exists>f ack. frame_decode data = Ok f \<and>
    handle_frame f c = (Ok (CN_Continue, [ack]), snd (register_hello (hello_of cfg) c)) \<and>
    hello_answer (Ok (Some ack)) \<and>
    (\<exists>a. map_of (c_registry (snd (register_hello (hello_of cfg) c)))
          (key_of (cf_source cfg) (cf_worker cfg)) = Some a \<and>
        a_epoch a = cf_epoch cfg \<and> a_src_gen a = cf_src_gen cfg \<and> a_obs_gen a = cf_obs_gen cfg \<and>
        a_boot a = cf_boot cfg)"
  using assms by (rule handle_hello)

lemma sample_hello:
  obtains p where "hello_ok (hello_of (sr_cfg sample_source))"
    "encode_hello (hello_of (sr_cfg sample_source)) = Ok p" "length p \<le> max_frame_payload"
proof -
  let ?cfg = "sr_cfg sample_source"
  have ok: "hello_ok (hello_of ?cfg)"
    by (simp add: hello_ok_def hello_of_def sample_source_def new_source_def fits32_def)
  obtain p where p: "encode_hello (hello_of ?cfg) = Ok p" using hello.encode_ok [OF ok] by blast
  have "length p \<le> max_frame_payload"
    using p by (auto simp: encode_hello_def write_hello_def wseq_def put_def write_id_def write_u64_def
        write_str_def write_len_def write_u32_def to_bytes_eq hello_of_def sample_source_def new_source_def
        max_frame_payload_def)
  with ok p show thesis using that by blast
qed

theorem hello_handshake_witness:
  "\<exists>data f ack. frame_decode data = Ok f \<and>
    handle_frame f new_coordinator =
      (Ok (CN_Continue, [ack]), snd (register_hello (hello_of (sr_cfg sample_source)) new_coordinator)) \<and>
    hello_answer (Ok (Some ack))"
proof -
  let ?cfg = "sr_cfg sample_source"
  obtain p where p: "hello_ok (hello_of ?cfg)" "encode_hello (hello_of ?cfg) = Ok p" "length p \<le> max_frame_payload"
    by (rule sample_hello)
  moreover obtain data where "frame_encode MT_HELLO p kProtocolVersion = Ok data"
    by (simp add: frame_encode_eq)
  ultimately show ?thesis
    using hello_handshake [of ?cfg p data new_coordinator] by blast
qed

end
