(* ===== verification/Connections.thy ===== *)
theory Connections
  imports Runs SourceClient
begin

section \<open>What connections do to the coordinator\<close>

text \<open>
  Sequences of frames at the connection handler of \<^verbatim>\<open>coordinator.cpp\<close>: a stream of HELLO and OBS
  frames in any pieces is the run of the operations it encodes, answered in order; and what a
  restarted source leaves of its earlier generations.
\<close>

subsection \<open>Operations as frames\<close>

definition event_frame :: "coord_event \<Rightarrow> bytes result" where
  "event_frame e =
     (case e of
        EvHello h \<Rightarrow> (case encode_hello h of Err x \<Rightarrow> Err x | Ok p \<Rightarrow> frame_encode MT_HELLO p kProtocolVersion)
      | EvObs ob \<Rightarrow> (case encode_observation_payload ob of
                       Err x \<Rightarrow> Err x | Ok p \<Rightarrow> frame_encode MT_OBS p kProtocolVersion))"

text \<open>An observation, and an operation, that the codec represents and that fits a frame.\<close>

definition sendable :: "observation \<Rightarrow> bool" where
  "sendable ob \<longleftrightarrow> obs_ok ob \<and>
     (case encode_observation_payload ob of Err e \<Rightarrow> False | Ok p \<Rightarrow> length p \<le> max_frame_payload)"

fun event_sendable :: "coord_event \<Rightarrow> bool" where
  "event_sendable (EvHello h) \<longleftrightarrow> hello_ok h \<and>
     (case encode_hello h of Err e \<Rightarrow> False | Ok p \<Rightarrow> length p \<le> max_frame_payload)"
| "event_sendable (EvObs ob) \<longleftrightarrow> sendable ob"

text \<open>The answers: one acknowledgement per operation, from the state the operation finds.\<close>

fun event_reply :: "coord_event \<Rightarrow> coordinator \<Rightarrow> msg_type \<times> obs_ack_payload" where
  "event_reply (EvHello h) c =
     (MT_HELLO_ACK, \<lparr>k_accepted = True, k_decision = authority_decision_num AD_ACCEPTED,
        k_accepted_total = c_accepted_total c, k_reason = []\<rparr>)"
| "event_reply (EvObs ob) c =
     (let ir = fst (ingest ob c)
      in (MT_OBS_ACK, \<lparr>k_accepted = i_accepted ir, k_decision = i_decision ir,
            k_accepted_total = i_accepted_total ir, k_reason = i_reason ir\<rparr>))"

fun replies :: "coord_event list \<Rightarrow> coordinator \<Rightarrow> (msg_type \<times> obs_ack_payload) list" where
  "replies [] c = []"
| "replies (e # es) c = event_reply e c # replies es (event_step e c)"

definition reads_as :: "bytes \<Rightarrow> msg_type \<times> obs_ack_payload \<Rightarrow> bool" where
  "reads_as out r \<longleftrightarrow> (\<exists>f. frame_decode out = Ok f \<and> f_type f = fst r \<and> decode_obs_ack (f_payload f) = Ok (snd r))"

lemma hello_handled:
  assumes "hello_ok h" and "encode_hello h = Ok p"
  shows "\<exists>ack. handle_frame \<lparr>f_version = v, f_type = MT_HELLO, f_payload = p\<rparr> c =
      (Ok (CN_Continue, [ack]), snd (register_hello h c)) \<and> reads_as ack (event_reply (EvHello h) c)"
proof -
  have h: "decode_hello p = Ok h" using hello.decode_encode [OF assms] .
  obtain auth c' where r: "register_hello h c = (Ok auth, c')"
    using register_ok [of "hello_observation h" "h_epoch h" False "c_registry c"]
    by (auto simp: register_hello_def case_prod_beta)
  then have total: "c_accepted_total c' = c_accepted_total c" by (auto simp: register_hello_def case_prod_beta)
  obtain b q where "send_reply MT_HELLO_ACK (encode_obs_ack True (authority_decision_num AD_ACCEPTED)
      (c_accepted_total c') []) c' = (Ok (CN_Continue, [b]), c')"
    "frame_decode b = Ok \<lparr>f_version = kProtocolVersion, f_type = MT_HELLO_ACK, f_payload = q\<rparr>"
    "decode_obs_ack q = Ok \<lparr>k_accepted = True, k_decision = authority_decision_num AD_ACCEPTED,
       k_accepted_total = c_accepted_total c', k_reason = []\<rparr>"
    using ack_reply [of "[]"] by force
  then show ?thesis by (simp add: handle_frame_def h r reads_as_def total)
qed

lemma event_handled:
  assumes "event_sendable e" and "event_frame e = Ok data"
  shows "\<exists>f ack. frame_decode data = Ok f \<and> handle_frame f c = (Ok (CN_Continue, [ack]), event_step e c) \<and>
    reads_as ack (event_reply e c)"
proof (cases e)
  case (EvHello h)
  obtain p where p: "hello_ok h" "encode_hello h = Ok p" "length p \<le> max_frame_payload"
    using assms(1) by (auto simp: EvHello split: sum.splits)
  have "frame_decode data = Ok \<lparr>f_version = kProtocolVersion, f_type = MT_HELLO, f_payload = p\<rparr>"
    using assms(2) p by (simp add: EvHello event_frame_def decode_ok_iff)
  then show ?thesis using hello_handled [OF p(1,2), of kProtocolVersion c] by (auto simp: EvHello)
next
  case (EvObs ob)
  obtain p where p: "obs_ok ob" "encode_observation_payload ob = Ok p" "length p \<le> max_frame_payload"
    using assms(1) by (auto simp: EvObs sendable_def split: sum.splits)
  have d: "frame_decode data = Ok \<lparr>f_version = kProtocolVersion, f_type = MT_OBS, f_payload = p\<rparr>"
    using assms(2) p by (simp add: EvObs event_frame_def decode_ok_iff)
  obtain ack f k where h: "handle_frame \<lparr>f_version = kProtocolVersion, f_type = MT_OBS, f_payload = p\<rparr> c =
      (Ok (CN_Continue, [ack]), snd (ingest ob c))" "frame_decode ack = Ok f" "f_type f = MT_OBS_ACK"
      "decode_obs_ack (f_payload f) = Ok k" "k_accepted k = i_accepted (fst (ingest ob c))"
      "k_decision k = i_decision (fst (ingest ob c))" "k_accepted_total k = i_accepted_total (fst (ingest ob c))"
      "k_reason k = i_reason (fst (ingest ob c))"
    using handle_obs [OF p(1,2), of kProtocolVersion c] by blast
  then have "reads_as ack (event_reply e c)"
    by (auto simp: EvObs reads_as_def Let_def intro!: obs_ack_payload.equality)
  then show ?thesis using d h(1) by (auto simp: EvObs)
qed

lemma turn_handles:
  assumes "delivers recv pending" and "event_sendable e" and "event_frame e = Ok data" and "pending s = data @ rest"
  shows "\<exists>ack s'. client_turn recv stop (Some s) c = ((Ok (CN_Continue, [ack]), event_step e c), Some s') \<and>
    pending s' = rest \<and> reads_as ack (event_reply e c)"
proof -
  obtain f ack where f: "frame_decode data = Ok f" "handle_frame f c = (Ok (CN_Continue, [ack]), event_step e c)"
      "reads_as ack (event_reply e c)"
    using event_handled [OF assms(2,3)] by blast
  obtain s' where "recv_frame recv (Some s) = (Ok (Some data), Some s')" "pending s' = rest"
    using recv_frame_delivers [OF assms(1) f(1) assms(4)] by blast
  then show ?thesis using f by (auto simp: client_turn_def)
qed

lemma loop_serves:
  assumes "delivers recv pending" and "list_all event_sendable es" and "map event_frame es = map Ok ds"
    and "pending s = concat ds @ rest" and "length stops = length es"
  shows "\<exists>outs s'. client_loop recv stops (Some s) c = ((False, outs), run_events es c, Some s') \<and> pending s' = rest \<and>
    list_all2 reads_as outs (replies es c)"
  using assms(2-5)
proof (induction es arbitrary: ds stops s c)
  case (Cons e es)
  obtain stop stops' d ds' where split: "stops = stop # stops'" "ds = d # ds'" "event_frame e = Ok d" "map event_frame es = map Ok ds'"
    using Cons.prems(2,4) by (cases stops; cases ds) auto
  obtain ack s1 where s1: "client_turn recv stop (Some s) c = ((Ok (CN_Continue, [ack]), event_step e c), Some s1)"
      "pending s1 = concat ds' @ rest" "reads_as ack (event_reply e c)"
    using turn_handles [OF assms(1), of e d s "concat ds' @ rest" stop c] Cons.prems(1,3) split by auto
  obtain outs s' where "client_loop recv stops' (Some s1) (event_step e c) =
        ((False, outs), run_events es (event_step e c), Some s')" "pending s' = rest"
      "list_all2 reads_as outs (replies es (event_step e c))"
    using Cons.IH [of ds' s1 stops' "event_step e c"] Cons.prems(1,4) split s1(2) by auto
  then show ?case using s1 by (simp add: split)
qed simp

subsection \<open>A restarted source\<close>

text \<open>What the registry holds of the generation changes by the key's own HELLOs only.\<close>

lemma generation_kept:
  assumes "\<forall>e \<in> set es. event_key e = k \<longrightarrow> (\<exists>ob. e = EvObs ob)"
  shows "map_option a_src_gen (map_of (c_registry (run_events es c)) k) = map_option a_src_gen (map_of (c_registry c) k)"
  using assms
proof (induction es arbitrary: c)
  case (Cons e es)
  have "map_option a_src_gen (map_of (c_registry (event_step e c)) k) = map_option a_src_gen (map_of (c_registry c) k)"
  proof (cases "event_key e = k")
    case True
    then obtain ob where e: "e = EvObs ob" using Cons.prems by auto
    show ?thesis
    proof (cases "ingest_accepts ob c")
      case acc: True
      then have "accepts ob (c_registry c)" by (simp add: ingest_accepts_def)
      from validate_accepted [OF this, of k] show ?thesis
        using acc by (cases "k = obs_key ob"; cases "map_of (c_registry c) k") (auto simp: e ingest_accepted)
    qed (simp add: e ingest_rejected_same)
  qed (simp add: other_key)
  then show ?case using Cons by simp
qed simp

definition restarts :: "nat \<Rightarrow> 's source \<Rightarrow> 's source" where
  "restarts n src = ((\<lambda>src. snd (restart_boot src)) ^^ n) src"

lemma restarts_cfg:
  "cf_source (sr_cfg (restarts n src)) = cf_source (sr_cfg src) \<and> cf_worker (sr_cfg (restarts n src)) = cf_worker (sr_cfg src) \<and>
   cf_src_gen (sr_cfg (restarts n src)) = cf_src_gen (sr_cfg src) + of_nat n"
  by (induction n) (simp_all add: restarts_def restart_boot_def Let_def algebra_simps)

subsection \<open>Properties\<close>

text \<open>C24: A connection serves what it is sent: for a stream of HELLO and OBS frames of operations that the codec
  represents and that fit a frame, cut into any pieces, as many turns of the handler as there are
  frames leave the coordinator in the state after those operations, in that order and once each, leave
  the bytes after them for the next turn, and send for each one frame that decodes to its answer:
  the acceptance of a HELLO, and the decision, total and reason of an observation.\<close>

theorem client_loop_serves:
  assumes "delivers recv pending" and "list_all event_sendable es" and "map event_frame es = map Ok ds"
    and "pending s = concat ds @ rest" and "length stops = length es"
  shows "\<exists>outs s'. client_loop recv stops (Some s) c = ((False, outs), run_events es c, Some s') \<and> pending s' = rest \<and>
    list_all2 reads_as outs (replies es c)"
  using assms by (rule loop_serves)

theorem client_loop_serves_witness:
  "\<exists>d1 d2 outs. event_frame (EvHello (hello_of (sr_cfg sample_source))) = Ok d1 \<and>
     event_frame (EvObs default_observation) = Ok d2 \<and>
     client_loop drip_recv [False, True] (Some (d1 @ d2 @ [9])) new_coordinator =
       ((False, outs), run_events [EvHello (hello_of (sr_cfg sample_source)), EvObs default_observation] new_coordinator, Some [9]) \<and>
     length outs = 2"
proof -
  let ?es = "[EvHello (hello_of (sr_cfg sample_source)), EvObs default_observation]"
  obtain p where p: "hello_ok (hello_of (sr_cfg sample_source))" "encode_hello (hello_of (sr_cfg sample_source)) = Ok p"
      "length p \<le> max_frame_payload"
    by (rule sample_hello)
  obtain q where q: "obs_ok default_observation" "encode_observation_payload default_observation = Ok q"
      "length q \<le> max_frame_payload"
    using default_payload by blast
  have ok: "list_all event_sendable ?es" using p q by (simp add: sendable_def)
  obtain d1 d2 where d: "event_frame (EvHello (hello_of (sr_cfg sample_source))) = Ok d1"
      "event_frame (EvObs default_observation) = Ok d2"
    using p(2) q(2) by (simp add: event_frame_def frame_encode_eq)
  have drip: "delivers drip_recv (\<lambda>s. s)" by (auto simp: delivers_def drip_recv_def neq_Nil_conv)
  obtain outs s' where "client_loop drip_recv [False, True] (Some (d1 @ d2 @ [9])) new_coordinator =
        ((False, outs), run_events ?es new_coordinator, Some s')" "s' = [9]"
      "list_all2 reads_as outs (replies ?es new_coordinator)"
    using client_loop_serves [OF drip ok, of "[d1, d2]" "d1 @ d2 @ [9]" "[9]" "[False, True]" new_coordinator] d by auto
  then show ?thesis using d by (auto dest: list_all2_lengthD)
qed

text \<open>C22: A restarted source never continues an old authority: after any number of restarts below $2^{64}$ and the HELLO of the
  latest, whatever the coordinator held before, every observation of the generation before the restarts
  (its own source and worker, any content) is rejected, also after any further operations of any
  source, as long as the same source and worker say no other HELLO.\<close>

theorem restarted_source_disowns_old:
  assumes "0 < n" and "n < 2 ^ 64"
    and "\<forall>e \<in> set es. event_key e = key_of (cf_source (sr_cfg src)) (cf_worker (sr_cfg src)) \<longrightarrow> (\<exists>ob. e = EvObs ob)"
    and "obs_key ob = key_of (cf_source (sr_cfg src)) (cf_worker (sr_cfg src))" and "o_src_gen ob = cf_src_gen (sr_cfg src)"
  shows "\<not> i_accepted (fst (ingest ob (run_events es (snd (register_hello (hello_of (sr_cfg (restarts n src))) c)))))"
proof -
  let ?cfg = "sr_cfg (restarts n src)" and ?k = "key_of (cf_source (sr_cfg src)) (cf_worker (sr_cfg src))"
  let ?c = "snd (register_hello (hello_of ?cfg) c)"
  obtain a where a: "map_of (c_registry ?c) ?k = Some a" "a_src_gen a = cf_src_gen (sr_cfg src) + of_nat n"
    using hello_view [of ?cfg c] by (auto simp: restarts_cfg)
  have "(of_nat n :: u64) \<noteq> 0"
  proof
    assume "(of_nat n :: u64) = 0"
    then have "unat (of_nat n :: u64) = 0" by simp
    then show False using assms(1,2) by (simp add: unat_of_nat)
  qed
  then have "a_src_gen a \<noteq> o_src_gen ob" using a(2) assms(5) by simp
  moreover obtain a' where "map_of (c_registry (run_events es ?c)) ?k = Some a'" "a_src_gen a' = a_src_gen a"
    using generation_kept [OF assms(3), of ?c] a(1) by (auto simp: map_option_eq_Some)
  ultimately have "\<not> accepts ob (c_registry (run_events es ?c))"
    using assms(4) by (auto simp: accepts_iff admits_def)
  then show ?thesis by (simp add: ingest_accepted_iff ingest_accepts_def)
qed

theorem restarted_source_disowns_old_witness:
  "\<not> i_accepted (fst (ingest (make_request_observation OT_ADMISSION (Id128 1 1) 100 sample_source)
     (run_events [EvObs (make_observation OT_KV_HIT (restarts 2 sample_source))]
       (snd (register_hello (hello_of (sr_cfg (restarts 2 sample_source))) new_coordinator)))))"
  by (rule restarted_source_disowns_old)
     (simp_all add: make_request_observation_def set_field_def make_observation_envelope Let_def)

end
