(* ===== verification/TextViews.thy ===== *)
theory TextViews
  imports Views
begin

section \<open>The text views\<close>

text \<open>
  The functions that print results for a reader: \<^verbatim>\<open>latency_text\<close>, \<^verbatim>\<open>attribution_text\<close>,
  \<^verbatim>\<open>explanation_text\<close>, \<^verbatim>\<open>tail_text\<close>, \<^verbatim>\<open>comparison_text\<close> and \<^verbatim>\<open>counterfactual_text\<close>, with what
  \<^verbatim>\<open>snprintf\<close> does for the conversions they use: fields padded on the right, doubles with a fixed
  number of decimals, and the cut at the size of the buffer.
\<close>

subsection \<open>Conversions\<close>

definition nl :: string where
  "nl = [CHR 0x0A]"

text \<open>\<^verbatim>\<open>s.c_str()\<close> handed to a \<^verbatim>\<open>%s\<close> ends at the first zero byte.\<close>

definition c_str :: "string \<Rightarrow> string" where
  "c_str s = takeWhile (\<lambda>c. c \<noteq> CHR 0x00) s"

text \<open>\<^verbatim>\<open>%-Ns\<close>, and the cut of \<^verbatim>\<open>snprintf(buf, size, ...)\<close>.\<close>

definition pad_right :: "nat \<Rightarrow> string \<Rightarrow> string" where
  "pad_right n s = s @ replicate (n - length s) (CHR '' '')"

definition snprintf_cut :: "nat \<Rightarrow> string \<Rightarrow> string" where
  "snprintf_cut n s = take (n - 1) s"

text \<open>\<^verbatim>\<open>%.Nf\<close>: the exact value rounded to \<^verbatim>\<open>N\<close> decimals, half to even.\<close>

definition fixed_digits :: "nat \<Rightarrow> nat \<Rightarrow> string" where
  "fixed_digits d m =
     (let ds = dec_string m; full = replicate (d + 1 - length ds) (CHR ''0'') @ ds;
          k = length full - d
      in take k full @ ''.'' @ drop k full)"

definition format_fixed :: "nat \<Rightarrow> f64 \<Rightarrow> string" where
  "format_fixed d v =
     (let sgn = (if f64_neg v then ''-'' else [])
      in if f64_is_nan v then sgn @ ''nan''
         else if f64_is_inf v then sgn @ ''inf''
         else sgn @ fixed_digits d (round_half_even (f64_mag v * 10 ^ d) (2 ^ 1074)))"

definition bool_digit :: "bool \<Rightarrow> string" where
  "bool_digit b = (if b then ''1'' else ''0'')"

subsection \<open>Latency and attribution\<close>

definition component_line :: "latency_component \<Rightarrow> string" where
  "component_line c = snprintf_cut 256
     (pad_right 14 (l_name c) @ '' dur='' @ pad_right 12 (to_string_word (l_duration_ns c)) @
      '' excl='' @ pad_right 12 (to_string_word (l_exclusive_ns c)) @
      '' pct='' @ pad_right 8 (format_fixed 3 (l_percent_of_total c)) @
      '' crit='' @ bool_digit (l_on_critical_path c) @
      '' prov='' @ provenance_name (l_provenance c) @ nl)"

definition latency_text :: "latency_breakdown \<Rightarrow> nat \<Rightarrow> string" where
  "latency_text b indent =
     (let pad = replicate (indent * 2) (CHR '' '')
      in pad @ ''total_ns: '' @ to_string_word (b_total_ns b) @ ''  covered_ns: '' @
         to_string_word (b_covered_ns b) @ ''  gap_ns: '' @ to_string_word (b_gap_ns b) @ nl @
         concat (map (\<lambda>c. pad @ component_line c) (b_components b)))"

definition attribution_text :: "resource_attribution \<Rightarrow> string" where
  "attribution_text a =
     ''  queue_ns='' @ to_string_word (at_queue_time a) @
     '' batch_ns='' @ to_string_word (at_batch_wait a) @
     '' dispatch_ns='' @ to_string_word (at_dispatch_delay a) @ nl @
     ''  transfer_ns='' @ to_string_word (at_transfer_time a) @
     '' prefill_ns='' @ to_string_word (at_prefill_time a) @
     '' first_tok_ns='' @ to_string_word (at_first_token_latency a) @ nl @
     ''  decode_ns='' @ to_string_word (at_decode_time a) @
     '' itl_ms='' @ snprintf_cut 256 (format_fixed 3 (at_inter_token_ms a)) @
     '' total_ns='' @ to_string_word (at_total_latency a) @ nl @
     ''  gpu_ns='' @ to_string_word (at_gpu_exec_time a) @
     '' cpu_ns='' @ to_string_word (at_cpu_exec_time a) @ nl @
     ''  bytes h2d='' @ to_string_word (at_bytes_h2d a) @ '' d2h='' @ to_string_word (at_bytes_d2h a) @
     '' kv='' @ to_string_word (at_bytes_kv a) @ '' tensor='' @ to_string_word (at_bytes_tensor a) @ nl @
     ''  kv hit='' @ to_string_word (at_kv_hits a) @ '' miss='' @ to_string_word (at_kv_misses a) @
     '' kernel h='' @ to_string_word (at_kernel_hits a) @ '' m='' @ to_string_word (at_kernel_misses a) @
     '' spec p='' @ to_string_word (at_spec_proposed a) @ '' a='' @ to_string_word (at_spec_accepted a) @
     '' r='' @ to_string_word (at_spec_rejected a) @ nl"

subsection \<open>Explanations\<close>

definition statement_line :: "explanation_statement \<Rightarrow> string" where
  "statement_line s =
     ''  ['' @ explanation_class_name (s_cls s) @ ''/'' @ provenance_name (s_provenance s) @ ''] '' @
     s_claim s @ (if s_evidence s = [] then [] else ''  ('' @ s_evidence s @ '')'') @ nl"

definition explanation_text :: "explanation \<Rightarrow> string" where
  "explanation_text e =
     ''explanation for request '' @ to_hex (x_request_id e) @ nl @
     concat (map statement_line (x_statements e))"

definition factor_lines :: "tail_factor \<Rightarrow> string" where
  "factor_lines f =
     snprintf_cut 128 (''  factor='' @ pad_right 16 (tf_name f) @ '' sev='' @
       pad_right 8 (format_fixed 3 (tf_severity f)) @ '' class='' @ explanation_class_name (tf_cls f) @ nl) @
     (if tf_note f = [] then [] else ''      note: '' @ tf_note f @ nl)"

definition tail_text :: "tail_explanation \<Rightarrow> string" where
  "tail_text e =
     ''tail request '' @ to_hex (te_request_id e) @ '' latency_ns='' @ to_string_word (te_latency_ns e) @ nl @
     concat (map factor_lines (te_factors e))"

subsection \<open>Comparison and counterfactuals\<close>

definition delta_line :: "string \<times> i64 \<Rightarrow> string" where
  "delta_line d = snprintf_cut 200
     (''  phase '' @ pad_right 14 (fst d) @ '' delta_ns='' @ to_string_int (sint (snd d)) @ nl)"

definition comparison_text :: "trace_comparison \<Rightarrow> string" where
  "comparison_text c =
     snprintf_cut 200 (''compare '' @ to_hex (tc_request_a c) @ '' vs '' @ to_hex (tc_request_b c) @
       '': total '' @ to_string_word (tc_total_a c) @ '' -> '' @ to_string_word (tc_total_b c) @
       '' ns (delta '' @ to_string_int (sint (tc_delta_total c)) @ '' ns)'' @ nl) @
     concat (map delta_line (tc_phase_deltas c))"

definition counterfactual_text :: "counterfactual_result \<Rightarrow> string" where
  "counterfactual_text r =
     snprintf_cut 160 (''counterfactual rule='' @ counterfactual_rule_name (cr_rule r) @
       '' original_ns='' @ to_string_word (cr_original_total r) @
       '' cf_ns='' @ to_string_word (cr_counterfactual_total r) @
       '' delta_ns='' @ to_string_int (sint (cr_delta_ns r)) @
       '' ('' @ format_fixed 2 (cr_delta_percent r) @ ''%)'' @ nl) @
     concat (map (\<lambda>s. ''  changed: '' @ s @ nl) (cr_changed_inputs r)) @
     concat (map (\<lambda>s. ''  derived: '' @ s @ nl) (cr_derived_differences r)) @
     ''  provenance='' @ provenance_name (cr_provenance r) @ '' class='' @ explanation_class_name (cr_cls r) @ nl"

end
