(* ===== verification/Script.thy ===== *)
theory Script
  imports Persistence Connections TextViews FloatExact
begin

section \<open>Command line, scripts and ingestion\<close>

text \<open>
  The first half of \<^verbatim>\<open>apps/obscli/cli.cpp\<close>: the command line's options, the observation scripts
  and how a script's values become typed fields, and the command that ingests a script into a
  coordinator and saves the archive, with what \<^verbatim>\<open>strtoull\<close>, \<^verbatim>\<open>atof\<close>, \<^verbatim>\<open>getline\<close> and \<^verbatim>\<open>operator>>\<close> do
  in the C locale. A command gives its exit code and what it prints; an exception no one catches
  is the left side of the result.
\<close>

subsection \<open>Numbers in text\<close>

definition is_space :: "char \<Rightarrow> bool" where
  "is_space c = (c \<in> set [CHR '' '', CHR 0x09, CHR 0x0A, CHR 0x0B, CHR 0x0C, CHR 0x0D])"

definition digit_value :: "char \<Rightarrow> nat" where
  "digit_value c =
     (if CHR ''0'' \<le> c \<and> c \<le> CHR ''9'' then of_char c - 48
      else if CHR ''a'' \<le> c \<and> c \<le> CHR ''z'' then of_char c - 87
      else if CHR ''A'' \<le> c \<and> c \<le> CHR ''Z'' then of_char c - 55
      else 36)"

definition digits_of :: "nat \<Rightarrow> string \<Rightarrow> string" where
  "digits_of base s = takeWhile (\<lambda>c. digit_value c < base) s"

definition digits_number :: "nat \<Rightarrow> string \<Rightarrow> nat" where
  "digits_number base ds = foldl (\<lambda>n c. n * base + digit_value c) 0 ds"

text \<open>An optional sign: whether it is a minus, and what follows it.\<close>

fun split_sign :: "string \<Rightarrow> bool \<times> string" where
  "split_sign (c # s) = (if c = CHR ''-'' then (True, s) else if c = CHR ''+'' then (False, s) else (False, c # s))"
| "split_sign [] = (False, [])"

text \<open>A value out of range is the largest one, whatever the sign; a minus negates modulo $2^{64}$.\<close>

definition u64_of_digits :: "bool \<Rightarrow> nat \<Rightarrow> u64" where
  "u64_of_digits neg n = (if 2 ^ 64 \<le> n then - 1 else if neg then - of_nat n else of_nat n)"

text \<open>\<^verbatim>\<open>0x\<close> is a prefix only before a hexadecimal digit.\<close>

definition hex_prefixed :: "string \<Rightarrow> bool" where
  "hex_prefixed s = (3 \<le> length s \<and> s ! 0 = CHR ''0'' \<and> (s ! 1 = CHR ''x'' \<or> s ! 1 = CHR ''X'') \<and>
     digit_value (s ! 2) < 16)"

text \<open>\<^verbatim>\<open>strtoull(s, nullptr, 0)\<close>\<close>

definition strtoull0 :: "string \<Rightarrow> u64" where
  "strtoull0 s =
     (let (neg, t) = split_sign (dropWhile is_space s)
      in if hex_prefixed t then u64_of_digits neg (digits_number 16 (digits_of 16 (drop 2 t)))
         else if prefix ''0'' t then u64_of_digits neg (digits_number 8 (digits_of 8 t))
         else u64_of_digits neg (digits_number 10 (digits_of 10 t)))"

text \<open>
  \<^verbatim>\<open>atof\<close>: a decimal with optional fraction and exponent, rounded once; infinities and NaN by
  name; hexadecimal floats; zero when no number is there.
\<close>

definition exponent_part :: "char list \<Rightarrow> string \<Rightarrow> int" where
  "exponent_part marks s =
     (case s of
        [] \<Rightarrow> 0
      | c # s' \<Rightarrow>
          if c \<notin> set marks then 0
          else let (neg, t) = split_sign s'; n = int (digits_number 10 (digits_of 10 t))
               in if neg then - n else n)"

definition scaled_number :: "bool \<Rightarrow> nat \<Rightarrow> nat \<Rightarrow> int \<Rightarrow> f64" where
  "scaled_number neg n base x = f64_round neg (n * base ^ nat x) (base ^ nat (- x))"

definition mantissa_digits :: "nat \<Rightarrow> string \<Rightarrow> (string \<times> string) \<times> string" where
  "mantissa_digits base s =
     (let whole = digits_of base s; s1 = drop (length whole) s
      in if prefix ''.'' s1
         then let frac = digits_of base (drop 1 s1) in ((whole, frac), drop (1 + length frac) s1)
         else ((whole, []), s1))"

definition lower_char :: "char \<Rightarrow> char" where
  "lower_char c = (if CHR ''A'' \<le> c \<and> c \<le> CHR ''Z'' then byte_char (char_byte c + 32) else c)"

definition hex_float :: "string \<Rightarrow> bool" where
  "hex_float s =
     (3 \<le> length s \<and> s ! 0 = CHR ''0'' \<and> lower_char (s ! 1) = CHR ''x'' \<and>
      fst (mantissa_digits 16 (drop 2 s)) \<noteq> ([], []))"

definition atof :: "string \<Rightarrow> f64" where
  "atof s =
     (let (neg, t) = split_sign (dropWhile is_space s); low = map lower_char t
      in if prefix ''inf'' low then f64_inf neg
         else if prefix ''nan'' low then f64_nan
         else if hex_float t
         then let ((whole, frac), rest) = mantissa_digits 16 (drop 2 t)
              in scaled_number neg (digits_number 16 (whole @ frac)) 2
                   (exponent_part ''pP'' rest - 4 * int (length frac))
         else let ((whole, frac), rest) = mantissa_digits 10 t
              in if whole = [] \<and> frac = [] then f64_zero False
                 else scaled_number neg (digits_number 10 (whole @ frac)) 10
                        (exponent_part ''eE'' rest - int (length frac)))"

subsection \<open>The command line\<close>

record args =
  a_all :: "string list"
  a_opts :: "(string, string) omap"
  a_positional :: "string list"
  a_program :: string

text \<open>
  \<^verbatim>\<open>s.substr(2)\<close> throws when \<open>s\<close> is a single character. The first character of the empty string is
  the terminating zero, which is not a dash, so an empty argument is taken for an option's value.
\<close>

definition is_option :: "string \<Rightarrow> bool" where
  "is_option s = prefix ''-'' s"

definition substr_from :: "nat \<Rightarrow> string \<Rightarrow> string result" where
  "substr_from k s = (if length s < k then Err ''basic_string::substr'' else Ok (drop k s))"

definition before_char :: "char \<Rightarrow> string \<Rightarrow> string" where
  "before_char c s = takeWhile (\<lambda>x. x \<noteq> c) s"

definition after_char :: "char \<Rightarrow> string \<Rightarrow> string" where
  "after_char c s = drop (Suc (length (before_char c s))) s"

text \<open>\<^verbatim>\<open>s.substr(2, eq - 2)\<close>: for \<^verbatim>\<open>eq = 1\<close> the length wraps round and is cut at the end.\<close>

definition option_key :: "string \<Rightarrow> string result" where
  "option_key s =
     (if length s < 2 then Err ''basic_string::substr''
      else if length (before_char (CHR ''='') s) = 1 then Ok (drop 2 s)
      else Ok (drop 2 (before_char (CHR ''='') s)))"

definition note_arg :: "string \<Rightarrow> args \<Rightarrow> args" where
  "note_arg s a = a\<lparr>a_all := a_all a @ [s]\<rparr>"

definition set_opt :: "string \<Rightarrow> string \<Rightarrow> args \<Rightarrow> args" where
  "set_opt key val a = a\<lparr>a_opts := omap_set key val (a_opts a)\<rparr>"

fun parse_rest :: "string list \<Rightarrow> args \<Rightarrow> args result" where
  "parse_rest [] a = Ok a"
| "parse_rest (s # rest) a =
     (let a1 = note_arg s a
      in if \<not> is_option s then parse_rest rest (a1\<lparr>a_positional := a_positional a1 @ [s]\<rparr>)
         else if CHR ''='' \<in> set s
         then (case option_key s of
                 Err e \<Rightarrow> Err e
               | Ok key \<Rightarrow> parse_rest rest (set_opt key (after_char (CHR ''='') s) a1))
         else (case substr_from 2 s of
                 Err e \<Rightarrow> Err e
               | Ok key \<Rightarrow>
                   (case rest of
                      val # rest' \<Rightarrow>
                        if \<not> is_option val then parse_rest rest' (set_opt key val a1)
                        else parse_rest rest (set_opt key ''true'' a1)
                    | [] \<Rightarrow> parse_rest rest (set_opt key ''true'' a1))))"

definition parse_args :: "string list \<Rightarrow> args result" where
  "parse_args argv =
     (let a = \<lparr>a_all = [], a_opts = [], a_positional = [], a_program = (case argv of [] \<Rightarrow> [] | p # _ \<Rightarrow> p)\<rparr>
      in parse_rest (drop 1 argv) a)"

text \<open>A command line with no arguments, for examples.\<close>

definition no_args :: args where
  "no_args = \<lparr>a_all = [], a_opts = [], a_positional = [], a_program = ''ingest''\<rparr>"

definition opt :: "args \<Rightarrow> string \<Rightarrow> string \<Rightarrow> string" where
  "opt a k def = (case map_of (a_opts a) k of None \<Rightarrow> def | Some v \<Rightarrow> v)"

definition flag :: "args \<Rightarrow> string \<Rightarrow> bool" where
  "flag a k = (case map_of (a_opts a) k of None \<Rightarrow> False | Some v \<Rightarrow> v \<noteq> ''false'' \<and> v \<noteq> ''0'')"

definition opt_u64 :: "args \<Rightarrow> string \<Rightarrow> u64 \<Rightarrow> u64" where
  "opt_u64 a k def =
     (let v = opt a k [] in if v = [] \<or> v = ''true'' then def else strtoull0 v)"

definition opt_f64 :: "args \<Rightarrow> string \<Rightarrow> f64 \<Rightarrow> f64" where
  "opt_f64 a k def =
     (let v = opt a k [] in if v = [] \<or> v = ''true'' then def else atof v)"

definition parse_id :: "string \<Rightarrow> id128" where
  "parse_id s = (case id_parse s of Ok v \<Rightarrow> v | Err e \<Rightarrow> Id128 0 (strtoull0 s))"

subsection \<open>Scripts\<close>

datatype entry_kind = EK_OBS | EK_SLEEP

record script_entry =
  se_kind :: entry_kind
  se_type :: obs_type
  se_obs_ts :: u64
  se_fields :: "(string, string) omap"
  se_sleep_ms :: u64

definition new_entry :: script_entry where [defaults]:
  "new_entry = \<lparr>se_kind = EK_OBS, se_type = OT_UNKNOWN, se_obs_ts = 0, se_fields = [], se_sleep_ms = 0\<rparr>"

text \<open>\<^verbatim>\<open>std::getline\<close> until it fails: the pieces before each newline, and a last one that is not empty.\<close>

function get_lines :: "string \<Rightarrow> string list" where
  "get_lines s =
     (if s = [] then []
      else before_char (CHR 0x0A) s # get_lines (after_char (CHR 0x0A) s))"
  by pat_completeness auto
termination
  by (relation "measure length") (auto simp: after_char_def)

declare get_lines.simps [simp del]

text \<open>
  A string stream is what is left to read, \<open>None\<close> once an extraction has failed. Extracting a
  word skips white space and takes characters up to the next; extracting a \<^verbatim>\<open>u64\<close> takes a sign
  and decimal digits. The target of a failed extraction is unchanged if nothing was there to
  read; otherwise a number becomes 0, or the largest value when it does not fit.
\<close>

type_synonym istream = "string option"

definition get_word :: "istream \<Rightarrow> string \<Rightarrow> string \<times> istream" where
  "get_word st old =
     (case st of
        None \<Rightarrow> (old, None)
      | Some s \<Rightarrow>
          (let t = dropWhile is_space s; w = takeWhile (\<lambda>c. \<not> is_space c) t
           in if t = [] then (old, None) else (w, Some (drop (length w) t))))"

definition get_u64 :: "istream \<Rightarrow> u64 \<Rightarrow> u64 \<times> istream" where
  "get_u64 st old =
     (case st of
        None \<Rightarrow> (old, None)
      | Some s \<Rightarrow>
          (let t = dropWhile is_space s; (neg, t1) = split_sign t; ds = digits_of 10 t1;
               n = digits_number 10 ds
           in if t = [] then (old, None)
              else if ds = [] then (0, None)
              else if 2 ^ 64 \<le> n then (- 1, None)
              else (u64_of_digits neg n, Some (drop (length ds) t1))))"

lemma get_word_shorter:
  assumes "get_word st old = (w, Some s)"
  shows "\<exists>r. st = Some r \<and> length s < length r"
proof -
  obtain r where r: "st = Some r" "dropWhile is_space r \<noteq> []"
      "s = drop (length (takeWhile (\<lambda>c. \<not> is_space c) (dropWhile is_space r))) (dropWhile is_space r)"
    using assms by (auto simp: get_word_def Let_def split: option.splits if_splits)
  obtain c t where t: "dropWhile is_space r = c # t" "\<not> is_space c"
    using r(2) hd_dropWhile [OF r(2)] by (cases "dropWhile is_space r") auto
  have "Suc (length t) \<le> length r"
    using length_dropWhile_le [of is_space r] by (simp add: t(1))
  then show ?thesis using r(1,3) by (simp add: t)
qed

text \<open>\<^verbatim>\<open>while (ss >> kv)\<close>: words until none is left; a word without \<^verbatim>\<open>=\<close> is ignored.\<close>

function get_fields :: "istream \<Rightarrow> (string, string) omap \<Rightarrow> (string, string) omap" where
  "get_fields st m =
     (case get_word st [] of
        (_, None) \<Rightarrow> m
      | (kv, Some s) \<Rightarrow>
          get_fields (Some s)
            (if CHR ''='' \<in> set kv then omap_set (before_char (CHR ''='') kv) (after_char (CHR ''='') kv) m
             else m))"
  by pat_completeness auto
termination
  by (relation "measure (\<lambda>(st, m). case st of None \<Rightarrow> 0 | Some s \<Rightarrow> Suc (length s))")
     (auto dest!: sym [of "(_, _)" "get_word _ _"] get_word_shorter)

declare get_fields.simps [simp del]


definition strip_eol :: "string \<Rightarrow> string" where
  "strip_eol s = rev (dropWhile (\<lambda>c. c = CHR 0x0D \<or> c = CHR 0x0A) (rev s))"

text \<open>\<open>junk\<close> is what the uninitialised \<^verbatim>\<open>u64 ms\<close> holds when a \<^verbatim>\<open>SLEEP\<close> line ends there.\<close>

definition parse_line :: "u64 \<Rightarrow> string \<Rightarrow> script_entry list" where
  "parse_line junk line =
     (let (kw, st) = get_word (Some (strip_eol line)) []
      in if kw = [] \<or> hd kw = CHR ''#'' then []
         else if kw = ''SLEEP''
         then [new_entry\<lparr>se_kind := EK_SLEEP, se_sleep_ms := fst (get_u64 st junk)\<rparr>]
         else if kw \<noteq> ''OBS'' then []
         else let (ty, st1) = get_word st []; (ts, st2) = get_u64 st1 0
              in [new_entry\<lparr>se_type := obs_type_from_code ty, se_obs_ts := ts, se_fields := get_fields st2 []\<rparr>])"

text \<open>What an input stream opened on a path delivers: \<open>None\<close> when it does not open.\<close>

type_synonym text_files = "string \<Rightarrow> string option"

definition parse_script :: "u64 \<Rightarrow> text_files \<Rightarrow> string \<Rightarrow> script_entry list result" where
  "parse_script junk files path =
     (case files path of
        None \<Rightarrow> Err (''cannot open script: '' @ path)
      | Some s \<Rightarrow> Ok (concat (map (parse_line junk) (get_lines s))))"

subsection \<open>From script entries to observations\<close>

definition hex_digit_chars :: string where
  "hex_digit_chars = ''0123456789abcdefABCDEF''"

definition script_value :: "string \<Rightarrow> field_value" where
  "script_value v =
     (if length v = 32 \<and> set v \<subseteq> set hex_digit_chars then FvId (parse_id v)
      else if v = ''true'' \<or> v = ''false'' \<or> v = ''1'' \<or> v = ''0'' then FvBool (v = ''true'' \<or> v = ''1'')
      else if set v \<inter> set ''.eE'' \<noteq> {} \<and> set v \<subseteq> set ''0123456789.+-eE'' then FvF64 (atof v)
      else if set v \<subseteq> set ''0123456789'' then FvU64 (strtoull0 v)
      else FvStr v)"

definition script_field :: "string \<times> string \<Rightarrow> observation \<Rightarrow> observation" where
  "script_field kv ob =
     (let (k, v) = kv
      in if k = ''request'' then set_field ''request_id'' (FvId (parse_id v)) ob
         else if k = ''recv'' then ob\<lparr>o_has_recv_ts := True, o_recv_ts := strtoull0 v\<rparr>
         else if k = ''is_warm'' then set_field ''is_warm'' (FvBool (v = ''true'' \<or> v = ''1'')) ob
         else set_field k (script_value v) ob)"

text \<open>\<^verbatim>\<open>apply_entry\<close>: the observation an entry makes under a configuration and a sequence number.\<close>

definition entry_observation :: "source_config \<Rightarrow> u64 \<Rightarrow> script_entry \<Rightarrow> observation" where
  "entry_observation cfg seq e =
     (let ob = default_observation\<lparr>o_type := se_type e, o_source := cf_source cfg, o_worker := cf_worker cfg,
            o_boot := cf_boot cfg, o_src_gen := cf_src_gen cfg, o_obs_gen := cf_obs_gen cfg,
            o_epoch := cf_epoch cfg, o_clock_domain := cf_clock_domain cfg, o_seq := seq,
            o_provenance := PV_MEASURED\<rparr>;
          ob1 = (if se_obs_ts e \<noteq> 0 then ob\<lparr>o_has_obs_ts := True, o_obs_ts := se_obs_ts e\<rparr> else ob);
          ob2 = fold script_field (se_fields e) ob1
      in ob2\<lparr>o_id := derive_observation_id (o_source ob2) (o_worker ob2) (o_boot ob2) (o_seq ob2) (o_type ob2)\<rparr>)"

definition apply_entry :: "'s source \<Rightarrow> script_entry \<Rightarrow> u64 \<Rightarrow> observation \<times> u64" where
  "apply_entry src e seq = (let seq' = seq + 1 in (entry_observation (sr_cfg src) seq' e, seq'))"

subsection \<open>The ingest command\<close>

record cmd_result =
  cm_code :: int
  cm_out :: string
  cm_err :: string

definition fails :: "int \<Rightarrow> string \<Rightarrow> cmd_result" where
  "fails code msg = \<lparr>cm_code = code, cm_out = [], cm_err = msg\<rparr>"

definition prints :: "int \<Rightarrow> string \<Rightarrow> cmd_result" where
  "prints code s = \<lparr>cm_code = code, cm_out = s, cm_err = []\<rparr>"

definition ingest_config :: "args \<Rightarrow> source_config" where
  "ingest_config a =
     \<lparr>cf_source = parse_id (opt a ''source'' ''00000000000000000000000000000001''),
      cf_worker = parse_id (opt a ''worker'' ''00000000000000000000000000000002''),
      cf_boot = parse_id (opt a ''boot'' ''00000000000000000000000000000003''),
      cf_src_gen = opt_u64 a ''src-gen'' 1, cf_obs_gen = opt_u64 a ''obs-gen'' 1,
      cf_epoch = opt_u64 a ''epoch'' 1, cf_clock_domain = ''mono_ns'', cf_role = ''worker''\<rparr>"

definition ingest_hello :: "source_config \<Rightarrow> hello_payload" where
  "ingest_hello cfg =
     \<lparr>h_source = cf_source cfg, h_worker = cf_worker cfg, h_boot = cf_boot cfg, h_src_gen = cf_src_gen cfg,
      h_obs_gen = cf_obs_gen cfg, h_epoch = cf_epoch cfg, h_clock_domain = ''mono_ns'', h_role = [], h_extra = []\<rparr>"

text \<open>One turn of the loop over the entries; the sequence number and the two counts beside the coordinator.\<close>

record ingest_run =
  ir_coord :: coordinator
  ir_seq :: u64
  ir_accepted :: u64
  ir_stale :: u64

text \<open>
  The command has its own copy of \<^verbatim>\<open>apply_entry\<close>'s body: one chain of conditions for the fields, and a
  fixed clock domain.
\<close>

definition ingest_field :: "string \<times> string \<Rightarrow> observation \<Rightarrow> observation" where
  "ingest_field kv ob =
     (let (k, v) = kv
      in if k = ''request'' then set_field ''request_id'' (FvId (parse_id v)) ob
         else if k = ''recv'' then ob\<lparr>o_has_recv_ts := True, o_recv_ts := strtoull0 v\<rparr>
         else if k = ''is_warm'' then set_field ''is_warm'' (FvBool (v = ''true'' \<or> v = ''1'')) ob
         else if length v = 32 \<and> set v \<subseteq> set ''0123456789abcdefABCDEF'' then set_field k (FvId (parse_id v)) ob
         else if v = ''true'' \<or> v = ''false'' \<or> v = ''1'' \<or> v = ''0'' then set_field k (FvBool (v = ''true'' \<or> v = ''1'')) ob
         else if set v \<inter> set ''.eE'' \<noteq> {} \<and> set v \<subseteq> set ''0123456789.+-eE'' then set_field k (FvF64 (atof v)) ob
         else if set v \<subseteq> set ''0123456789'' then set_field k (FvU64 (strtoull0 v)) ob
         else set_field k (FvStr v) ob)"

definition ingest_observation :: "source_config \<Rightarrow> u64 \<Rightarrow> script_entry \<Rightarrow> observation" where
  "ingest_observation cfg seq e =
     (let ob = default_observation\<lparr>o_type := se_type e, o_source := cf_source cfg, o_worker := cf_worker cfg,
            o_boot := cf_boot cfg, o_src_gen := cf_src_gen cfg, o_obs_gen := cf_obs_gen cfg,
            o_epoch := cf_epoch cfg, o_clock_domain := ''mono_ns'', o_seq := seq,
            o_provenance := PV_MEASURED\<rparr>;
          ob1 = (if se_obs_ts e \<noteq> 0 then ob\<lparr>o_has_obs_ts := True, o_obs_ts := se_obs_ts e\<rparr> else ob);
          ob2 = fold ingest_field (se_fields e) ob1
      in ob2\<lparr>o_id := derive_observation_id (o_source ob2) (o_worker ob2) (o_boot ob2) (o_seq ob2) (o_type ob2)\<rparr>)"

definition ingest_entry :: "source_config \<Rightarrow> script_entry \<Rightarrow> ingest_run \<Rightarrow> ingest_run" where
  "ingest_entry cfg e r =
     (if se_kind e \<noteq> EK_OBS then r
      else let seq = ir_seq r + 1; (ir, c) = ingest (ingest_observation cfg seq e) (ir_coord r)
           in if i_accepted ir then r\<lparr>ir_coord := c, ir_seq := seq, ir_accepted := ir_accepted r + 1\<rparr>
              else r\<lparr>ir_coord := c, ir_seq := seq, ir_stale := ir_stale r + 1\<rparr>)"

definition ingest_start :: "source_config \<Rightarrow> ingest_run" where
  "ingest_start cfg =
     \<lparr>ir_coord = snd (register_hello (ingest_hello cfg) (set_epoch (cf_epoch cfg) new_coordinator)),
      ir_seq = 0, ir_accepted = 0, ir_stale = 0\<rparr>"

definition ingest_entries :: "source_config \<Rightarrow> script_entry list \<Rightarrow> ingest_run" where
  "ingest_entries cfg es = fold (ingest_entry cfg) es (ingest_start cfg)"

definition ingest_report :: "ingest_run \<Rightarrow> archive result \<Rightarrow> cmd_result" where
  "ingest_report r saved =
     (let counts = ''accepted='' @ to_string_word (ir_accepted r) @ '' stale='' @ to_string_word (ir_stale r)
      in case saved of
           Err e \<Rightarrow> prints 3 (counts @ '' saved=0'' @ nl)
         | Ok ar \<Rightarrow> prints 0 (counts @ '' saved=1'' @ nl @
                      ''evidence_digest='' @ digest_hex (ar_evidence_digest ar) @ nl))"

definition cmd_ingest :: "u64 \<Rightarrow> text_files \<Rightarrow> (string \<Rightarrow> write_outcome) \<Rightarrow> disk \<Rightarrow> args \<Rightarrow>
    cmd_result result \<times> disk" where
  "cmd_ingest junk files st d a =
     (let cfg = ingest_config a
      in case parse_script junk files (opt a ''script'' []) of
           Err e \<Rightarrow> (Ok (fails 2 (''ingest: '' @ e @ nl)), d)
         | Ok es \<Rightarrow>
             (let r = ingest_entries cfg es
              in case save_archive st d (ir_coord r) (opt a ''out'' ''coord.sobs'') of
                   (Err e, d') \<Rightarrow> (Err e, d')
                 | (Ok saved, d') \<Rightarrow> (Ok (ingest_report r saved), d')))"

subsection \<open>Decimal numbers\<close>

lemma digit_cases:
  assumes "n < (10 :: nat)"
  shows "digit_value (char_of (48 + n)) = n \<and> \<not> is_space (char_of (48 + n)) \<and>
    char_of (48 + n) \<in> set ''0123456789'' \<and> (char_of (48 + n) = CHR ''0'' \<longleftrightarrow> n = 0)"
proof -
  have "n \<in> {0, 1, 2, 3, 4, 5, 6, 7, 8, 9}" using assms by simp presburger
  then show ?thesis
    by (elim insertE emptyE)
       (simp_all add: digit_value_def is_space_def char_byte_def less_eq_char_def char_of_def bit_Suc_0_iff)
qed

lemma dec_string_all:
  assumes "\<And>k :: nat. k < 10 \<Longrightarrow> P (char_of (48 + k))"
  shows "\<forall>c \<in> set (dec_string n). P c"
proof (induction n rule: less_induct)
  case (less n)
  show ?case
    using less.IH [of "n div 10"] assms [of n] assms [of "n mod 10"]
    by (cases "n < 10") (simp_all add: dec_string.simps [of n])
qed

lemma digits_number_dec [simp]: "digits_number 10 (dec_string n) = n"
proof (induction n rule: less_induct)
  case (less n)
  then show ?case
    using digit_cases [of n] digit_cases [of "n mod 10"]
    by (subst dec_string.simps) (simp add: digits_number_def)
qed

lemma digits_of_dec:
  assumes "rest = [] \<or> is_space (hd rest)"
  shows "digits_of 10 (dec_string n @ rest) = dec_string n"
proof -
  have "\<forall>c \<in> set (dec_string n). digit_value c < 10"
    by (rule dec_string_all) (simp add: digit_cases)
  moreover have "\<not> digit_value c < 10" if "is_space c" for c
    using that by (auto simp: is_space_def digit_value_def less_eq_char_def)
  ultimately show ?thesis
    using assms by (cases rest) (simp_all add: digits_of_def)
qed

lemma hd_dec_string: "hd (dec_string n) = CHR ''0'' \<longleftrightarrow> n = 0"
proof (induction n rule: less_induct)
  case (less n)
  have "dec_string (n div 10) \<noteq> []" using dec_string_digits by blast
  then show ?case
    using less.IH [of "n div 10"] digit_cases [of n] by (subst dec_string.simps) auto
qed


lemma no_space_word:
  assumes "\<forall>c \<in> set w. \<not> is_space c" and "rest = [] \<or> is_space (hd rest)"
  shows "takeWhile (\<lambda>c. \<not> is_space c) (w @ rest) = w"
  using assms by (cases rest) simp_all

lemma skip_space:
  assumes "w \<noteq> []" and "\<not> is_space (hd w)" and "\<forall>c \<in> set sp. is_space c"
  shows "dropWhile is_space (sp @ w) = w"
  using assms by (cases w) simp_all

definition plain :: "string \<Rightarrow> bool" where
  "plain w \<longleftrightarrow> (\<forall>c \<in> set w. \<not> is_space c)"

lemma plain_simps [simp]:
  "plain []" "plain (c # w) \<longleftrightarrow> \<not> is_space c \<and> plain w" "plain (v @ w) \<longleftrightarrow> plain v \<and> plain w"
  by (auto simp: plain_def)

lemma get_word_plain:
  assumes "w \<noteq> []" and "plain w" and "rest = [] \<or> is_space (hd rest)" and "\<forall>c \<in> set sp. is_space c"
  shows "get_word (Some (sp @ w @ rest)) old = (w, Some rest)"
proof -
  have "\<not> is_space (hd w)" using assms(1,2) by (simp add: plain_def)
  then have "dropWhile is_space (sp @ w @ rest) = w @ rest"
    using assms(1,4) by (intro skip_space) auto
  moreover have "takeWhile (\<lambda>c. \<not> is_space c) (w @ rest) = w"
    using assms(2,3) by (intro no_space_word) (auto simp: plain_def)
  ultimately show ?thesis using assms(1) by (simp add: get_word_def Let_def)
qed

lemma plain_dec: "plain (dec_string n)"
  unfolding plain_def by (rule dec_string_all) (simp add: digit_cases)

lemma sign_dec: "split_sign (dec_string n @ rest) = (False, dec_string n @ rest)"
proof -
  obtain c s where c: "dec_string n = c # s" using dec_string_digits by (cases "dec_string n") auto
  have "\<forall>c \<in> set (dec_string n). c \<noteq> CHR ''-'' \<and> c \<noteq> CHR ''+''"
    by (rule dec_string_all) (use digit_cases in fastforce)
  then show ?thesis by (simp add: c)
qed

lemma get_u64_dec:
  assumes "rest = [] \<or> is_space (hd rest)" and "\<forall>c \<in> set sp. is_space c"
  shows "get_u64 (Some (sp @ to_string_word ts @ rest)) old = (ts, Some rest)"
proof -
  let ?w = "dec_string (unat ts)"
  have ne: "?w \<noteq> []" using dec_string_digits by blast
  have "\<not> is_space (hd ?w)" using plain_dec [of "unat ts"] hd_in_set [OF ne] unfolding plain_def by blast
  then have "dropWhile is_space (sp @ ?w @ rest) = ?w @ rest"
    using ne assms(2) by (intro skip_space) auto
  moreover have "\<not> 2 ^ 64 \<le> unat ts" using unsigned_less [of ts, where ?'a = nat] by simp
  ultimately show ?thesis
    using ne by (simp add: get_u64_def to_string_word_def sign_dec digits_of_dec [OF assms(1)] u64_of_digits_def)
qed

lemma strtoull0_dec:
  assumes "n < 2 ^ 64"
  shows "strtoull0 (dec_string n) = of_nat n"
proof -
  have ne: "dec_string n \<noteq> []" using dec_string_digits by blast
  have "dropWhile is_space (dec_string n) = dec_string n"
    using plain_dec ne skip_space [of "dec_string n" "[]"] by (simp add: plain_def)
  moreover have "digits_of 10 (dec_string n) = dec_string n"
    using digits_of_dec [of "[]"] by simp
  moreover have "split_sign (dec_string n) = (False, dec_string n)"
    using sign_dec [of n "[]"] by simp
  moreover have "hex_prefixed (dec_string n) \<or> prefix ''0'' (dec_string n) \<Longrightarrow> n = 0"
    using hd_dec_string [of n] ne by (cases "dec_string n") (auto simp: hex_prefixed_def)
  moreover have "strtoull0 (dec_string 0) = 0"
    by (simp add: dec_string.simps strtoull0_def is_space_def hex_prefixed_def digits_of_def digits_number_def
          digit_value_def u64_of_digits_def less_eq_char_def char_of_def bit_Suc_0_iff)
  ultimately show ?thesis
    using assms by (cases "n = 0") (auto simp: strtoull0_def u64_of_digits_def)
qed

lemma script_value_dec:
  assumes "n < 2 ^ 64"
  shows "script_value (dec_string n) = (if n < 2 then FvBool (n = 1) else FvU64 (of_nat n))"
proof -
  have len: "length (dec_string n) \<noteq> 32"
    using length_dec_string [of 20 n] assms by simp
  have digs: "set (dec_string n) \<subseteq> set ''0123456789''"
    using dec_string_digits [of n] by (simp add: digit_chars_def)
  then have "set (dec_string n) \<inter> set ''.eE'' = {}" by auto
  moreover have "dec_string n \<noteq> ''true''" "dec_string n \<noteq> ''false''"
    using digs by auto
  moreover have "dec_string 1 = ''1''" "dec_string 0 = ''0''"
    by (simp_all add: dec_string.simps char_of_def bit_Suc_0_iff)
  then have "dec_string n = ''1'' \<longleftrightarrow> n = 1" "dec_string n = ''0'' \<longleftrightarrow> n = 0"
    by (metis dec_string_inject)+
  ultimately show ?thesis
    using len digs strtoull0_dec [OF assms] by (auto simp: script_value_def)
qed

text \<open>A decimal number in a script is the field's value, except 0 and 1: those become booleans, and
  the field reads as its default.\<close>

theorem script_number:
  assumes "n < 2 ^ 64" and "k \<notin> {''request'', ''recv'', ''is_warm''}"
  shows "u64_field (script_field (k, dec_string n) ob) k def = (if n < 2 then def else of_nat n)"
  using assms by (simp add: script_field_def script_value_dec u64_field_def set_field_def)

theorem script_number_witness:
  "u64_field (script_field (''output_tokens'', dec_string 1) default_observation) ''output_tokens'' 0 = 0 \<and>
   u64_field (script_field (''input_tokens'', dec_string 64) default_observation) ''input_tokens'' 0 = 64"
  using script_number [of 1 "''output_tokens''" default_observation 0]
    script_number [of 64 "''input_tokens''" default_observation 0] by simp

lemma atof_overflow: "atof ''1e400'' = f64_inf False"
proof -
  have t: "split_sign (dropWhile is_space ''1e400'') = (False, ''1e400'')" "map lower_char ''1e400'' = ''1e400''"
    "\<not> prefix ''inf'' ''1e400''" "\<not> prefix ''nan'' ''1e400''" "\<not> hex_float ''1e400''"
    "mantissa_digits 10 ''1e400'' = ((''1'', []), ''e400'')" "exponent_part ''eE'' ''e400'' = 400"
    "digits_number 10 ''1'' = 1"
    by code_simp+
  have "f64_round False (1 * 10 ^ nat (400 - int 0)) (10 ^ nat (- (400 - int 0))) = f64_inf False"
    by (rule f64_round_overflow) simp_all
  then show ?thesis
    by (simp only: atof_def t Let_def prod.case if_False list.size append_Nil2 scaled_number_def
          list.distinct simp_thms)
qed

lemma script_value_overflow: "script_value ''1e400'' = FvF64 (f64_inf False)"
proof -
  have "set ''1e400'' \<inter> set ''.eE'' \<noteq> {}" "set ''1e400'' \<subseteq> set ''0123456789.+-eE''" by simp_all
  then show ?thesis by (simp only: script_value_def atof_overflow) simp
qed

text \<open>A number too large for a double becomes an infinity, which the codec writes and does not read: the
  ingest command stores such an observation, and no decoder takes its payload back.\<close>

lemma script_overflow_unreadable:
  assumes "se_fields e = [(k, ''1e400'')]" and "k \<notin> {''request'', ''recv'', ''is_warm''}"
    and "fits32 (length k)" and "fits32 (length (cf_clock_domain cfg))"
  shows "\<exists>bs m. encode_observation_payload (entry_observation cfg seq e) = Ok bs \<and>
    read_observation_payload bs = Err m"
proof -
  let ?ob = "entry_observation cfg seq e"
  have fields: "o_fields ?ob = [(k, FvF64 (f64_inf False))]"
    using assms(1,2) script_value_overflow
    by (simp add: entry_observation_def script_field_def set_field_def default_observation_def Let_def)
  have "obs_ok (?ob\<lparr>o_fields := []\<rparr>)"
    using assms by (simp add: entry_observation_def obs_ok_def fields_ok_def script_field_def set_field_def
        default_observation_def max_field_count_def Let_def)
  then have "writable ?ob"
    using assms(3) by (simp add: writable_def fields fv_fits_def max_field_count_def)
  then show ?thesis
    using nonfinite_rejected [of ?ob k "f64_inf False"] by (simp add: fields f64_inf_nonfinite)
qed


subsection \<open>A script and its entries\<close>

definition type_word :: "obs_type \<Rightarrow> string" where
  "type_word t = (case find (\<lambda>p. snd p = t) obs_type_table of Some p \<Rightarrow> fst p | None \<Rightarrow> ''UNKNOWN'')"

definition field_word :: "string \<times> string \<Rightarrow> string" where
  "field_word kv = fst kv @ ''='' @ snd kv"

definition entry_text :: "script_entry \<Rightarrow> string" where
  "entry_text e =
     (case se_kind e of
        EK_SLEEP \<Rightarrow> ''SLEEP '' @ to_string_word (se_sleep_ms e)
      | EK_OBS \<Rightarrow> ''OBS '' @ type_word (se_type e) @ '' '' @ to_string_word (se_obs_ts e) @
                  concat (map (\<lambda>kv. '' '' @ field_word kv) (se_fields e)))"

definition field_plain :: "string \<times> string \<Rightarrow> bool" where
  "field_plain kv \<longleftrightarrow> plain (fst kv) \<and> CHR ''='' \<notin> set (fst kv) \<and> plain (snd kv)"

definition entry_plain :: "script_entry \<Rightarrow> bool" where
  "entry_plain e \<longleftrightarrow>
     (case se_kind e of
        EK_SLEEP \<Rightarrow> se_type e = OT_UNKNOWN \<and> se_obs_ts e = 0 \<and> se_fields e = []
      | EK_OBS \<Rightarrow> se_sleep_ms e = 0 \<and> omap_ok (se_fields e) \<and> list_all field_plain (se_fields e))"

text \<open>The same without an order of the fields; reading such a line sorts them, the last value of a key wins.\<close>

definition words_plain :: "script_entry \<Rightarrow> bool" where
  "words_plain e \<longleftrightarrow>
     (case se_kind e of
        EK_SLEEP \<Rightarrow> se_type e = OT_UNKNOWN \<and> se_obs_ts e = 0 \<and> se_fields e = []
      | EK_OBS \<Rightarrow> se_sleep_ms e = 0 \<and> list_all field_plain (se_fields e))"

definition sorted_fields :: "(string \<times> string) list \<Rightarrow> (string, string) omap" where
  "sorted_fields kvs = fold (\<lambda>(k, v). omap_set k v) kvs []"

definition read_entry :: "script_entry \<Rightarrow> script_entry" where
  "read_entry e = e\<lparr>se_fields := sorted_fields (se_fields e)\<rparr>"

lemma fold_omap_set_sorted:
  "omap_ok (m @ kvs) \<Longrightarrow> fold (\<lambda>(k, v). omap_set k v) kvs m = m @ kvs"
proof (induction kvs arbitrary: m)
  case (Cons kv kvs)
  obtain k v where kv: "kv = (k, v)" by (cases kv)
  have ok: "omap_ok ((m @ [(k, v)]) @ kvs)" using Cons.prems by (simp add: kv)
  from omap_ok_snocD [OF conjunct1 [OF omap_ok_appendD [OF this]]]
  have "omap_set k v m = m @ [(k, v)]" by (intro omap_set_append) simp
  then show ?case using Cons.IH [OF ok] by (simp add: kv)
qed simp

lemma entry_plain_words:
  assumes "entry_plain e"
  shows "words_plain e" and "read_entry e = e"
  using assms fold_omap_set_sorted [of "[]" "se_fields e"]
  by (cases "se_kind e"; simp add: entry_plain_def words_plain_def read_entry_def sorted_fields_def)+

lemma type_table:
  "list_all (\<lambda>p. list_all (\<lambda>c. \<not> is_space c) (fst p) \<and> fst p \<noteq> []) obs_type_table"
  "distinct (map fst obs_type_table)" "map_of obs_type_table ''UNKNOWN'' = None"
  "map snd obs_type_table = tl obs_types"
  by code_simp+

lemma type_word_cases:
  obtains "(type_word t, t) \<in> set obs_type_table" | "t = OT_UNKNOWN" "type_word t = ''UNKNOWN''"
proof (cases "find (\<lambda>p. snd p = t) obs_type_table")
  case None
  then have "t \<notin> set (map snd obs_type_table)" by (auto simp: find_None_iff)
  then have "t = OT_UNKNOWN"
    unfolding type_table(4) obs_types_def by (cases t) simp_all
  then show thesis using that(2) None by (simp add: type_word_def)
next
  case (Some p)
  then have "(fst p, t) \<in> set obs_type_table" by (auto simp: find_Some_iff)
  then show thesis using that(1) by (simp add: type_word_def Some)
qed

lemma type_word_code: "obs_type_from_code (type_word t) = t"
  by (rule type_word_cases [of t]) (simp_all add: obs_type_from_code_def type_table)

lemma type_word_plain: "plain (type_word t)" "type_word t \<noteq> []"
proof (atomize (full), rule type_word_cases [of t])
  assume "(type_word t, t) \<in> set obs_type_table"
  then show "plain (type_word t) \<and> type_word t \<noteq> []"
    using type_table(1) by (fastforce simp: list_all_iff plain_def)
qed (simp add: is_space_def)

lemma before_after_char:
  assumes "c \<notin> set k"
  shows "before_char c (k @ c # v) = k" "after_char c (k @ c # v) = v"
proof -
  show b: "before_char c (k @ c # v) = k"
    using assms by (induction k) (auto simp: before_char_def)
  show "after_char c (k @ c # v) = v"
    unfolding after_char_def b by simp
qed

lemma before_char_all: "c \<notin> set k \<Longrightarrow> before_char c k = k"
  by (simp add: before_char_def takeWhile_eq_all_conv) blast

lemma get_fields_text:
  assumes "list_all field_plain kvs"
  shows "get_fields (Some (concat (map (\<lambda>kv. '' '' @ field_word kv) kvs))) m = fold (\<lambda>(k, v). omap_set k v) kvs m"
  using assms
proof (induction kvs arbitrary: m)
  case Nil
  then show ?case by (subst get_fields.simps) (simp add: get_word_def)
next
  case (Cons kv kvs)
  let ?rest = "concat (map (\<lambda>kv. '' '' @ field_word kv) kvs)"
  obtain k v where kv: "kv = (k, v)" by (cases kv)
  have k: "plain k" "CHR ''='' \<notin> set k" "plain v" using Cons.prems by (simp_all add: kv field_plain_def)
  have w: "plain (field_word kv)" "field_word kv \<noteq> []"
    using k by (simp_all add: field_word_def kv is_space_def)
  have "?rest = [] \<or> is_space (hd ?rest)" by (cases kvs) (simp_all add: is_space_def)
  then have gw: "get_word (Some ('' '' @ field_word kv @ ?rest)) [] = (field_word kv, Some ?rest)"
    using w by (intro get_word_plain) (simp_all add: is_space_def)
  have "field_word kv = k @ CHR ''='' # v" by (simp add: field_word_def kv)
  then have "before_char (CHR ''='') (field_word kv) = k" "after_char (CHR ''='') (field_word kv) = v"
    by (simp_all only: before_after_char [OF k(2)])
  moreover have "CHR ''='' \<in> set (field_word kv)" by (simp add: field_word_def)
  ultimately have "get_fields (Some ('' '' @ field_word kv @ ?rest)) m = get_fields (Some ?rest) (omap_set k v m)"
    by (subst get_fields.simps) (simp only: gw prod.case option.case if_True)
  then show ?case using Cons.IH Cons.prems by (simp add: kv)
qed

definition lined :: "string \<Rightarrow> bool" where
  "lined t \<longleftrightarrow> (\<forall>c \<in> set t. \<not> is_space c \<or> c = CHR '' '')"

lemma lined_simps [simp]:
  "lined []" "lined (c # t) \<longleftrightarrow> (\<not> is_space c \<or> c = CHR '' '') \<and> lined t" "lined (s @ t) \<longleftrightarrow> lined s \<and> lined t"
  "lined (concat ts) \<longleftrightarrow> list_all lined ts"
  by (auto simp: lined_def list_all_iff)

lemma plain_lined: "plain t \<Longrightarrow> lined t"
  by (simp add: lined_def plain_def)

lemma lined_entry:
  assumes "words_plain e"
  shows "lined (entry_text e)"
proof -
  have w: "lined (to_string_word n)" for n :: u64
    by (simp add: to_string_word_def plain_lined plain_dec)
  have f: "lined (field_word kv)" if "field_plain kv" for kv
    using that by (simp add: field_plain_def field_word_def plain_lined is_space_def)
  have lit: "lined ''SLEEP ''" "lined ''OBS ''" "lined '' ''" by (simp_all add: is_space_def)
  have "lined (concat (map (\<lambda>kv. '' '' @ field_word kv) kvs))" if "list_all field_plain kvs" for kvs
    using that f lit(3) by (induction kvs) simp_all
  then show ?thesis
    using w assms plain_lined [OF type_word_plain(1)] lit
    unfolding entry_text_def words_plain_def by (cases "se_kind e") (simp_all only: lined_simps entry_kind.case)
qed

lemma strip_eol_text:
  assumes "lined t" and "set cr \<subseteq> {CHR 0x0D}"
  shows "strip_eol (t @ cr) = t"
proof -
  have "dropWhile (\<lambda>c. c = CHR 0x0D \<or> c = CHR 0x0A) (rev cr @ rev t) =
      dropWhile (\<lambda>c. c = CHR 0x0D \<or> c = CHR 0x0A) (rev t)"
    using assms(2) by (intro dropWhile_append2) auto
  moreover have "lined (rev t)" using assms(1) by (simp add: lined_def)
  then have "dropWhile (\<lambda>c. c = CHR 0x0D \<or> c = CHR 0x0A) (rev t) = rev t"
    by (cases "rev t") (auto simp: is_space_def)
  ultimately show ?thesis by (simp add: strip_eol_def)
qed

lemma parse_line_words:
  assumes "words_plain e" and "set cr \<subseteq> {CHR 0x0D}"
  shows "parse_line junk (entry_text e @ cr) = [read_entry e]"
proof (cases "se_kind e")
  case EK_SLEEP
  have "get_word (Some ([] @ ''SLEEP'' @ '' '' @ to_string_word (se_sleep_ms e))) [] =
      (''SLEEP'', Some ('' '' @ to_string_word (se_sleep_ms e)))"
    by (rule get_word_plain) (simp_all add: plain_def is_space_def)
  moreover have "get_u64 (Some ('' '' @ to_string_word (se_sleep_ms e) @ [])) junk = (se_sleep_ms e, Some [])"
    by (rule get_u64_dec) (simp_all add: is_space_def)
  ultimately show ?thesis
    unfolding parse_line_def strip_eol_text [OF lined_entry [OF assms(1)] assms(2)]
    using EK_SLEEP assms(1) by (cases e) (simp add: entry_text_def words_plain_def new_entry_def read_entry_def sorted_fields_def)
next
  case EK_OBS
  let ?fs = "concat (map (\<lambda>kv. '' '' @ field_word kv) (se_fields e))"
  let ?ts = "to_string_word (se_obs_ts e)"
  have "get_word (Some ([] @ ''OBS'' @ '' '' @ type_word (se_type e) @ '' '' @ ?ts @ ?fs)) [] =
      (''OBS'', Some ('' '' @ type_word (se_type e) @ '' '' @ ?ts @ ?fs))"
    by (rule get_word_plain) (simp_all add: plain_def is_space_def)
  moreover have "get_word (Some ('' '' @ type_word (se_type e) @ '' '' @ ?ts @ ?fs)) [] =
      (type_word (se_type e), Some ('' '' @ ?ts @ ?fs))"
    using type_word_plain by (intro get_word_plain) (simp_all add: is_space_def)
  moreover have "?fs = [] \<or> is_space (hd ?fs)" by (cases "se_fields e") (simp_all add: is_space_def)
  then have "get_u64 (Some ('' '' @ ?ts @ ?fs)) 0 = (se_obs_ts e, Some ?fs)"
    by (intro get_u64_dec) (simp_all add: is_space_def)
  moreover have "get_fields (Some ?fs) [] = sorted_fields (se_fields e)"
    using get_fields_text [of "se_fields e" "[]"] assms(1) EK_OBS by (simp add: words_plain_def sorted_fields_def)
  ultimately show ?thesis
    unfolding parse_line_def strip_eol_text [OF lined_entry [OF assms(1)] assms(2)]
    using EK_OBS assms(1) by (cases e) (simp add: entry_text_def type_word_code words_plain_def new_entry_def read_entry_def sorted_fields_def)
qed

lemma parse_line_text:
  assumes "entry_plain e" and "set cr \<subseteq> {CHR 0x0D}"
  shows "parse_line junk (entry_text e @ cr) = [e]"
  using parse_line_words [OF entry_plain_words(1) assms(2)] entry_plain_words(2) assms(1) by simp

lemma get_lines_text:
  assumes "list_all (\<lambda>t. CHR 0x0A \<notin> set t) ts"
  shows "get_lines (concat (map (\<lambda>t. t @ [CHR 0x0A]) ts)) = ts"
  using assms
proof (induction ts)
  case (Cons t ts)
  then show ?case
    by (subst get_lines.simps) (simp add: before_after_char)
qed (simp add: get_lines.simps)

lemma parse_script_words:
  assumes "list_all words_plain es" and "set cr \<subseteq> {CHR 0x0D}"
    and "files path = Some (concat (map (\<lambda>e. entry_text e @ cr @ nl) es))"
  shows "parse_script junk files path = Ok (map read_entry es)"
proof -
  let ?ts = "map (\<lambda>e. entry_text e @ cr) es"
  have "list_all (\<lambda>t. CHR 0x0A \<notin> set t) ?ts"
    using assms(1,2) lined_entry by (fastforce simp: list_all_iff is_space_def lined_def)
  then have "get_lines (concat (map (\<lambda>e. entry_text e @ cr @ nl) es)) = ?ts"
    using get_lines_text [of ?ts] by (simp add: nl_def comp_def)
  moreover have "concat (map (parse_line junk) ?ts) = map read_entry es"
    using assms(1,2) by (induction es) (simp_all add: parse_line_words)
  ultimately show ?thesis by (simp add: parse_script_def assms(3))
qed

text \<open>C28: What a script says is what is read: entries written one to a line, with either line ending,
  parse back to exactly those entries.\<close>

theorem script_roundtrip:
  assumes "list_all entry_plain es" and "set cr \<subseteq> {CHR 0x0D}"
    and "files path = Some (concat (map (\<lambda>e. entry_text e @ cr @ nl) es))"
  shows "parse_script junk files path = Ok es"
proof -
  have "list_all words_plain es" "map read_entry es = es"
    using assms(1) by (induction es) (simp_all add: entry_plain_words)
  then show ?thesis using parse_script_words [of es cr files path junk] assms(2,3) by simp
qed

theorem script_roundtrip_witness:
  "parse_script 0 (\<lambda>_. Some (''OBS PREFILL_START 1800 input_tokens=64 request=c1'' @ nl @ ''SLEEP 5'' @ nl)) ''a''
   = Ok [new_entry\<lparr>se_type := OT_PREFILL_START, se_obs_ts := 1800,
           se_fields := [(''input_tokens'', ''64''), (''request'', ''c1'')]\<rparr>,
         new_entry\<lparr>se_kind := EK_SLEEP, se_sleep_ms := 5\<rparr>]"
proof (rule script_roundtrip [where cr = "[]"])
  show "Some (''OBS PREFILL_START 1800 input_tokens=64 request=c1'' @ nl @ ''SLEEP 5'' @ nl) =
    Some (concat (map (\<lambda>e. entry_text e @ [] @ nl)
      [new_entry\<lparr>se_type := OT_PREFILL_START, se_obs_ts := 1800,
           se_fields := [(''input_tokens'', ''64''), (''request'', ''c1'')]\<rparr>,
         new_entry\<lparr>se_kind := EK_SLEEP, se_sleep_ms := 5\<rparr>]))"
    by (simp add: entry_text_def type_word_def obs_type_table_def new_entry_def field_word_def
          to_string_word_def dec_string.simps char_of_def bit_Suc_0_iff)
qed (simp_all add: entry_plain_def new_entry_def field_plain_def plain_def is_space_def
       list_less_def less_char_def)

subsection \<open>The options\<close>

lemma option_words:
  "s = ''-'' \<Longrightarrow> \<not> CHR ''='' \<in> set s"
  "is_option s \<Longrightarrow> s \<noteq> ''-'' \<Longrightarrow> CHR ''='' \<notin> set s \<Longrightarrow> \<exists>k. substr_from 2 s = Ok k"
  "is_option s \<Longrightarrow> CHR ''='' \<in> set s \<Longrightarrow> \<exists>k. option_key s = Ok k"
  "\<not> is_option s \<Longrightarrow> s \<noteq> ''-''"
  by (cases s; cases "tl s"; auto simp: is_option_def substr_from_def option_key_def)+

lemma parse_rest_fails: "(\<exists>e. parse_rest xs a = Err e) \<longleftrightarrow> ''-'' \<in> set xs"
proof (induction xs a rule: parse_rest.induct)
  case (2 s rest a)
  note IH = "2.IH"
  consider "\<not> is_option s" | "is_option s" "CHR ''='' \<in> set s" | "is_option s" "CHR ''='' \<notin> set s" "s = ''-''"
    | "is_option s" "CHR ''='' \<notin> set s" "s \<noteq> ''-''" by blast
  then show ?case
  proof cases
    case 1
    then show ?thesis using IH(1) option_words(4) [of s] by (auto simp: Let_def)
  next
    case 2
    then obtain k where "option_key s = Ok k" using option_words(3) by blast
    then show ?thesis using 2 IH(2) option_words(1) [of s] by (auto simp: Let_def)
  next
    case 3
    then show ?thesis by (simp add: substr_from_def is_option_def)
  next
    case 4
    then obtain k where k: "substr_from 2 s = Ok k" using option_words(2) by blast
    show ?thesis
    proof (cases rest)
      case Nil
      then show ?thesis using 4 k IH(3) by (auto simp: Let_def)
    next
      case (Cons val rest')
      then show ?thesis
        using 4 k IH(4) [OF refl _ _ k Cons] IH(5) [OF refl _ _ k Cons] option_words(4) [of val]
        by (cases "is_option val") (simp_all add: Let_def)
    qed
  qed
qed simp

text \<open>The only command line that cannot be parsed has an argument that is a single dash: its name
  is taken from the second character on, and \<^verbatim>\<open>substr\<close> throws.\<close>

theorem parse_args_fails_iff: "(\<exists>e. parse_args argv = Err e) \<longleftrightarrow> ''-'' \<in> set (drop 1 argv)"
  by (simp add: parse_args_def parse_rest_fails Let_def)

subsection \<open>Ingesting a script\<close>

text \<open>The observations a script makes, in order.\<close>

fun script_observations :: "source_config \<Rightarrow> u64 \<Rightarrow> script_entry list \<Rightarrow> observation list" where
  "script_observations cfg seq [] = []"
| "script_observations cfg seq (e # es) =
     (if se_kind e \<noteq> EK_OBS then script_observations cfg seq es
      else entry_observation cfg (seq + 1) e # script_observations cfg (seq + 1) es)"

lemma fold_script_envelope:
  "o_source (fold script_field kvs ob) = o_source ob" "o_worker (fold script_field kvs ob) = o_worker ob"
  "o_boot (fold script_field kvs ob) = o_boot ob" "o_epoch (fold script_field kvs ob) = o_epoch ob"
  "o_src_gen (fold script_field kvs ob) = o_src_gen ob" "o_obs_gen (fold script_field kvs ob) = o_obs_gen ob"
  "o_seq (fold script_field kvs ob) = o_seq ob" "o_type (fold script_field kvs ob) = o_type ob"
proof (induction kvs arbitrary: ob)
  case (Cons kv kvs)
  {
    case 1
    then show ?case using Cons by (simp add: script_field_def set_field_def split: prod.split)
  next
    case 2
    then show ?case using Cons by (simp add: script_field_def set_field_def split: prod.split)
  next
    case 3
    then show ?case using Cons by (simp add: script_field_def set_field_def split: prod.split)
  next
    case 4
    then show ?case using Cons by (simp add: script_field_def set_field_def split: prod.split)
  next
    case 5
    then show ?case using Cons by (simp add: script_field_def set_field_def split: prod.split)
  next
    case 6
    then show ?case using Cons by (simp add: script_field_def set_field_def split: prod.split)
  next
    case 7
    then show ?case using Cons by (simp add: script_field_def set_field_def split: prod.split)
  next
    case 8
    then show ?case using Cons by (simp add: script_field_def set_field_def split: prod.split)
  }
qed simp_all

lemma entry_envelope:
  "o_source (entry_observation cfg seq e) = cf_source cfg" "o_worker (entry_observation cfg seq e) = cf_worker cfg"
  "o_boot (entry_observation cfg seq e) = cf_boot cfg" "o_epoch (entry_observation cfg seq e) = cf_epoch cfg"
  "o_src_gen (entry_observation cfg seq e) = cf_src_gen cfg" "o_obs_gen (entry_observation cfg seq e) = cf_obs_gen cfg"
  "o_seq (entry_observation cfg seq e) = seq" "o_type (entry_observation cfg seq e) = se_type e"
  by (simp_all add: entry_observation_def Let_def fold_script_envelope)

lemma script_observations_nth:
  "i < length (script_observations cfg s es) \<Longrightarrow>
     \<exists>e. script_observations cfg s es ! i = entry_observation cfg (s + of_nat (Suc i)) e"
proof (induction cfg s es arbitrary: i rule: script_observations.induct)
  case (2 cfg s e es)
  show ?case
  proof (cases "se_kind e = EK_OBS")
    case True
    then show ?thesis using "2.IH"(2) "2.prems" by (cases i) (auto simp: add.assoc)
  next
    case False
    then show ?thesis using "2.IH"(1) "2.prems" by simp
  qed
qed simp

lemma script_session_ok:
  assumes "length (script_observations cfg 0 es) < 2 ^ 64"
    and "h_source h = cf_source cfg" "h_worker h = cf_worker cfg" "h_boot h = cf_boot cfg"
      "h_src_gen h = cf_src_gen cfg" "h_obs_gen h = cf_obs_gen cfg" "h_epoch h = cf_epoch cfg"
  shows "session_ok h (script_observations cfg 0 es)"
  using assms script_observations_nth [of _ cfg 0 es] by (fastforce simp: session_ok_def entry_envelope)

text \<open>The two copies agree where the configuration's clock domain is the one the command fixes.\<close>

lemma ingest_field_script: "ingest_field = script_field"
proof (intro ext)
  fix kv :: "string \<times> string" and ob :: observation
  obtain k v where kv: "kv = (k, v)" by (cases kv)
  have dist: "set_field k (if c then x else y) ob = (if c then set_field k x ob else set_field k y ob)" for c x y
    by simp
  show "ingest_field kv ob = script_field kv ob"
    by (simp only: kv ingest_field_def script_field_def script_value_def hex_digit_chars_def Let_def prod.case dist)
qed

lemma ingest_observation_entry:
  "cf_clock_domain cfg = ''mono_ns'' \<Longrightarrow> ingest_observation cfg s e = entry_observation cfg s e"
  by (simp add: ingest_observation_def entry_observation_def ingest_field_script)

text \<open>The run is a sequence of coordinator operations, and its counts are those of the decisions.\<close>

lemma ingest_entries_run:
  assumes "cf_clock_domain cfg = ''mono_ns''"
  shows "ir_coord (fold (ingest_entry cfg) es r) = run_events (map EvObs (script_observations cfg (ir_seq r) es)) (ir_coord r) \<and>
   ir_accepted (fold (ingest_entry cfg) es r) = ir_accepted r + of_nat (length (filter snd
     (decisions (map EvObs (script_observations cfg (ir_seq r) es)) (ir_coord r)))) \<and>
   ir_stale (fold (ingest_entry cfg) es r) = ir_stale r + of_nat (length (filter (\<lambda>d. \<not> snd d)
     (decisions (map EvObs (script_observations cfg (ir_seq r) es)) (ir_coord r))))"
proof (induction es arbitrary: r)
  case (Cons e es)
  show ?case
  proof (cases "se_kind e = EK_OBS")
    case True
    let ?ir = "ingest (entry_observation cfg (ir_seq r + 1) e) (ir_coord r)"
    have "ir_coord (ingest_entry cfg e r) = snd ?ir" "ir_seq (ingest_entry cfg e r) = ir_seq r + 1"
      "ir_accepted (ingest_entry cfg e r) = ir_accepted r + (if i_accepted (fst ?ir) then 1 else 0)"
      "ir_stale (ingest_entry cfg e r) = ir_stale r + (if i_accepted (fst ?ir) then 0 else 1)"
      using True by (simp_all add: ingest_entry_def ingest_observation_entry [OF assms] Let_def split: prod.split)
    then show ?thesis using Cons [of "ingest_entry cfg e r"] True by (simp add: add.assoc)
  next
    case False
    then have "ingest_entry cfg e r = r" by (simp add: ingest_entry_def)
    then show ?thesis using Cons False by simp
  qed
qed simp

lemma ingest_entries_events:
  assumes "cf_clock_domain cfg = ''mono_ns''"
  shows "ir_coord (ingest_entries cfg es) = run_events (EvHello (ingest_hello cfg) # map EvObs (script_observations cfg 0 es))
     (set_epoch (cf_epoch cfg) new_coordinator)"
  using ingest_entries_run [OF assms, of es "ingest_start cfg"] by (simp add: ingest_entries_def ingest_start_def)

text \<open>Whatever the script, every observation entry is counted once, accepted or stale; where the
  derived ids differ all of them are accepted, and the coordinator holds exactly them.\<close>

theorem ingest_accepts_script:
  assumes "cf_clock_domain cfg = ''mono_ns''" and "distinct (map o_id (script_observations cfg 0 es))" and "length (script_observations cfg 0 es) < 2 ^ 64"
  shows "ir_accepted (ingest_entries cfg es) = of_nat (length (script_observations cfg 0 es)) \<and>
    ir_stale (ingest_entries cfg es) = 0 \<and> c_stale (ir_coord (ingest_entries cfg es)) = [] \<and>
    mset (all_accepted (ir_coord (ingest_entries cfg es))) = mset (script_observations cfg 0 es)"
proof -
  let ?obs = "script_observations cfg 0 es" and ?c = "set_epoch (cf_epoch cfg) new_coordinator"
  have fresh: "fresh_run (map EvObs ?obs) ?c"
    using assms(2) by (simp add: fresh_run_def new_coordinator_def set_epoch_def)
  have ok: "session_ok (ingest_hello cfg) ?obs"
    by (rule script_session_ok [OF assms(3)]) (simp_all add: ingest_hello_def)
  have "new_generation h (map_of (c_registry ?c) k)" for h k
    by (simp add: new_generation_def new_coordinator_def set_epoch_def)
  from session_accepted [OF this ok fresh]
  have dec: "decisions (EvHello (ingest_hello cfg) # map EvObs ?obs) ?c = map (\<lambda>ob. (ob, True)) ?obs" .
  then have "decisions (map EvObs ?obs) (ir_coord (ingest_start cfg)) = map (\<lambda>ob. (ob, True)) ?obs"
    "ir_seq (ingest_start cfg) = 0" "ir_accepted (ingest_start cfg) = 0" "ir_stale (ingest_start cfg) = 0"
    by (simp_all add: ingest_start_def)
  moreover have "all_accepted ?c = []" "c_stale ?c = []"
    by (simp_all add: new_coordinator_def set_epoch_def all_accepted_def)
  ultimately show ?thesis
    using run_accepted [of "EvHello (ingest_hello cfg) # map EvObs ?obs" ?c] ingest_entries_run [OF assms(1), of es "ingest_start cfg"]
    unfolding ingest_entries_events [OF assms(1)] dec
    by (simp add: ingest_entries_def filter_map comp_def)
qed

subsection \<open>An example\<close>

text \<open>A script of one observation, for examples.\<close>

definition sample_entry :: script_entry where
  "sample_entry = new_entry\<lparr>se_type := OT_KV_HIT, se_obs_ts := 1000\<rparr>"

lemma sample_entry_text: "parse_script 0 (\<lambda>_. Some (''OBS KV_HIT 1000'' @ nl)) path = Ok [sample_entry]"
proof -
  have "entry_plain sample_entry" by (simp add: entry_plain_def sample_entry_def new_entry_def)
  moreover have "entry_text sample_entry = ''OBS KV_HIT 1000''"
    by (simp add: entry_text_def sample_entry_def type_word_def obs_type_table_def new_entry_def
          to_string_word_def dec_string.simps char_of_def bit_Suc_0_iff)
  ultimately have "parse_line 0 ''OBS KV_HIT 1000'' = [sample_entry]"
    using parse_line_text [of sample_entry "[]" 0] by simp
  moreover have "get_lines (''OBS KV_HIT 1000'' @ nl) = [''OBS KV_HIT 1000'']"
    using get_lines_text [of "[''OBS KV_HIT 1000'']"] by (simp add: nl_def)
  ultimately show ?thesis by (simp add: parse_script_def)
qed

lemma sample_entry_fits:
  assumes "cf_clock_domain cfg = ''mono_ns''"
  shows "entry_fits (entry_observation cfg 1 sample_entry)"
    and "length (entry_bytes (entry_observation cfg 1 sample_entry)) \<le> 1000000"
    and "o_request_id (entry_observation cfg 1 sample_entry) = id_null"
    and "sendable (entry_observation cfg 1 sample_entry)"
proof -
  define ob where "ob = entry_observation cfg 1 sample_entry"
  have fields: "o_fields ob = []" "o_clock_domain ob = ''mono_ns''" "o_has_recv_ts ob = False" "o_recv_ts ob = 0"
      "o_has_health ob = False" "o_health ob = SH_UNKNOWN" "o_has_confidence ob = False" "o_confidence ob = 0"
      "o_has_obs_ts ob = True" "o_obs_ts ob = 1000"
    by (simp_all add: ob_def entry_observation_def sample_entry_def new_entry_def default_observation_def assms Let_def)
  have ok: "obs_ok ob" by (simp add: obs_ok_def fields_ok_def fits32_def fields)
  have "emits (write_fields (o_fields ob)) []" by (simp add: fields emits_skip)
  from emits_run [OF emits_observation [OF ok this], of "[]"]
  obtain p where p: "encode_observation_payload ob = Ok p" "length p \<le> 1000"
    by (simp add: encode_observation_payload_def header_bytes_def presence_bytes_def fields)
  then show "entry_fits (entry_observation cfg 1 sample_entry)"
    "length (entry_bytes (entry_observation cfg 1 sample_entry)) \<le> 1000000"
    "sendable (entry_observation cfg 1 sample_entry)"
    using ok by (simp_all add: entry_fits_def entry_bytes_def fits32_def sendable_def max_frame_payload_def flip: ob_def)
  show "o_request_id (entry_observation cfg 1 sample_entry) = id_null"
    using fields(1) by (simp add: o_request_id_def id_field_def flip: ob_def)
qed

end
