(* ===== verification/Bounds.thy ===== *)
theory Bounds
  imports Persistence
begin

section \<open>The size of the texts a replay digests\<close>

text \<open>
  The writers throw when a string is longer than a 32-bit length can say. A replay hands them the
  canonical text of every trace and of its explanation, so whether it returns depends on how long
  these texts are. This theory bounds the text of a JSON value by the sizes of its parts;
  \<open>Totality\<close> applies the bounds to the views.
\<close>

subsection \<open>Numbers\<close>

lemma f64_mag_bound: "f64_mag v < 2 ^ 2099"
proof -
  have frac: "f64_frac v < 2 ^ 52" by (simp add: f64_frac_def)
  have "f64_expo v \<le> 2047" by (simp add: f64_expo_def)
  then have "(2 :: nat) ^ (f64_expo v - 1) \<le> 2 ^ 2046" by (intro power_increasing) simp_all
  then have "(2 ^ 52 + f64_frac v) * 2 ^ (f64_expo v - 1) < 2 ^ 53 * 2 ^ 2046"
    using frac by (intro mult_less_le_imp_less) simp_all
  then show ?thesis using frac by (simp add: f64_mag_def)
qed

lemma length_whole: "length (dec_string (f64_mag v div 2 ^ 1074)) \<le> 309"
  using f64_mag_bound [of v] by (intro length_dec_string) (simp_all add: div_less_iff_less_mult)

lemma length_percent: "length (to_string_int (f64_trunc v)) \<le> 310"
proof -
  define k where "k = f64_mag v div 2 ^ 1074"
  have "length (dec_string k) \<le> 309" using length_whole [of v] by (simp add: k_def)
  moreover have "f64_trunc v = int k \<or> f64_trunc v = - int k" by (simp add: f64_trunc_def k_def)
  ultimately show ?thesis by (auto simp: to_string_int_def)
qed

lemma leading_zeros_le: "0 < n \<Longrightarrow> d \<le> n * 10 ^ k \<Longrightarrow> leading_zeros n d \<le> k"
proof (induction k arbitrary: n)
  case 0
  then show ?case by (simp add: leading_zeros.simps)
next
  case (Suc k)
  then show ?case using Suc.IH [of "10 * n"] by (subst leading_zeros.simps) (simp add: ac_simps)
qed

lemma dec_exponent_bound:
  assumes "f64_mag v \<noteq> 0"
  shows "- 324 \<le> dec_exponent (f64_mag v) (2 ^ 1074)" and "dec_exponent (f64_mag v) (2 ^ 1074) \<le> 309"
proof -
  define n d where "n = f64_mag v" and "d = (2 ^ 1074 :: nat)"
  have "d \<le> 1 * 10 ^ 324" by (simp add: d_def)
  also have "1 * 10 ^ 324 \<le> n * 10 ^ 324" using assms unfolding n_def by (intro mult_right_mono) simp_all
  finally have "leading_zeros n d \<le> 324" using assms unfolding n_def by (intro leading_zeros_le) simp_all
  moreover have "length (dec_string (n div d)) \<le> 309" using length_whole [of v] by (simp add: n_def d_def)
  ultimately have "- 324 \<le> dec_exponent n d \<and> dec_exponent n d \<le> 309" by (simp add: dec_exponent_def)
  then show "- 324 \<le> dec_exponent (f64_mag v) (2 ^ 1074)" "dec_exponent (f64_mag v) (2 ^ 1074) \<le> 309"
    by (simp_all add: n_def d_def)
qed

lemma round_half_even_le: "round_half_even a b \<le> a + 1"
  by (simp add: round_half_even_def Let_def le_SucI)

lemma two_power_ten_power: "n \<le> 3 * k \<Longrightarrow> (2 :: nat) ^ n \<le> 10 ^ k"
proof -
  assume "n \<le> 3 * k"
  then have "(2 :: nat) ^ n \<le> (2 ^ 3) ^ k" by (simp only: power_mult [symmetric]) (rule power_increasing, simp_all)
  also have "\<dots> \<le> 10 ^ k" by (rule power_mono) simp_all
  finally show ?thesis .
qed

lemma ten_power_step: "(10 :: nat) ^ j * 10 ^ k + 2 \<le> 10 ^ Suc (j + k)"
proof -
  have "1 \<le> (10 :: nat) ^ (j + k)" by simp
  then show ?thesis unfolding power_add [symmetric] power_Suc by linarith
qed

lemma dec_digits17_bound:
  assumes "dec_digits17 (f64_mag v) (2 ^ 1074) = (m, x)" and "f64_mag v \<noteq> 0"
  shows "length (dec_string m) \<le> 1041" and "\<bar>x\<bar> < 1000"
proof -
  define n d e where "n = f64_mag v" and "d = (2 ^ 1074 :: nat)" and "e = dec_exponent n d"
  define r where "r = round_half_even (n * 10 ^ nat (16 - e)) (d * 10 ^ nat (e - 16))"
  have e: "- 324 \<le> e" "e \<le> 309" using dec_exponent_bound [OF assms(2)] by (simp_all add: e_def n_def d_def)
  have mx: "(m, x) = (if r = 10 ^ 17 then (10 ^ 16, e + 1) else (r, e))"
    using assms(1) unfolding n_def [symmetric] d_def [symmetric] dec_digits17_def Let_def e_def [symmetric]
      r_def [symmetric] by simp
  have "nat (16 - e) \<le> 340" using e by simp
  then have "(10 :: nat) ^ nat (16 - e) \<le> 10 ^ 340" by (intro power_increasing) simp_all
  moreover have "(2 :: nat) ^ 2099 \<le> 10 ^ 700" by (rule two_power_ten_power) simp
  then have "n \<le> 10 ^ 700" using f64_mag_bound [of v] unfolding n_def by (meson less_imp_le order.trans)
  ultimately have "n * 10 ^ nat (16 - e) \<le> 10 ^ 700 * 10 ^ 340" by (intro mult_mono) (simp_all only: zero_le)
  then have "r < 10 ^ 700 * 10 ^ 340 + 2"
    unfolding r_def using round_half_even_le [of "n * 10 ^ nat (16 - e)"] by (meson add_strict_left_mono add_right_mono le_less_trans one_less_numeral_iff order.trans semiring_norm(76))
  also have "(10 :: nat) ^ 700 * 10 ^ 340 + 2 \<le> 10 ^ Suc (700 + 340)" by (rule ten_power_step)
  also have "Suc (700 + 340) = 1041" by simp
  finally have "r < 10 ^ 1041" .
  from length_dec_string [OF _ this] have r: "length (dec_string r) \<le> 1041" by (simp only: zero_less_numeral)
  have "(10 :: nat) ^ 16 < 10 ^ 1041" by (rule power_strict_increasing) simp_all
  from length_dec_string [OF _ this] have "length (dec_string (10 ^ 16)) \<le> 1041" by (simp only: zero_less_numeral)
  moreover have "m = r \<or> m = 10 ^ 16" using mx by (metis fst_conv)
  ultimately show "length (dec_string m) \<le> 1041" using r by blast
  show "\<bar>x\<bar> < 1000" using mx e by (auto split: if_splits)
qed

lemma length_with_point: "length (with_point a b) \<le> length a + length b + 1"
  using length_dropWhile_le [of "\<lambda>c. c = CHR ''0''" "rev b"] by (simp add: with_point_def strip_zeros_def)

lemma length_g17: "length (format_g17 v) \<le> 1100"
proof (cases "f64_mag v = 0")
  case True
  then show ?thesis by (simp add: format_g17_def)
next
  case False
  obtain m x where mx: "dec_digits17 (f64_mag v) (2 ^ 1074) = (m, x)" by fastforce
  note b = dec_digits17_bound [OF mx False]
  have "length (dec_string (nat \<bar>x\<bar>)) \<le> 4" using b(2) by (intro length_dec_string) simp_all
  moreover have "length (''e'' @ (if P then ''-'' else ''+'') @ (if Q then ''0'' else []) @ s) \<le> length s + 3" for P Q s
    by simp
  ultimately have e: "length (exp_suffix x) \<le> 4 + 3"
    unfolding exp_suffix_def using add_right_mono order.trans by blast
  have w: "length (with_point (take k (dec_string m)) (drop k (dec_string m))) \<le> 1042" for k
    using length_with_point [of "take k (dec_string m)" "drop k (dec_string m)"] b(1) by simp
  have z: "length (with_point ''0'' (replicate (nat (- x - 1)) (CHR ''0'') @ dec_string m)) \<le> 1050" if "- 4 \<le> x"
    using length_with_point [of "''0''" "replicate (nat (- x - 1)) (CHR ''0'') @ dec_string m"] b(1) that by simp
  have "length
     (if x < -4 \<or> 17 \<le> x then with_point (take 1 (dec_string m)) (drop 1 (dec_string m)) @ exp_suffix x
      else if 0 \<le> x then with_point (take (nat x + 1) (dec_string m)) (drop (nat x + 1) (dec_string m))
      else with_point ''0'' (replicate (nat (- x - 1)) (CHR ''0'') @ dec_string m)) \<le> 1060" (is "length ?t \<le> _")
  proof (cases "x < -4 \<or> 17 \<le> x")
    case True
    then show ?thesis using e w [of 1] by (simp only: if_True length_append)
  next
    case False
    then show ?thesis using w [of "nat x + 1"] z by (cases "0 \<le> x") (simp_all only: if_True if_False, simp_all)
  qed
  moreover have "length t \<le> 1060 \<Longrightarrow> length ((if P then ''-'' else []) @ t) \<le> 1100" for P t by simp
  ultimately show ?thesis
    unfolding format_g17_def Let_def mx prod.case if_not_P [OF False] by blast
qed

subsection \<open>JSON values\<close>

fun jsize :: "json \<Rightarrow> nat" and isize :: "json list \<Rightarrow> nat" and msize :: "(string \<times> json) list \<Rightarrow> nat" where
  "jsize JNull = 4"
| "jsize (JBool b) = 5"
| "jsize (JInt i) = 20"
| "jsize (JUInt u) = 20"
| "jsize (JDouble d) = 1100"
| "jsize (JString s) = 6 * length s + 2"
| "jsize (JArray xs) = isize xs + 2"
| "jsize (JObject m) = msize m + 2"
| "isize [] = 0"
| "isize (x # xs) = 1 + jsize x + isize xs"
| "msize [] = 0"
| "msize ((k, v) # m) = 6 * length k + 4 + jsize v + msize m"

lemma length_escape_char: "length (escape_char c) \<le> 6"
  by (simp add: escape_char_def hex_byte_def)

lemma length_quoted: "length (quoted s) \<le> 6 * length s + 2"
proof -
  have "length (escape_json s) \<le> 6 * length s"
  proof (induction s)
    case (Cons c s)
    then show ?case using length_escape_char [of c] by simp
  qed simp
  then show ?thesis by (simp add: quoted_def)
qed

lemma length_to_string_i64: "length (to_string_int (sint (i :: i64))) \<le> 20"
proof -
  have "- (2 ^ 63) \<le> sint i" "sint i < 2 ^ 63"
    using sint_ge [of i] sint_lt [of i] by simp_all
  then have "nat \<bar>sint i\<bar> < 10 ^ 19" by simp
  then have "length (dec_string (nat \<bar>sint i\<bar>)) \<le> 19" by (intro length_dec_string) simp_all
  then show ?thesis by (auto simp: to_string_int_def)
qed

lemma length_write_json:
  "\<not> p \<Longrightarrow> length (write_json p d j) \<le> jsize j"
  "\<not> p \<Longrightarrow> length (write_items p d first xs) \<le> isize xs"
  "\<not> p \<Longrightarrow> length (write_members p d first m) \<le> msize m"
proof (induction p d j and p d first xs and p d first m rule: write_json_write_items_write_members.induct)
  case (12 p d first k v kvs)
  then show ?case using length_quoted [of k] by (simp add: write_sep_def)
qed (use length_to_string_i64 length_to_string_u64 length_g17 length_quoted in \<open>auto simp: write_sep_def\<close>)

lemma length_canonical: "length (to_canonical j) \<le> jsize j"
  by (simp add: to_canonical_def length_write_json)

subsection \<open>Objects and arrays\<close>

lemma isize_append [simp]: "isize (xs @ ys) = isize xs + isize ys"
  by (induction xs) simp_all

lemma msize_append [simp]: "msize (m @ m') = msize m + msize m'"
  by (induction m) auto

lemma isize_le: "\<forall>x \<in> set xs. jsize x \<le> k \<Longrightarrow> isize xs \<le> (k + 1) * length xs"
  by (induction xs) auto

lemma msize_le: "\<forall>(k, v) \<in> set m. 6 * length k + jsize v \<le> n \<Longrightarrow> msize m \<le> (n + 4) * length m"
  by (induction m) auto

lemma msize_omap_set: "msize (omap_set k v m) \<le> msize m + (6 * length k + 4 + jsize v)"
  by (induction m) auto

lemma jsize_object: "jsize (json_object kvs) \<le> msize kvs + 2"
proof -
  have "jsize (fold (\<lambda>(k, v). json_set k v) kvs (JObject m)) \<le> msize m + msize kvs + 2" for m
  proof (induction kvs arbitrary: m)
    case (Cons kv kvs)
    obtain k v where kv: "kv = (k, v)" by (cases kv)
    show ?case
      using Cons.IH [of "omap_set k v m"] msize_omap_set [of k v m] by (simp add: kv json_set_def)
  qed simp
  from this [of "[]"] show ?thesis by (simp add: json_object_def)
qed

lemma jsize_array: "jsize (json_array vs) = isize vs + 2"
  by (simp add: json_array_list)

end
