(* ===== verification/Totality.thy ===== *)
theory Totality
  imports Bounds Runs
begin

section \<open>Replays and archives of ordinary evidence return\<close>

text \<open>
  The sizes of the views a replay digests, by what they are made of: a trace's view grows with the
  number of its observations, an explanation also with the reasons they carry. With at most
  \<open>max_evidence\<close> observations and reasons of at most \<open>max_reason\<close> characters every text fits the
  32-bit lengths of the writers, so that \<open>replay\<close> and \<open>build_archive\<close> return.
\<close>

definition max_evidence :: nat where
  "max_evidence = 100000"

definition max_reason :: nat where
  "max_reason = 4000"

lemma length_names:
  "length (obs_type_name t) \<le> 30" "length (provenance_name v) \<le> 20" "length (explanation_class_name c) \<le> 30"
  "length (outcome_name oc) \<le> 20" "length (phase_name ph) \<le> 14"
  by ((cases t; simp), (cases v; simp), (cases c; simp), (cases oc; simp), (cases ph; simp))

subsection \<open>Attribution\<close>

text \<open>How many metrics an attribution has marked, with names of at most 20 characters.\<close>

definition few :: "nat \<Rightarrow> resource_attribution \<Rightarrow> bool" where
  "few n a \<longleftrightarrow> length (at_provenance a) \<le> n \<and> length (at_available a) \<le> n \<and>
     (\<forall>k \<in> fst ` set (at_provenance a) \<union> fst ` set (at_available a). length k \<le> 20)"

lemma few_cong: "at_provenance b = at_provenance a \<Longrightarrow> at_available b = at_available a \<Longrightarrow> few n b = few n a"
  by (simp add: few_def)

lemma few_mark: "few n a \<Longrightarrow> length k \<le> 20 \<Longrightarrow> few (Suc n) (mark k p b a)"
  using length_omap_set [of k p "at_provenance a"] length_omap_set [of k b "at_available a"]
  by (auto simp: few_def mark_def fst_set_omap_set)

lemma few_marks:
  "few n a \<Longrightarrow> list_all (\<lambda>kb. length (fst kb) \<le> 20) kbs \<Longrightarrow> m = n + length kbs \<Longrightarrow>
     few m (fold (\<lambda>(k, b). mark k p b) kbs a)"
proof (induction kbs arbitrary: n a)
  case (Cons kb kbs)
  then show ?case using few_mark [of n a "fst kb" p "snd kb"] Cons.IH [of "Suc n"] by (simp add: split_beta)
qed simp

lemma few_records:
  "few n a \<Longrightarrow> list_all (\<lambda>kp. length (fst kp) \<le> 20) kps \<Longrightarrow> m = n + length kps \<Longrightarrow>
     few m (fold (record_phase t) kps a)"
proof (induction kps arbitrary: n a)
  case (Cons kp kps)
  then have "few (Suc n) (record_phase t kp a)" by (simp add: record_phase_def Let_def few_mark)
  then show ?case using Cons by simp
qed simp

lemma steps_marks [simp]:
  "at_provenance (fold cache_step obs a) = at_provenance a" "at_available (fold cache_step obs a) = at_available a"
  "at_provenance (fold spec_step obs a) = at_provenance a" "at_available (fold spec_step obs a) = at_available a"
  "at_provenance (fold token_step obs a) = at_provenance a" "at_available (fold token_step obs a) = at_available a"
  by (induction obs arbitrary: a)
     (simp_all add: cache_step_def spec_step_def token_step_def Let_def split: obs_type.split)

lemma few_times: "few n a \<Longrightarrow> few (n + 10) (attribute_times t a)"
  unfolding attribute_times_def
  by (rule few_records [where n = n]) (simp_all add: recorded_phases_def few_def)

lemma few_exec: "few n a \<Longrightarrow> few (n + 2) (attribute_exec t a)"
proof -
  assume few: "few n a"
  obtain g h c where f: "fold exec_step (tr_evidence t) (f64_zero False, False, at_cpu_exec_time a) = (g, h, c)"
    by (cases "fold exec_step (tr_evidence t) (f64_zero False, False, at_cpu_exec_time a)")
  define a2 where "a2 = (if h then mark ''gpu_exec'' PV_MEASURED True
      (a\<lparr>at_cpu_exec_time := c, at_gpu_exec_time := u64_of_f64 (f64_mul g million)\<rparr>)
    else mark ''gpu_exec'' PV_UNKNOWN False (a\<lparr>at_cpu_exec_time := c\<rparr>))"
  have "few n (a\<lparr>at_cpu_exec_time := c, at_gpu_exec_time := u64_of_f64 (f64_mul g million)\<rparr>)"
    "few n (a\<lparr>at_cpu_exec_time := c\<rparr>)"
    using few by (simp_all add: few_def)
  then have "few (Suc n) a2" by (simp add: a2_def few_mark)
  then have "few (Suc (Suc n)) (mark ''cpu_exec'' PV_REPORTED (0 < at_cpu_exec_time a2) a2)"
    by (rule few_mark) simp
  then show ?thesis by (simp add: attribute_exec_def f Let_def a2_def)
qed

lemma few_bytes: "few n a \<Longrightarrow> few (n + 6) (attribute_bytes t a)"
  unfolding attribute_bytes_def Let_def by (rule few_marks [where n = n]) (simp_all add: few_def)

lemma few_cache: "few n a \<Longrightarrow> few (n + 7) (attribute_cache t a)"
  unfolding attribute_cache_def Let_def by (rule few_marks [where n = n]) (simp_all add: few_def)

lemma few_speculation: "few n a \<Longrightarrow> few (n + 3) (attribute_speculation t a)"
  unfolding attribute_speculation_def Let_def by (rule few_marks [where n = n]) (simp_all add: few_def)

lemma few_tokens: "few n a \<Longrightarrow> few (n + 4) (attribute_tokens t a)"
proof -
  assume few: "few n a"
  define a1 where "a1 = fold token_step (tr_evidence t) (a\<lparr>at_decode_steps := 0, at_input_tokens := 0, at_output_tokens := 0\<rparr>)"
  define q where "q = f64_div (f64_div (f64_of_u64 (at_decode_time a1)) (f64_of_u64 (at_decode_steps a1))) million"
  define a2 where "a2 = (if 0 < at_decode_steps a1 \<and> 0 < at_decode_time a1
    then mark ''inter_token_ms'' PV_DERIVED True (a1\<lparr>at_inter_token_ms := q\<rparr>)
    else mark ''inter_token_ms'' PV_UNKNOWN False a1)"
  have "few n a1" "few n (a1\<lparr>at_inter_token_ms := q\<rparr>)" using few by (simp_all add: a1_def few_def)
  then have "few (Suc n) a2" by (simp add: a2_def few_mark)
  then have "few (Suc (Suc (Suc (Suc n)))) (mark ''output_tokens'' PV_REPORTED (0 < at_output_tokens a2)
      (mark ''input_tokens'' PV_MEASURED (0 < at_input_tokens a2)
        (mark ''decode_steps'' PV_MEASURED (0 < at_decode_steps a2) a2)))"
    by (intro few_mark) simp_all
  then show ?thesis
    unfolding attribute_tokens_def Let_def a1_def [symmetric] q_def [symmetric] a2_def [symmetric]
    by (simp add: eval_nat_numeral)
qed

lemma few_attribution: "few 32 (attribute_resources t)"
proof -
  have "few 0 empty_attribution" by (simp add: few_def empty_attribution_def)
  from few_tokens [OF few_speculation [OF few_cache [OF few_bytes [OF few_exec [OF few_times [OF this]]]]]]
  show ?thesis by (simp add: attribute_resources_def)
qed

lemma jsize_attribution:
  assumes few: "few 32 a"
  shows "jsize (attribution_json a) \<le> 30000"
proof -
  let ?prov = "map (\<lambda>(k, p). (k, JString (provenance_name p))) (at_provenance a)"
  let ?av = "map (\<lambda>(k, v). (k, JBool v)) (at_available a)"
  have "6 * length k + jsize (JString (provenance_name p)) \<le> 242" if "(k, p) \<in> set (at_provenance a)" for k p
  proof -
    have "length k \<le> 20" using few that by (force simp: few_def)
    then show ?thesis using length_names(2) [of p] by simp
  qed
  then have "msize ?prov \<le> (242 + 4) * length ?prov" by (intro msize_le) auto
  moreover have "6 * length k + jsize (JBool v) \<le> 125" if "(k, v) \<in> set (at_available a)" for k v
  proof -
    have "length k \<le> 20" using few that by (force simp: few_def)
    then show ?thesis by simp
  qed
  then have "msize ?av \<le> (125 + 4) * length ?av" by (intro msize_le) auto
  ultimately have "jsize (json_object ?prov) \<le> 8000" "jsize (json_object ?av) \<le> 8000"
    using few jsize_object [of ?prov] jsize_object [of ?av] by (simp_all add: few_def)
  then show ?thesis
    unfolding attribution_json_def by (intro jsize_object [THEN order.trans]) simp
qed

subsection \<open>Traces\<close>

lemma jsize_event: "jsize (event_json (trace_event_of i ob)) \<le> 2000"
  using length_names(1) [of "o_type ob"] length_names(2) [of "o_provenance ob"]
  unfolding event_json_def trace_event_of_def Let_def
  by (intro jsize_object [THEN order.trans]) (simp add: length_to_hex)

lemma isize_timeline: "isize (map event_json (timeline_from i obs)) \<le> 2001 * length obs"
proof (induction obs arbitrary: i)
  case (Cons ob obs)
  then show ?case using add_mono [OF jsize_event [of i ob] Cons.IH [of "i + 1"]] by simp
qed simp

text \<open>The texts of the phases.\<close>

definition short_phases :: "phases \<Rightarrow> bool" where
  "short_phases ps \<longleftrightarrow> length ps = 14 \<and> (\<forall>i \<in> set ps. length (p_source i) \<le> 32 \<and> length (p_detail i) \<le> 60)"

lemma short_phases_none: "short_phases no_phases"
  by (simp add: short_phases_def no_phases_def default_phase_def)

lemma short_phases_add:
  "short_phases ps \<Longrightarrow> length src \<le> 32 \<Longrightarrow> length d \<le> 60 \<Longrightarrow> short_phases (add_phase p s e pv src d ps)"
  using set_update_subset_insert [of ps "phase_num p"] by (fastforce simp: short_phases_def add_phase_def)

lemma short_phases_point:
  "short_phases ps \<Longrightarrow> length d \<le> 60 \<Longrightarrow> short_phases (add_point p d x ps)"
  by (auto simp: add_point_def length_to_hex intro!: short_phases_add split: option.split)

lemma short_phases_span:
  "short_phases ps \<Longrightarrow> length d \<le> 60 \<Longrightarrow> short_phases (add_span p d x y ps)"
  by (auto simp: add_span_def length_to_hex intro!: short_phases_add split: option.split)

lemma short_phases_steps:
  assumes "short_phases ps"
  shows "short_phases (add_arrival obs ps)" "short_phases (add_batch_wait obs ps)"
    "short_phases (add_dispatch obs ps)" "short_phases (add_total obs ps)"
  using assms
  by (auto simp: add_arrival_def add_batch_wait_def add_dispatch_def add_total_def Let_def length_to_hex
      intro!: short_phases_add split: option.split)

lemma length_count: "length obs \<le> max_evidence \<Longrightarrow> length (dec_string (count_obs obs t)) \<le> 20"
proof (rule length_dec_string)
  have "count_obs obs t \<le> length obs" by (simp add: count_obs_def)
  then show "length obs \<le> max_evidence \<Longrightarrow> count_obs obs t < 10 ^ 20" by (simp add: max_evidence_def)
qed simp

lemma short_phases_extract: "length obs \<le> max_evidence \<Longrightarrow> short_phases (extract_phases obs)"
proof -
  assume n: "length obs \<le> max_evidence"
  note count = length_count [OF n]
  have queue: "short_phases ps \<Longrightarrow> short_phases (add_queue obs ps)" for ps
    using count [of OT_QUEUE_ENTER] unfolding add_queue_def by (intro short_phases_span) simp_all
  have decode: "short_phases ps \<Longrightarrow> short_phases (add_decode obs ps)" for ps
    using count [of OT_DECODE_STEP_START]
    by (auto simp: add_decode_def Let_def length_to_hex intro!: short_phases_add split: option.split)
  have "length (''retry ('' @ dec_string (count_obs obs OT_RETRY) @ '' events)'') \<le> 60"
    using count [of OT_RETRY] by simp
  then show ?thesis
    by (simp add: extract_phases_def queue decode short_phases_point short_phases_span short_phases_steps
        short_phases_none)
qed

lemma jsize_phase: "length (p_source p) \<le> 32 \<Longrightarrow> length (p_detail p) \<le> 60 \<Longrightarrow> jsize (phase_json p) \<le> 1500"
  using length_names(2) [of "p_provenance p"]
  unfolding phase_json_def by (intro jsize_object [THEN order.trans]) simp

lemma msize_phases:
  assumes "short_phases ps"
  shows "msize (map (\<lambda>p. (phase_name (p_phase p), phase_json p)) (filter p_exists ps)) \<le> 25000"
proof -
  have "6 * length (phase_name (p_phase p)) + jsize (phase_json p) \<le> 1600" if "p \<in> set ps" for p
    using assms that jsize_phase [of p] length_names(5) [of "p_phase p"] by (fastforce simp: short_phases_def)
  then have "msize (map (\<lambda>p. (phase_name (p_phase p), phase_json p)) (filter p_exists ps)) \<le>
      (1600 + 4) * length (map (\<lambda>p. (phase_name (p_phase p), phase_json p)) (filter p_exists ps))"
    by (intro msize_le) auto
  also have "\<dots> \<le> (1600 + 4) * 14"
    using assms length_filter_le [of p_exists ps] by (simp add: short_phases_def)
  finally show ?thesis by simp
qed

lemma isize_words: "isize (map JUInt ws) = 21 * length ws"
  by (induction ws) simp_all

lemma isize_ids: "isize (map (\<lambda>b. JString (to_hex b)) bs) = 195 * length bs"
  by (induction bs) (simp_all add: length_to_hex)

lemma msize_known_id: "msize (known_id k v) \<le> 6 * length k + 198"
  by (simp add: known_id_def length_to_hex)

lemma length_summary:
  "length (tr_boots (reconstruct_trace obs rid)) \<le> length obs"
  "length (tr_src_gens (reconstruct_trace obs rid)) \<le> length obs"
  "length (tr_obs_gens (reconstruct_trace obs rid)) \<le> length obs"
proof -
  have le: "length xs \<le> length obs" if "distinct xs" "set xs = f ` set obs" for xs and f :: "observation \<Rightarrow> 'a"
    using distinct_card [OF that(1)] card_image_le [of "set obs" f] card_length [of obs] that(2) by simp
  have gens: "distinct (tr_src_gens (reconstruct_trace obs rid))" "distinct (tr_obs_gens (reconstruct_trace obs rid))"
    by (simp_all add: reconstruct_trace_def Let_def snapshot_fold_sets new_trace_def)
  show "length (tr_boots (reconstruct_trace obs rid)) \<le> length obs"
    "length (tr_src_gens (reconstruct_trace obs rid)) \<le> length obs"
    "length (tr_obs_gens (reconstruct_trace obs rid)) \<le> length obs"
    using le reconstruct_summary gens by metis+
qed

text \<open>Every reason the evidence carries is of bounded length.\<close>

definition short_reasons :: "observation list \<Rightarrow> bool" where
  "short_reasons obs \<longleftrightarrow> list_all (\<lambda>ob. length (str_field ob ''reason'' []) \<le> max_reason) obs"

lemma length_terminal_reason:
  assumes "short_reasons obs"
  shows "length (tr_terminal_reason (reconstruct_trace obs rid)) \<le> max_reason"
proof -
  let ?obs = "cpp_sort timeline_before obs"
  have "length (str_field ob ''reason'' []) \<le> max_reason" if "ob \<in> set ?obs" for ob
    using assms that by (simp add: short_reasons_def list_all_iff)
  then have "length (snd (trace_outcome ?obs)) \<le> max_reason"
    by (auto simp: trace_outcome_def Let_def dest: first_obs_in last_obs_in split: option.split)
  then show ?thesis by (simp add: reconstruct_trace_def Let_def)
qed

lemma jsize_trace:
  assumes "length obs \<le> max_evidence" and "short_reasons obs"
  shows "jsize (trace_json (reconstruct_trace obs rid)) \<le> 60000 + 2300 * length obs"
proof -
  let ?t = "reconstruct_trace obs rid" and ?obs = "cpp_sort timeline_before obs"
  have timeline: "isize (map event_json (tr_timeline ?t)) \<le> 2001 * length obs"
    using isize_timeline [of 0 ?obs] by (simp add: reconstruct_fields)
  have "short_phases (tr_phases ?t)"
    using short_phases_extract [of ?obs] assms(1) by (simp add: reconstruct_fields)
  from msize_phases [OF this] have phases:
    "jsize (json_object (map (\<lambda>p. (phase_name (p_phase p), phase_json p)) (filter p_exists (tr_phases ?t)))) \<le> 25002"
    using jsize_object order.trans by fastforce
  note reason = length_terminal_reason [OF assms(2), of rid]
  show ?thesis
    unfolding trace_json_def
    using timeline phases reason length_summary [of obs rid] length_names(4) [of "tr_outcome ?t"]
      msize_known_id [of "''tenant_id''" "tr_tenant ?t"] msize_known_id [of "''workload_id''" "tr_workload ?t"]
      msize_known_id [of "''model_id''" "tr_model ?t"] msize_known_id [of "''model_rev_id''" "tr_model_rev ?t"]
      msize_known_id [of "''adapter_id''" "tr_adapter ?t"]
    by (intro jsize_object [THEN order.trans])
       (simp add: jsize_array isize_words isize_ids length_to_hex max_reason_def)
qed

subsection \<open>Explanations\<close>

text \<open>What is said of the components: at most 14, under the names of their phases.\<close>

lemma breakdown_components:
  assumes "length (tr_phases t) = 14"
  shows "length (b_components (breakdown_of t)) \<le> 14"
    and "\<forall>c \<in> set (b_components (breakdown_of t)). l_name c = phase_name (l_phase c)"
proof -
  have le: "length (trace_intervals (tr_phases t)) \<le> 14"
    using assms by (simp add: trace_intervals_def) (metis length_filter_le)
  have "length (b_components (breakdown_of t)) \<le> 14 \<and>
    (\<forall>c \<in> set (b_components (breakdown_of t)). l_name c = phase_name (l_phase c))"
  proof (cases "has_phase PH_TOTAL (tr_phases t)")
    case True
    obtain b marks where "decompose_latency t = Some b"
      "b_components b = map (\<lambda>i. component_of (b_total_ns b) (trace_intervals (tr_phases t) ! i)
           (fst (exclusive_sweep (trace_intervals (tr_phases t))) ! i) (marks ! i))
           [0..<length (trace_intervals (tr_phases t))]"
      by (rule decompose_latency_total [OF True])
    then show ?thesis using le by (auto simp: breakdown_of_def component_of_def Let_def)
  next
    case False
    then show ?thesis
      by (simp add: breakdown_of_def decompose_latency_def has_phase_def get_phase_def empty_breakdown_def Let_def)
  qed
  then show "length (b_components (breakdown_of t)) \<le> 14"
    "\<forall>c \<in> set (b_components (breakdown_of t)). l_name c = phase_name (l_phase c)" by blast+
qed

lemma jsize_breakdown:
  assumes "length (tr_phases t) = 14"
  shows "jsize (breakdown_json (breakdown_of t)) \<le> 40000"
proof -
  have "jsize (component_json c) \<le> 2000" for c
    using length_names(5) [of "l_phase c"] length_names(2) [of "l_provenance c"]
    unfolding component_json_def by (intro jsize_object [THEN order.trans]) simp
  then have "isize (map component_json (b_components (breakdown_of t))) \<le>
      (2000 + 1) * length (map component_json (b_components (breakdown_of t)))"
    by (intro isize_le) simp
  also have "\<dots> \<le> (2000 + 1) * 14" using breakdown_components(1) [OF assms] by simp
  finally show ?thesis
    unfolding breakdown_json_def by (intro jsize_object [THEN order.trans]) (simp add: jsize_array)
qed

text \<open>How much text a statement has.\<close>

definition short_statement :: "explanation_statement \<Rightarrow> bool" where
  "short_statement s \<longleftrightarrow> length (s_claim s) + length (s_evidence s) + length (s_phase s) \<le> max_reason + 500"

lemma jsize_statement: "short_statement s \<Longrightarrow> jsize (statement_json s) \<le> 6 * max_reason + 5000"
  using length_names(2) [of "s_provenance s"] length_names(3) [of "s_cls s"]
  unfolding statement_json_def short_statement_def by (intro jsize_object [THEN order.trans]) simp

lemma length_percent_text: "length (percent_text v) \<le> 310"
  by (simp add: percent_text_def length_percent)

lemma short_statements:
  "l_name c = phase_name (l_phase c) \<Longrightarrow> list_all short_statement (component_statements tot c)"
  "length (tr_boots t) \<le> max_evidence \<Longrightarrow> list_all short_statement (boot_statements t)"
  "list_all short_statement (epoch_statements t)"
  "length (str_field ob ''reason'' []) \<le> max_reason \<Longrightarrow> list_all short_statement (observation_statements ob)"
  "list_all short_statement (kv_statements a)" "list_all short_statement (queue_statements tot a)"
  "list_all short_statement (gap_statements tot b)"
  "length (tr_terminal_reason t) \<le> max_reason \<Longrightarrow> list_all short_statement (outcome_statements t)"
proof -
  note defs = short_statement_def stmt_def max_reason_def Let_def
  show "l_name c = phase_name (l_phase c) \<Longrightarrow> list_all short_statement (component_statements tot c)"
    using length_names(5) [of "l_phase c"] length_to_string_u64 [of "l_exclusive_ns c"]
      length_percent_text [of "f64_div (f64_of_u64 (l_exclusive_ns c)) tot"]
    by (simp add: component_statements_def defs)
  have epochs: "length (epoch_range_text t) \<le> 42"
    using length_to_string_u64 [of "tr_min_epoch t"] length_to_string_u64 [of "tr_max_epoch t"]
    by (simp add: epoch_range_text_def)
  then show "list_all short_statement (epoch_statements t)" by (simp add: epoch_statements_def defs)
  show "list_all short_statement (boot_statements t)" if "length (tr_boots t) \<le> max_evidence"
  proof -
    have "length (dec_string (length (tr_boots t))) \<le> 20"
      using that by (intro length_dec_string) (simp_all add: max_evidence_def)
    then show ?thesis using epochs by (simp add: boot_statements_def defs)
  qed
  show "length (str_field ob ''reason'' []) \<le> max_reason \<Longrightarrow> list_all short_statement (observation_statements ob)"
    by (simp add: observation_statements_def defs length_to_hex)
  show "list_all short_statement (kv_statements a)"
    using length_percent_text [of "f64_div (f64_of_u64 (at_kv_hits a)) (f64_of_u64 (at_kv_lookups a))"]
      length_to_string_u64 [of "at_kv_hits a"] length_to_string_u64 [of "at_kv_lookups a"]
    by (simp add: kv_statements_def defs)
  show "list_all short_statement (queue_statements tot a)"
    using length_percent_text [of "f64_div (f64_of_u64 (at_queue_time a)) tot"] length_to_string_u64 [of "at_queue_time a"]
    by (simp add: queue_statements_def defs)
  show "list_all short_statement (gap_statements tot b)"
    using length_percent_text [of "f64_div (f64_of_u64 (b_gap_ns b)) tot"] length_to_string_u64 [of "b_gap_ns b"]
    by (simp add: gap_statements_def defs)
  show "length (tr_terminal_reason t) \<le> max_reason \<Longrightarrow> list_all short_statement (outcome_statements t)"
    using length_names(4) [of "tr_outcome t"] by (simp add: outcome_statements_def defs)
qed

lemma length_concat_map_le:
  assumes "\<And>x. length (f x) \<le> 1"
  shows "length (concat (map f xs)) \<le> length xs"
proof (induction xs)
  case (Cons x xs)
  then show ?case using add_mono [OF assms [of x] Cons.IH] by simp
qed simp

lemma few_statements:
  "length (concat (map (component_statements tot) cs)) \<le> length cs" "length (boot_statements t) \<le> 1"
  "length (epoch_statements t) \<le> 1" "length (concat (map observation_statements obs)) \<le> length obs"
  "length (kv_statements a) \<le> 1" "length (queue_statements tot a) \<le> 1" "length (gap_statements tot b) \<le> 1"
  "length (outcome_statements t) \<le> 1"
  by (rule length_concat_map_le, simp add: component_statements_def Let_def,
      simp_all add: boot_statements_def epoch_statements_def kv_statements_def queue_statements_def
        gap_statements_def outcome_statements_def Let_def)
     (rule length_concat_map_le, simp add: observation_statements_def Let_def)

lemma jsize_explanation:
  assumes "length obs \<le> max_evidence" and "short_reasons obs"
  shows "jsize (explanation_json (explain_request (reconstruct_trace obs rid))) \<le>
    100000 + (6 * max_reason + 5001) * (length obs + 20)"
proof -
  let ?t = "reconstruct_trace obs rid" and ?x = "explain_request (reconstruct_trace obs rid)"
  let ?tot = "total_or_one (breakdown_of ?t)"
  have phases: "length (tr_phases ?t) = 14"
    using short_phases_extract [of "cpp_sort timeline_before obs"] assms(1)
    by (simp add: reconstruct_fields short_phases_def)
  note comps = breakdown_components [OF phases]
  have reasons: "list_all (\<lambda>ob. length (str_field ob ''reason'' []) \<le> max_reason) (tr_evidence ?t)"
    using assms(2) by (simp add: short_reasons_def list_all_iff reconstruct_fields)
  have "list_all short_statement (concat (map (component_statements ?tot) (b_components (breakdown_of ?t))))"
    using comps(2) short_statements(1) by (fastforce simp: list_all_iff)
  moreover have "list_all short_statement (concat (map observation_statements (tr_evidence ?t)))"
    using reasons short_statements(4) by (fastforce simp: list_all_iff)
  moreover have "length (tr_boots ?t) \<le> max_evidence"
    using length_summary(1) [of obs rid] assms(1) by simp
  ultimately have short: "list_all short_statement (x_statements ?x)"
    using short_statements(2,3,5-8) length_terminal_reason [OF assms(2), of rid]
    by (simp add: explain_request_def Let_def)
  have len: "length (x_statements ?x) \<le> length obs + 20"
    using few_statements(1) [of ?tot "b_components (breakdown_of ?t)"] few_statements(4) [of "tr_evidence ?t"]
      few_statements(2) [of ?t] few_statements(3) [of ?t] few_statements(5) [of "attribute_resources ?t"]
      few_statements(6) [of ?tot "attribute_resources ?t"] few_statements(7) [of ?tot "breakdown_of ?t"]
      few_statements(8) [of ?t] comps(1)
    by (simp add: explain_request_def Let_def reconstruct_fields)
  have "isize (map statement_json (x_statements ?x)) \<le>
      (6 * max_reason + 5000 + 1) * length (map statement_json (x_statements ?x))"
    using short jsize_statement by (intro isize_le) (simp add: list_all_iff)
  also have "\<dots> \<le> (6 * max_reason + 5001) * (length obs + 20)"
    using len by (intro mult_mono) simp_all
  finally have "isize (map statement_json (x_statements ?x)) \<le> (6 * max_reason + 5001) * (length obs + 20)" .
  moreover have "jsize (breakdown_json (x_breakdown ?x)) \<le> 40000" "jsize (attribution_json (x_attribution ?x)) \<le> 30000"
    using jsize_breakdown [OF phases] jsize_attribution [OF few_attribution]
    by (simp_all add: explain_request_def Let_def)
  ultimately show ?thesis
    unfolding explanation_json_def
    by (intro jsize_object [THEN order.trans]) (simp add: jsize_array length_to_hex)
qed

subsection \<open>Replays return\<close>

lemma fold_digest_ok:
  assumes "list_all (\<lambda>t. fits32 (length (canonical_trace t)) \<and> fits32 (length (canonical_explanation t))) ts"
  shows "\<exists>tw' xw'. fold digest_step ts (Ok (tw, xw)) = Ok (tw', xw')"
  using assms
proof (induction ts arbitrary: tw xw)
  case (Cons t ts)
  then show ?case
    using emits_bytes [of "str_bytes (canonical_trace t)"] emits_bytes [of "str_bytes (canonical_explanation t)"]
    by (simp add: digest_step_def emits_def)
qed simp

lemma texts_fit:
  assumes "length obs \<le> max_evidence" and "short_reasons obs"
  shows "fits32 (length (canonical_trace (reconstruct_trace obs rid)))"
    and "fits32 (length (canonical_explanation (reconstruct_trace obs rid)))"
  using assms(1) length_canonical [of "trace_json (reconstruct_trace obs rid)"] jsize_trace [OF assms, of rid]
    length_canonical [of "explanation_json (explain_request (reconstruct_trace obs rid))"]
    jsize_explanation [OF assms, of rid]
  by (simp_all add: canonical_trace_def canonical_explanation_def fits32_def max_evidence_def max_reason_def)

text \<open>Evidence of ordinary size: entries the format can carry, and not too many or too long.\<close>

definition ordinary :: "observation list \<Rightarrow> bool" where
  "ordinary obs \<longleftrightarrow> list_all entry_fits obs \<and> length obs \<le> max_evidence \<and> short_reasons obs"

lemma replay_ordinary:
  assumes "ordinary obs"
  shows "\<exists>rp. replay obs = Ok rp"
proof -
  have part: "length (request_evidence rid obs) \<le> max_evidence" "short_reasons (request_evidence rid obs)" for rid
  proof -
    have "length (request_evidence rid obs) \<le> length obs" by (simp add: request_evidence_def)
    then show "length (request_evidence rid obs) \<le> max_evidence" using assms by (simp add: ordinary_def)
    show "short_reasons (request_evidence rid obs)"
      using assms by (simp add: ordinary_def short_reasons_def request_evidence_def list_all_iff)
  qed
  have "list_all (\<lambda>t. fits32 (length (canonical_trace t)) \<and> fits32 (length (canonical_explanation t))) (replay_traces obs)"
    using texts_fit [OF part] by (simp add: replay_traces_requests list_all_iff)
  then obtain tw xw where "fold digest_step (replay_traces obs) (Ok ([], [])) = Ok (tw, xw)"
    using fold_digest_ok by blast
  moreover have "list_all entry_fits obs" using assms by (simp add: ordinary_def)
  ultimately show ?thesis
    by (simp add: replay_def evidence_digest_of_def hash_writer_def evidence_bytes_eq Let_def)
qed

subsection \<open>Archives of reachable coordinators\<close>

definition registry_ok :: "coordinator \<Rightarrow> bool" where
  "registry_ok c \<longleftrightarrow> list_all authority_ok (registry_snapshot c) \<and> list_all (\<lambda>e. length (snd e) \<le> 200) (c_stale c)"

lemma snd_set_omap_set: "snd ` set (omap_set k v m) \<subseteq> insert v (snd ` set m)"
  by (induction m) auto

lemma authority_ok_set:
  "list_all authority_ok (map snd m) \<Longrightarrow> authority_ok a \<Longrightarrow> list_all authority_ok (map snd (omap_set k a m))"
  using snd_set_omap_set [of k a m] by (fastforce simp: list_all_iff)

lemma authority_ok_map: "list_all authority_ok (map snd m) \<Longrightarrow> map_of m k = Some a \<Longrightarrow> authority_ok a"
  by (force simp: list_all_iff dest: map_of_SomeD)

lemma registry_ok_validate:
  assumes "list_all authority_ok (map snd reg)"
  shows "list_all authority_ok (map snd (snd (validate ob reg)))"
proof (cases "map_of reg (obs_key ob)")
  case (Some a)
  show ?thesis
  proof (cases "admits a ob")
    case True
    have "authority_ok (advance ob a)"
      using authority_ok_map [OF assms Some] by (simp add: authority_ok_def advance_def Let_def)
    then show ?thesis using assms Some True by (simp add: validate_admitted authority_ok_set)
  next
    case False
    then show ?thesis using assms Some validate_not_admitted by simp
  qed
qed (use assms in \<open>simp add: validate_def\<close>)

lemma registry_ok_register:
  assumes "list_all authority_ok (map snd reg)"
  shows "list_all authority_ok (map snd (snd (register_source ob e f reg)))"
  using assms authority_ok_map [OF assms, of "obs_key ob"]
  by (auto simp: register_source_def Let_def fresh_authority_def authority_ok_def default_authority_def
      intro!: authority_ok_set split: option.split)

lemma registry_ok_restart:
  assumes "list_all authority_ok (map snd reg)"
  shows "list_all authority_ok (map snd (snd (mark_restart source worker boot e reg)))"
  using assms by (auto simp: mark_restart_def Let_def authority_ok_def default_authority_def intro!: authority_ok_set)

lemma registry_ok_step: "live_step c c' \<Longrightarrow> registry_ok c \<Longrightarrow> registry_ok c'"
proof (induction rule: live_step.induct)
  case (obs c ob)
  then show ?case
    using registry_ok_validate [of "c_registry c" ob] length_ingest_reason [of ob c]
    by (cases "ingest_accepts ob c")
       (simp_all add: registry_ok_def registry_snapshot_def ingest_accepted ingest_rejected_same)
next
  case (hello c h)
  then show ?case
    using registry_ok_register [of "c_registry c"]
    by (simp add: registry_ok_def registry_snapshot_def register_hello_def case_prod_beta)
next
  case (restart c source worker boot e)
  then show ?case using registry_ok_restart [of "c_registry c"] by (simp add: registry_ok_def registry_snapshot_def)
qed (simp add: registry_ok_def registry_snapshot_def set_epoch_def)

lemma reachable_registry_ok: "reachable c \<Longrightarrow> registry_ok c"
proof (induction rule: reachable.induct)
  case (step c c')
  then show ?case using registry_ok_step by blast
qed (simp_all add: registry_ok_def registry_snapshot_def new_coordinator_def coord_reset_def set_epoch_def)

text \<open>A bound on the size of the archive's body.\<close>

definition stored_size :: "coordinator \<Rightarrow> nat" where
  "stored_size c = 200 * length (c_registry c) + sum_list (map (length \<circ> entry_bytes) (all_accepted c)) +
     sum_list (map (\<lambda>e. length (entry_bytes (fst e)) + 204) (c_stale c))"

lemma length_authority_bytes: "length (authority_bytes a) \<le> 200"
  by (simp add: authority_bytes_def)

lemma archive_size:
  assumes "registry_ok c" and "build_archive c = Ok ar" and "length (digest_block ar) = 128"
  shows "length (archive_bytes ar) \<le> stored_size c + 200"
proof -
  have f: "ar_registry ar = registry_snapshot c" "ar_accepted ar = all_accepted c" "ar_stale ar = c_stale c"
    using assms(2) by (auto simp: build_archive_def split: sum.splits)
  have reg: "sum_list (map (length \<circ> authority_bytes) xs) \<le> 200 * length xs" for xs
  proof (induction xs)
    case (Cons x xs)
    then show ?case using length_authority_bytes [of x] by simp
  qed simp
  have stale: "sum_list (map (length \<circ> stale_bytes) es) \<le> sum_list (map (\<lambda>e. length (entry_bytes (fst e)) + 204) es)"
    if "list_all (\<lambda>e. length (snd e) \<le> 200) es" for es
    using that by (induction es) (auto simp: stale_bytes_def)
  have "list_all (\<lambda>e. length (snd e) \<le> 200) (c_stale c)" using assms(1) by (simp add: registry_ok_def)
  from stale [OF this] show ?thesis
    using reg [of "registry_snapshot c"]
    by (simp add: archive_bytes_def f assms(3) stored_size_def length_concat registry_snapshot_def comp_def)
qed

lemma ordinary_saves_and_loads:
  assumes "reachable c" and "ordinary (all_accepted c)" and "list_all (\<lambda>e. entry_fits (fst e)) (c_stale c)"
    and "length (c_registry c) \<le> 1000000" and "stored_size c \<le> 4000000000" and "st path = WRITTEN"
  shows "\<exists>ar d'. save_archive st d c path = (Ok (Ok ar), d') \<and> load_archive d' path True = Ok (Ok ar) \<and>
    ar_accepted ar = all_accepted c \<and> ar_stale ar = c_stale c \<and> ar_registry ar = registry_snapshot c"
proof -
  obtain rp where rp: "replay (all_accepted c) = Ok rp" using replay_ordinary [OF assms(2)] by blast
  then obtain ar where ar: "build_archive c = Ok ar" by (simp add: build_archive_def)
  have f: "ar_registry ar = registry_snapshot c" "ar_accepted ar = all_accepted c" "ar_stale ar = c_stale c"
      "length (ar_evidence_digest ar) = 32" "length (ar_trace_digest ar) = 32"
      "length (ar_explanation_digest ar) = 32" "length (ar_aggregate_digest ar) = 32"
    using ar rp by (auto simp: build_archive_def replay_def Let_def length_sha256 evidence_digest_of_def
        hash_writer_def split: sum.splits prod.splits)
  note inv = reachable_inv [OF assms(1)] and reg = reachable_registry_ok [OF assms(1)]
  have "distinct (map fst (c_accepted c))" using inv omap_ok_distinct unfolding coord_inv_def by blast
  moreover have "map o_id (all_accepted c) = map fst (c_accepted c)"
    using inv by (auto simp: coord_inv_def all_accepted_def)
  ultimately have ids: "distinct (map o_id (all_accepted c))" by simp
  have "sum_list (map (\<lambda>e. length (entry_bytes (fst e)) + 204) es) \<ge> 204 * length es" for es
    by (induction es) simp_all
  from this [of "c_stale c"] have few: "length (c_stale c) \<le> 100000000"
    using assms(5) by (simp add: stored_size_def)
  have "length (archive_bytes ar) \<le> stored_size c + 200"
    using f by (intro archive_size [OF reg ar]) (simp add: digest_block_def)
  then have "archive_ok ar"
    using assms(2-5) ids few reg
    by (simp add: archive_ok_def f ordinary_def max_evidence_def registry_ok_def registry_snapshot_def
        fits32_def stale_ok_def list_all_iff) fastforce
  moreover from this obtain d' where "save_archive st d c path = (Ok (Ok ar), d')"
    using ar assms(6) by (simp add: save_archive_def archive_body_bytes archive_file_frame)
  ultimately show ?thesis using saved_loads assms(6) f by blast
qed

text \<open>C5: Saving never fails in a reachable coordinator whose evidence is representable and of ordinary size, and
  what it writes loads: every accepted and stale observation is one the codec represents (so its
  floating-point fields are finite) in fewer than $2^{32}$ bytes, at most 100000 are accepted, with
  reasons of at most 4000 characters, the registry has at most a million entries, the stored
  parts add up to at most $4 \cdot 10^9$ bytes, and the file is written in full. Then the build
  does not throw, the archive holds exactly the coordinator's evidence and registry, and it loads.\<close>

theorem reachable_saves_and_loads:
  assumes "reachable c" and "ordinary (all_accepted c)" and "list_all (\<lambda>e. entry_fits (fst e)) (c_stale c)"
    and "length (c_registry c) \<le> 1000000" and "stored_size c \<le> 4000000000" and "st path = WRITTEN"
  shows "\<exists>ar d'. save_archive st d c path = (Ok (Ok ar), d') \<and> load_archive d' path True = Ok (Ok ar) \<and>
    ar_accepted ar = all_accepted c \<and> ar_stale ar = c_stale c \<and> ar_registry ar = registry_snapshot c"
  using assms by (rule ordinary_saves_and_loads)

theorem reachable_saves_and_loads_witness:
  "\<exists>c ar d'. reachable c \<and> all_accepted c = [default_observation] \<and>
     save_archive (\<lambda>_. WRITTEN) (\<lambda>_. No_file) c ''run.sobs'' = (Ok (Ok ar), d') \<and>
     load_archive d' ''run.sobs'' True = Ok (Ok ar) \<and> ar_accepted ar = [default_observation]"
proof -
  let ?h = "\<lparr>h_source = id_null, h_worker = id_null, h_boot = id_null, h_src_gen = 0, h_obs_gen = 0, h_epoch = 0,
    h_clock_domain = [], h_role = [], h_extra = []\<rparr>"
  let ?d = "snd (register_hello ?h new_coordinator)" and ?ob = default_observation
  let ?c = "snd (ingest ?ob ?d)"
  have r: "reachable ?c" by (rule reachable.step [OF reachable.step [OF reachable.start live_step.hello] live_step.obs])
  have new: "new_generation ?h (map_of (c_registry new_coordinator) (key_of (h_source ?h) (h_worker ?h)))"
    by (simp add: new_generation_def new_coordinator_def set_epoch_def)
  obtain a where "map_of (c_registry ?d) (obs_key ?ob) = Some a" "admits a ?ob"
    using hello_new_generation [OF new] by (auto simp: admits_def default_observation_def)
  then have "ingest_accepts ?ob ?d"
    by (auto simp: ingest_accepts_def accepts_iff register_hello_def case_prod_beta new_coordinator_def set_epoch_def)
  note acc = ingest_accepted [OF this]
  have "length (c_registry ?d) \<le> 1"
    by (simp add: hello_registry register_source_def Let_def new_coordinator_def set_epoch_def)
  moreover have "omap_ok (c_registry ?d)" by (simp add: hello_registry new_coordinator_def set_epoch_def)
  then have "length (snd (validate ?ob (c_registry ?d))) = length (c_registry ?d)"
    using \<open>map_of (c_registry ?d) (obs_key ?ob) = Some a\<close> \<open>admits a ?ob\<close>
    by (simp add: validate_admitted length_omap_set_old)
  moreover have "c_accepted ?d = []" "c_stale ?d = []"
    by (simp_all add: register_hello_def case_prod_beta new_coordinator_def set_epoch_def)
  ultimately have parts: "length (c_registry ?c) \<le> 1" "all_accepted ?c = [?ob]" "c_stale ?c = []"
    by (simp_all add: acc all_accepted_def)
  then have "ordinary (all_accepted ?c)" "stored_size ?c \<le> 4000000000"
    using default_entry_ok length_default_entry
    by (simp_all add: ordinary_def short_reasons_def max_evidence_def max_reason_def stored_size_def str_field_def
        default_observation_def)
  from reachable_saves_and_loads [OF r this(1) _ _ this(2), of "\<lambda>_. WRITTEN" "''run.sobs''" "\<lambda>_. No_file"] r parts
  show ?thesis by auto
qed

end
