(* ===== verification/Sizes.thy ===== *)
theory Sizes
  imports Script Totality
begin

section \<open>Observations a frame and an archive take\<close>

text \<open>
  An observation with a few short fields and no infinite or NaN value is encoded, fits a frame, and is
  read back; what a script with short words makes is of this kind.
\<close>

definition fv_short :: "field_value \<Rightarrow> bool" where
  "fv_short v \<longleftrightarrow>
     (case v of FvF64 x \<Rightarrow> \<not> f64_nonfinite x | FvStr s \<Rightarrow> length s \<le> 100 | FvBytes b \<Rightarrow> length b \<le> 100 | _ \<Rightarrow> True)"

definition fields_short :: "fields \<Rightarrow> bool" where
  "fields_short m \<longleftrightarrow> list_all (\<lambda>kv. length (fst kv) \<le> 100 \<and> fv_short (snd kv)) m"

text \<open>At most \<open>n\<close> fields.\<close>

definition small_obs :: "nat \<Rightarrow> observation \<Rightarrow> bool" where
  "small_obs n ob \<longleftrightarrow> length (o_clock_domain ob) \<le> 100 \<and>
     omap_ok (o_fields ob) \<and> length (o_fields ob) \<le> n \<and> fields_short (o_fields ob) \<and>
     (o_has_obs_ts ob \<or> o_obs_ts ob = 0) \<and> (o_has_recv_ts ob \<or> o_recv_ts ob = 0) \<and>
     (o_has_health ob \<or> o_health ob = SH_UNKNOWN) \<and> (o_has_confidence ob \<or> o_confidence ob = 0)"

lemma tagged_bytes:
  assumes "emits f bs" and "length bs \<le> 108"
  shows "\<exists>bs. emits (wseq [write_u8 tag, f]) bs \<and> length bs \<le> 110"
proof -
  have "emits (wseq [write_u8 tag, f]) ([tag] @ bs @ [])" by (intro codec_intros assms(1))
  then show ?thesis using assms(2) by (intro exI [of _ "[tag] @ bs @ []"]) simp
qed

lemma short_value_bytes:
  assumes "fv_short v"
  shows "\<exists>bs. emits (write_fv v) bs \<and> length bs \<le> 110"
proof (cases v)
  case FvNull
  have "emits (write_fv FvNull) ([0] @ [])" unfolding write_fv_def field_value.case by (intro codec_intros)
  then show ?thesis unfolding FvNull by (intro exI [of _ "[0] @ []"]) simp
next
  case (FvBool x)
  show ?thesis unfolding FvBool write_fv_def field_value.case by (rule tagged_bytes [OF emits_bool]) simp
next
  case (FvI64 x)
  show ?thesis unfolding FvI64 write_fv_def field_value.case by (rule tagged_bytes [OF emits_i64]) simp
next
  case (FvU64 x)
  show ?thesis unfolding FvU64 write_fv_def field_value.case by (rule tagged_bytes [OF emits_u64]) simp
next
  case (FvF64 x)
  show ?thesis unfolding FvF64 write_fv_def field_value.case by (rule tagged_bytes [OF emits_f64]) simp
next
  case (FvId x)
  show ?thesis unfolding FvId write_fv_def field_value.case by (rule tagged_bytes [OF emits_id]) simp
next
  case (FvStr x)
  show ?thesis
    unfolding FvStr write_fv_def field_value.case
    by (rule tagged_bytes [OF emits_str]) (use assms FvStr in \<open>simp_all add: fv_short_def fits32_def\<close>)
next
  case (FvBytes x)
  show ?thesis
    unfolding FvBytes write_fv_def field_value.case
    by (rule tagged_bytes [OF emits_bytes]) (use assms FvBytes in \<open>simp_all add: fv_short_def fits32_def\<close>)
qed

lemma short_fields_bytes:
  "fields_short kvs \<Longrightarrow> \<exists>bs. emits (write_fields kvs) bs \<and> length bs \<le> 220 * length kvs"
proof (induction kvs)
  case Nil
  then show ?case by (auto intro: codec_intros)
next
  case (Cons kv kvs)
  then obtain bs where bs: "emits (write_fields kvs) bs" "length bs \<le> 220 * length kvs"
    by (auto simp: fields_short_def)
  obtain vb where vb: "emits (write_fv (snd kv)) vb" "length vb \<le> 110"
    using short_value_bytes [of "snd kv"] Cons.prems by (auto simp: fields_short_def)
  have k: "length (fst kv) \<le> 100" using Cons.prems by (simp add: fields_short_def)
  then have f: "fits32 (length (fst kv))" by (simp add: fits32_def)
  let ?bs = "(be_bytes 4 (of_nat (length (fst kv)) :: u32) @ str_bytes (fst kv)) @ vb @ bs @ []"
  have "emits (write_fields (kv # kvs)) ?bs"
    unfolding write_fields.simps by (intro codec_intros vb bs f)
  then show ?case using k vb(2) bs(2) by (intro exI [of _ ?bs]) simp
qed

lemma small_fits:
  assumes "small_obs n ob" and "n \<le> 100"
  shows "sendable ob" and "entry_fits ob" and "length (entry_bytes ob) \<le> 30000"
proof -
  obtain fb where fb: "emits (write_fields (o_fields ob)) fb" "length fb \<le> 220 * length (o_fields ob)"
    using short_fields_bytes assms(1) by (auto simp: small_obs_def)
  have "fv_ok v" if "fv_short v" for v using that by (cases v) (simp_all add: fv_short_def fits32_def)
  then have ok: "obs_ok ob"
    using assms by (auto simp: small_obs_def obs_ok_def fields_ok_def fields_short_def list_all_iff fits32_def max_field_count_def)
  from emits_run [OF emits_observation [OF ok fb(1)], of "[]"]
  obtain p where p: "encode_observation_payload ob = Ok p" "length p \<le> 1000 + 220 * n"
    using assms fb(2) by (simp add: encode_observation_payload_def header_bytes_def presence_bytes_def small_obs_def)
  then show "sendable ob" "entry_fits ob" "length (entry_bytes ob) \<le> 30000"
    using ok assms(2) by (simp_all add: sendable_def entry_fits_def entry_bytes_def fits32_def max_frame_payload_def)
qed

subsection \<open>What a script makes\<close>

definition short_word :: "string \<times> string \<Rightarrow> bool" where
  "short_word kv \<longleftrightarrow> length (fst kv) \<le> 100 \<and> fv_short (script_value (snd kv))"

lemma fields_short_set:
  "fields_short m \<Longrightarrow> length k \<le> 100 \<Longrightarrow> fv_short v \<Longrightarrow> fields_short (omap_set k v m)"
  by (induction m) (auto simp: fields_short_def)

lemma small_set_field:
  assumes "small_obs n ob" and "length k \<le> 100" and "fv_short v"
  shows "small_obs (Suc n) (set_field k v ob)"
  using assms fields_short_set [of "o_fields ob" k v] length_omap_set [of k v "o_fields ob"]
  by (auto simp: small_obs_def set_field_def)

lemma small_script_field:
  assumes "small_obs n ob" and "short_word kv"
  shows "small_obs (Suc n) (script_field kv ob)"
proof -
  obtain k v where kv: "kv = (k, v)" by fastforce
  have "small_obs (Suc n) (ob\<lparr>o_has_recv_ts := True, o_recv_ts := t\<rparr>)" for t
    using assms(1) by (auto simp: small_obs_def)
  moreover have "fv_short (FvId i)" "fv_short (FvBool b)" for i b by (simp_all add: fv_short_def)
  ultimately show ?thesis
    using assms small_set_field [of n ob] by (simp add: kv script_field_def short_word_def)
qed

lemma small_fold_fields:
  "small_obs n ob \<Longrightarrow> list_all short_word kvs \<Longrightarrow> small_obs (n + length kvs) (fold script_field kvs ob)"
proof (induction kvs arbitrary: n ob)
  case (Cons kv kvs)
  then show ?case using Cons.IH [of "Suc n" "script_field kv ob"] small_script_field by simp
qed simp

lemma small_entry:
  assumes "length (cf_clock_domain cfg) \<le> 100" and "list_all short_word (se_fields e)"
  shows "small_obs (length (se_fields e)) (entry_observation cfg s e)"
proof -
  have id: "small_obs n (ob\<lparr>o_id := i\<rparr>) = small_obs n ob" for n ob i by (simp add: small_obs_def)
  show ?thesis
    unfolding entry_observation_def Let_def id
    by (rule small_fold_fields [where n = 0, simplified])
       (use assms in \<open>simp_all add: small_obs_def default_observation_def fields_short_def\<close>)
qed

text \<open>The decimal fractions below one that a script is likely to hold.\<close>

definition fraction_text :: "string \<Rightarrow> string \<Rightarrow> nat \<Rightarrow> bool" where
  "fraction_text s frac n \<longleftrightarrow>
     split_sign (dropWhile is_space s) = (False, s) \<and> \<not> prefix ''inf'' (map lower_char s) \<and>
     \<not> prefix ''nan'' (map lower_char s) \<and> \<not> hex_float s \<and>
     mantissa_digits 10 s = ((''0'', frac), []) \<and> digits_number 10 (''0'' @ frac) = n"

lemma atof_fraction: "fraction_text s frac n \<Longrightarrow> atof s = f64_round False n (10 ^ length frac)"
  by (simp add: fraction_text_def atof_def scaled_number_def exponent_part_def)

lemma finite_fractions:
  "\<not> f64_nonfinite (f64_round False 4 10)" "\<not> f64_nonfinite (f64_round False 1 10)"
  "\<not> f64_nonfinite (f64_round False 5 100)" "\<not> f64_nonfinite (f64_round False 3 10)"
  "\<not> f64_nonfinite (f64_round False 2 10)"
  using f64_round_eval [of 1020 10 4 False] f64_round_eval [of 1018 10 1 False] f64_round_eval [of 1017 100 5 False]
    f64_round_eval [of 1020 10 3 False] f64_round_eval [of 1019 10 2 False]
  by (simp_all add: round_half_even_def f64_nonfinite_def f64_sign_bit_def f64_inf_bits_def)

lemma atof_fractions:
  "\<not> f64_nonfinite (atof ''0.4'')" "\<not> f64_nonfinite (atof ''0.1'')" "\<not> f64_nonfinite (atof ''0.05'')"
  "\<not> f64_nonfinite (atof ''0.3'')" "\<not> f64_nonfinite (atof ''0.2'')"
proof -
  have "fraction_text ''0.4'' ''4'' 4" "fraction_text ''0.1'' ''1'' 1" "fraction_text ''0.05'' ''05'' 5"
    "fraction_text ''0.3'' ''3'' 3" "fraction_text ''0.2'' ''2'' 2" by code_simp+
  then show "\<not> f64_nonfinite (atof ''0.4'')" "\<not> f64_nonfinite (atof ''0.1'')" "\<not> f64_nonfinite (atof ''0.05'')"
    "\<not> f64_nonfinite (atof ''0.3'')" "\<not> f64_nonfinite (atof ''0.2'')"
    using finite_fractions by (simp_all add: atof_fraction)
qed

lemma short_wordI:
  assumes "length k \<le> 100" and "length v \<le> 100" and "set v \<inter> set ''.eE'' = {} \<or>
    \<not> set v \<subseteq> set ''0123456789.+-eE'' \<or> \<not> f64_nonfinite (atof v)"
  shows "short_word (k, v)"
  using assms(3)
  by (elim disjE) (use assms(1,2) in \<open>simp_all add: short_word_def fv_short_def script_value_def\<close>)

text \<open>The request an entry's observation names.\<close>

lemma fold_request:
  assumes "distinct (map fst kvs)" and "''request_id'' \<notin> fst ` set kvs"
  shows "o_request_id (fold script_field kvs ob) =
    (case map_of kvs ''request'' of None \<Rightarrow> o_request_id ob | Some r \<Rightarrow> parse_id r)"
  using assms
proof (induction kvs arbitrary: ob)
  case (Cons kv kvs)
  obtain k v where kv: "kv = (k, v)" by fastforce
  have other: "o_request_id (set_field k x ob) = o_request_id ob" for x
    using Cons.prems(2) by (simp add: kv o_request_id_def set_field_other)
  have "o_request_id (set_field ''request_id'' (FvId i) ob) = i" for i
    by (simp add: o_request_id_def set_field_get)
  moreover have "o_request_id (ob\<lparr>o_has_recv_ts := True, o_recv_ts := t\<rparr>) = o_request_id ob" for t
    by (simp add: o_request_id_def id_field_def)
  moreover have "o_request_id (set_field ''is_warm'' x ob) = o_request_id ob" for x
    by (simp add: o_request_id_def set_field_other)
  ultimately have one: "o_request_id (script_field (k, v) ob) = (if k = ''request'' then parse_id v else o_request_id ob)"
    using other by (simp add: script_field_def)
  have "map_of kvs ''request'' = None" if "k = ''request''"
    using Cons.prems(1) that by (simp add: kv map_of_eq_None_iff)
  then show ?case
    using Cons.IH [of "script_field (k, v) ob"] Cons.prems one
    by (cases "k = ''request''"; cases "map_of kvs ''request''") (simp_all add: kv)
qed simp

lemma entry_request:
  assumes "omap_ok (se_fields e)" and "map_of (se_fields e) ''request_id'' = None"
    and "map_of (se_fields e) ''request'' = Some r"
  shows "o_request_id (entry_observation cfg s e) = parse_id r"
proof -
  have id: "o_request_id (ob\<lparr>o_id := i\<rparr>) = o_request_id ob" for ob i
    by (simp add: o_request_id_def id_field_def)
  have "distinct (map fst (se_fields e))" using assms(1) by (rule omap_ok_distinct)
  moreover have "''request_id'' \<notin> fst ` set (se_fields e)" using assms(2) by (simp only: map_of_eq_None_iff) simp
  ultimately show ?thesis
    unfolding entry_observation_def Let_def id by (subst fold_request) (simp_all add: assms(3))
qed

subsection \<open>The observations of a list of entries\<close>

lemma sorted_fields_facts:
  "omap_ok (sorted_fields kvs)" "map_of (sorted_fields kvs) = map_of (rev kvs)" "set (sorted_fields kvs) \<subseteq> set kvs"
proof -
  have "map_of (fold (\<lambda>(k, v). omap_set k v) kvs m) x = (map_of m ++ map_of (rev kvs)) x" for m x
    by (induction kvs arbitrary: m) (auto simp: map_add_def split: option.split)
  then show "map_of (sorted_fields kvs) = map_of (rev kvs)"
    by (intro ext) (simp add: sorted_fields_def)
  have "omap_ok (fold (\<lambda>(k, v). omap_set k v) kvs m)" if "omap_ok m" for m
    using that by (induction kvs arbitrary: m) auto
  then show "omap_ok (sorted_fields kvs)" by (simp add: sorted_fields_def)
  have "set (fold (\<lambda>(k, v). omap_set k v) kvs m) \<subseteq> set m \<union> set kvs" if "omap_ok m" for m
    using that
  proof (induction kvs arbitrary: m)
    case (Cons kv kvs)
    obtain k v where kv: "kv = (k, v)" by fastforce
    have "set (omap_set k v m) \<subseteq> insert (k, v) (set m)" using set_omap_set [OF Cons.prems] by auto
    moreover have "set (fold (\<lambda>(k, v). omap_set k v) kvs (omap_set k v m)) \<subseteq> set (omap_set k v m) \<union> set kvs"
      using Cons by simp
    ultimately show ?case by (simp add: kv) blast
  qed simp
  from this [of "[]"] show "set (sorted_fields kvs) \<subseteq> set kvs" by (simp add: sorted_fields_def)
qed

lemma length_sorted_fields: "length (sorted_fields kvs) \<le> length kvs"
proof -
  have "length (fold (\<lambda>(k, v). omap_set k v) kvs m) \<le> length m + length kvs" for m :: "(string, string) omap"
  proof (induction kvs arbitrary: m)
    case (Cons kv kvs)
    obtain k v where "kv = (k, v)" by fastforce
    then show ?case using Cons [of "omap_set k v m"] length_omap_set [of k v m] by simp
  qed simp
  from this [of "[]"] show ?thesis by (simp add: sorted_fields_def)
qed

text \<open>A line of a script that is plain, short, and names a request.\<close>

definition names :: "string \<Rightarrow> script_entry \<Rightarrow> bool" where
  "names r e \<longleftrightarrow> se_kind e = EK_OBS \<and> words_plain e \<and> list_all short_word (se_fields e) \<and> length (se_fields e) \<le> 10 \<and>
     map_of (rev (se_fields e)) ''request'' = Some r \<and> map_of (rev (se_fields e)) ''request_id'' = None"

lemma small_obs_mono: "small_obs n ob \<Longrightarrow> n \<le> m \<Longrightarrow> small_obs m ob"
  by (simp add: small_obs_def)

lemma named_observation:
  assumes "names r e" and "length (cf_clock_domain cfg) \<le> 100"
  shows "o_request_id (entry_observation cfg s (read_entry e)) = parse_id r"
    and "small_obs 10 (entry_observation cfg s (read_entry e))"
proof -
  note e = assms(1) [unfolded names_def]
  show "o_request_id (entry_observation cfg s (read_entry e)) = parse_id r"
    using e by (intro entry_request) (simp_all add: read_entry_def sorted_fields_facts)
  have "list_all short_word (se_fields (read_entry e))"
    using e sorted_fields_facts(3) [of "se_fields e"] by (auto simp: list_all_iff read_entry_def)
  from small_entry [OF assms(2) this, of s] show "small_obs 10 (entry_observation cfg s (read_entry e))"
    using length_sorted_fields [of "se_fields e"] e by (elim small_obs_mono) (simp add: read_entry_def)
qed

lemma named_observations:
  assumes "list_all2 names rs es" and "length (cf_clock_domain cfg) \<le> 100"
  shows "map o_request_id (script_observations cfg s (map read_entry es)) = map parse_id rs"
    and "list_all (small_obs 10) (script_observations cfg s (map read_entry es))"
proof -
  have "map o_request_id (script_observations cfg s (map read_entry es)) = map parse_id rs \<and>
      list_all (small_obs 10) (script_observations cfg s (map read_entry es))"
    using assms(1)
  proof (induction arbitrary: s rule: list_all2_induct)
    case (Cons r rs e es)
    have "se_kind (read_entry e) = EK_OBS" using Cons(1) by (simp add: names_def read_entry_def)
    then show ?case using Cons.IH [of "s + 1"] named_observation [OF Cons(1) assms(2), of "s + 1"] by simp
  qed simp
  then show "map o_request_id (script_observations cfg s (map read_entry es)) = map parse_id rs"
    "list_all (small_obs 10) (script_observations cfg s (map read_entry es))" by blast+
qed

subsection \<open>A coordinator with little in it saves\<close>

lemma length_registry_run: "length (c_registry (run_events es c)) \<le> length (c_registry c) + length es"
proof (induction es arbitrary: c)
  case (Cons e es)
  have "length (c_registry (event_step e c)) \<le> Suc (length (c_registry c))"
  proof (cases e)
    case (EvHello h)
    then show ?thesis
      using length_omap_set by (auto simp: hello_registry register_source_def Let_def split: option.split)
  next
    case (EvObs ob)
    show ?thesis
    proof (cases "ingest_accepts ob c")
      case True
      then obtain a where "map_of (c_registry c) (obs_key ob) = Some a" "admits a ob"
        by (auto simp: ingest_accepts_def accepts_iff)
      then show ?thesis using True length_omap_set by (simp add: EvObs ingest_accepted validate_admitted)
    qed (simp add: EvObs ingest_rejected_same)
  qed
  then show ?case using Cons [of "event_step e c"] by simp
qed simp

lemma reachable_run: "reachable c \<Longrightarrow> reachable (run_events es c)"
proof (induction es arbitrary: c)
  case (Cons e es)
  have "live_step c (event_step e c)" by (cases e) (simp_all add: live_step.intros)
  then show ?case using Cons reachable.step by auto
qed simp

lemma small_reason: "small_obs n ob \<Longrightarrow> length (str_field ob ''reason'' []) \<le> max_reason"
  by (auto simp: small_obs_def fields_short_def list_all_iff str_field_def max_reason_def fv_short_def
      split: option.split field_value.split dest!: map_of_SomeD)

lemma sum_le: "\<forall>x \<in> set xs. f x \<le> k \<Longrightarrow> sum_list (map f xs) \<le> k * length xs" for f :: "'a \<Rightarrow> nat"
  by (induction xs) auto

lemma small_saves:
  assumes "reachable c" and "list_all (small_obs 10) (all_accepted c)" and "length (all_accepted c) \<le> 1000"
    and "list_all (\<lambda>e. small_obs 10 (fst e)) (c_stale c)" and "length (c_stale c) \<le> 1000"
    and "length (c_registry c) \<le> 1000" and "st path = WRITTEN"
  shows "\<exists>ar d'. save_archive st d c path = (Ok (Ok ar), d') \<and> load_archive d' path True = Ok (Ok ar) \<and>
    ar_accepted ar = all_accepted c \<and> ar_stale ar = c_stale c \<and> ar_registry ar = registry_snapshot c"
proof (rule ordinary_saves_and_loads [OF assms(1)])
  show "ordinary (all_accepted c)"
    using assms(2,3) small_fits(2) small_reason
    by (auto simp: ordinary_def short_reasons_def list_all_iff max_evidence_def)
  show "list_all (\<lambda>e. entry_fits (fst e)) (c_stale c)"
    using assms(4) small_fits(2) by (auto simp: list_all_iff)
  have "sum_list (map (length \<circ> entry_bytes) (all_accepted c)) \<le> 30000 * length (all_accepted c)"
    using assms(2) small_fits(3) by (intro sum_le) (auto simp: list_all_iff)
  moreover have "sum_list (map (\<lambda>e. length (entry_bytes (fst e)) + 204) (c_stale c)) \<le> 30204 * length (c_stale c)"
    using assms(4) small_fits(3) by (intro sum_le) (fastforce simp: list_all_iff)
  ultimately show "stored_size c \<le> 4000000000" using assms(3,5,6) by (simp add: stored_size_def)
  show "length (c_registry c) \<le> 1000000" using assms(6) by simp
qed (rule assms(7))

end
