(* ===== verification/Commands.thy ===== *)
theory Commands
  imports Sizes
begin

section \<open>The commands that read archives\<close>

text \<open>
  The second half of \<^verbatim>\<open>apps/obscli/cli.cpp\<close>: the commands that load an archive and print what it
  holds, and the dispatch. Each is a function of the disk and the options; none changes the disk.
\<close>

subsection \<open>Archives and traces\<close>

definition load_view :: "disk \<Rightarrow> string \<Rightarrow> archive result result" where
  "load_view d path = load_archive d path True"

definition find_trace :: "archive \<Rightarrow> id128 \<Rightarrow> request_trace option result" where
  "find_trace v rid =
     (case replay (ar_accepted v) of
        Err e \<Rightarrow> Err e
      | Ok rp \<Rightarrow> Ok (find (\<lambda>t. tr_request_id t = rid) (rp_traces rp)))"

text \<open>The two guards every command starts with.\<close>

definition with_archive :: "string \<Rightarrow> int \<Rightarrow> disk \<Rightarrow> args \<Rightarrow> (archive \<Rightarrow> cmd_result result) \<Rightarrow> cmd_result result" where
  "with_archive cmd code d a f =
     (case load_view d (opt a ''archive'' []) of
        Err e \<Rightarrow> Err e
      | Ok (Err e) \<Rightarrow> Ok (fails code (cmd @ '': '' @ e @ nl))
      | Ok (Ok v) \<Rightarrow> f v)"

definition with_trace :: "string \<Rightarrow> args \<Rightarrow> archive \<Rightarrow> (request_trace \<Rightarrow> cmd_result) \<Rightarrow> cmd_result result" where
  "with_trace cmd a v f =
     (case find_trace v (parse_id (opt a ''request'' [])) of
        Err e \<Rightarrow> Err e
      | Ok None \<Rightarrow> Ok (fails 1 (cmd @ '': request not found'' @ nl))
      | Ok (Some t) \<Rightarrow> Ok (f t))"

definition json_line :: "json \<Rightarrow> string" where
  "json_line j = to_pretty j @ nl"

definition num :: "'w::len word \<Rightarrow> string" where
  "num w = to_string_word w"

definition cnt :: "'a list \<Rightarrow> string" where
  "cnt xs = dec_string (length xs)"

subsection \<open>Listing and inspecting\<close>

definition list_line :: "nat \<Rightarrow> observation \<Rightarrow> string" where
  "list_line i ob =
     ''  '' @ dec_string i @ '' obs='' @ to_hex (o_id ob) @ '' type='' @ pad_right 20 (obs_type_name (o_type ob)) @
     '' seq='' @ num (o_seq ob) @ '' boot='' @ to_hex (o_boot ob) @ '' src_gen='' @ num (o_src_gen ob) @
     '' obs_gen='' @ num (o_obs_gen ob) @ '' epoch='' @ num (o_epoch ob) @
     '' prov='' @ provenance_name (o_provenance ob) @ '' req='' @ to_hex (o_request_id ob) @ nl"

definition cmd_list :: "disk \<Rightarrow> args \<Rightarrow> cmd_result result" where
  "cmd_list d a = with_archive ''list'' 2 d a (\<lambda>v. Ok (prints 0
     (''magic='' @ concat (map hex_byte (be_bytes 4 kArchiveMagic)) @ '' version='' @ num kArchiveVersion @
      '' epoch='' @ num (ar_epoch v) @ '' accepted='' @ cnt (ar_accepted v) @ '' stale='' @ cnt (ar_stale v) @
      '' sources='' @ cnt (ar_registry v) @ nl @
      concat (map (\<lambda>(i, ob). list_line i ob) (enumerate 0 (ar_accepted v))))))"

definition cmd_inspect :: "disk \<Rightarrow> args \<Rightarrow> cmd_result result" where
  "cmd_inspect d a = with_archive ''inspect'' 2 d a (\<lambda>v.
     Ok (case find (\<lambda>ob. o_id ob = parse_id (opt a ''id'' [])) (ar_accepted v) of
           Some ob \<Rightarrow> prints 0 (json_line (observation_json ob))
         | None \<Rightarrow> fails 1 (''inspect: id not found'' @ nl)))"

subsection \<open>One request\<close>

definition trace_line :: "trace_event \<Rightarrow> string" where
  "trace_line e =
     ''  #'' @ pad_right 3 (num (e_ordinal e)) @ '' '' @ pad_right 20 (obs_type_name (e_type e)) @
     '' ts='' @ num (e_ts e) @ '' seq='' @ num (e_seq e) @ '' prov='' @ provenance_name (e_provenance e) @
     '' src='' @ to_hex (e_source e) @ nl"

definition cmd_trace :: "disk \<Rightarrow> args \<Rightarrow> cmd_result result" where
  "cmd_trace d a = with_archive ''trace'' 2 d a (\<lambda>v. with_trace ''trace'' a v (\<lambda>t.
     prints 0 (if flag a ''json'' then json_line (trace_json t)
       else ''request '' @ to_hex (tr_request_id t) @ '' outcome='' @ outcome_name (tr_outcome t) @
            '' epochs='' @ num (tr_min_epoch t) @ ''..'' @ num (tr_max_epoch t) @
            '' boots='' @ cnt (tr_boots t) @ nl @ concat (map trace_line (tr_timeline t)))))"

definition timeline_line :: "trace_event \<Rightarrow> string" where
  "timeline_line e =
     num (e_ts e) @ '' ns  '' @ pad_right 22 (obs_type_name (e_type e)) @
     ''  prov='' @ pad_right 12 (provenance_name (e_provenance e)) @ ''  boot='' @ to_hex (e_boot e) @ nl"

definition cmd_timeline :: "disk \<Rightarrow> args \<Rightarrow> cmd_result result" where
  "cmd_timeline d a = with_archive ''timeline'' 2 d a (\<lambda>v. with_trace ''timeline'' a v (\<lambda>t.
     prints 0 (concat (map timeline_line (tr_timeline t)))))"

definition cmd_explain :: "disk \<Rightarrow> args \<Rightarrow> cmd_result result" where
  "cmd_explain d a = with_archive ''explain'' 2 d a (\<lambda>v. with_trace ''explain'' a v (\<lambda>t.
     let e = explain_request t
     in prints 0 (if flag a ''json'' then json_line (explanation_json e) else c_str (explanation_text e))))"

definition cmd_latency :: "disk \<Rightarrow> args \<Rightarrow> cmd_result result" where
  "cmd_latency d a = with_archive ''latency'' 2 d a (\<lambda>v. with_trace ''latency'' a v (\<lambda>t.
     let b = breakdown_of t
     in prints 0 ((if flag a ''json'' then json_line (breakdown_json b) else latency_text b 0) @
          attribution_text (attribute_resources t))))"

subsection \<open>Several requests\<close>

definition metrics_line :: "tail_metrics \<Rightarrow> string" where
  "metrics_line m =
     ''tail: p50='' @ num (tm_p50_ns m) @ '' p90='' @ num (tm_p90_ns m) @ '' p95='' @ num (tm_p95_ns m) @
     '' p99='' @ num (tm_p99_ns m) @ '' p999='' @ num (tm_p999_ns m) @ '' n='' @ num (tm_count m) @ nl"

definition cmd_tail :: "disk \<Rightarrow> args \<Rightarrow> cmd_result result" where
  "cmd_tail d a = with_archive ''tail'' 2 d a (\<lambda>v.
     case replay (ar_accepted v) of
       Err e \<Rightarrow> Err e
     | Ok rp \<Rightarrow>
         (let tails = explain_tail (rp_traces rp) (opt_f64 a ''pct'' (f64_of_nat 90))
          in Ok (prints 0
               (if flag a ''json''
                then json_line (json_object [(''metrics'', metrics_json (rp_metrics rp)),
                       (''tail'', json_array (map tail_json tails))])
                else metrics_line (rp_metrics rp) @ concat (map (\<lambda>t. c_str (tail_text t)) tails)))))"

definition cmd_compare :: "disk \<Rightarrow> args \<Rightarrow> cmd_result result" where
  "cmd_compare d a = with_archive ''compare'' 2 d a (\<lambda>v.
     case find_trace v (parse_id (opt a ''a'' [])) of
       Err e \<Rightarrow> Err e
     | Ok ta \<Rightarrow>
         (case find_trace v (parse_id (opt a ''b'' [])) of
            Err e \<Rightarrow> Err e
          | Ok tb \<Rightarrow>
              Ok (case (ta, tb) of
                    (Some x, Some y) \<Rightarrow>
                      (let c = compare_traces x y
                       in prints 0 (if flag a ''json'' then json_line (comparison_json c) else comparison_text c))
                  | _ \<Rightarrow> fails 1 (''compare: request missing'' @ nl))))"

definition rule_of_name :: "string \<Rightarrow> counterfactual_rule" where
  "rule_of_name s =
     (if s = ''remove_retry'' then REMOVE_RETRY
      else if s = ''warm_residency'' then WARM_RESIDENCY
      else if s = ''reduce_transfer_by_half'' then REDUCE_TRANSFER_BY_HALF
      else REMOVE_QUEUE_WAIT)"

definition cmd_counterfactual :: "disk \<Rightarrow> args \<Rightarrow> cmd_result result" where
  "cmd_counterfactual d a = with_archive ''counterfactual'' 2 d a (\<lambda>v. with_trace ''counterfactual'' a v (\<lambda>t.
     let cf = counterfactual t (rule_of_name (opt a ''rule'' ''remove_queue_wait''))
     in prints 0 (if flag a ''json'' then json_line (counterfactual_json cf) else c_str (counterfactual_text cf))))"

subsection \<open>Whole archives\<close>

definition replay_report :: "archive \<Rightarrow> cmd_result" where
  "replay_report v = prints (if ar_replay_match v then 0 else 1)
     (''obs='' @ cnt (ar_accepted v) @ '' traces='' @ num (rp_request_trace_count (ar_verified_replay v)) @
      '' replay_match='' @ bool_digit (ar_replay_match v) @ nl @
      ''evidence='' @ digest_hex (ar_evidence_digest v) @ nl @
      ''trace='' @ digest_hex (ar_trace_digest v) @ nl @
      ''explanation='' @ digest_hex (ar_explanation_digest v) @ nl @
      ''aggregate='' @ digest_hex (ar_aggregate_digest v) @ nl)"

definition cmd_replay :: "disk \<Rightarrow> args \<Rightarrow> cmd_result result" where
  "cmd_replay d a = with_archive ''replay'' 2 d a (\<lambda>v. Ok (replay_report v))"

definition cmd_recover :: "disk \<Rightarrow> args \<Rightarrow> cmd_result result" where
  "cmd_recover d a =
     (case load_view d (opt a ''archive'' []) of
        Err e \<Rightarrow> Err e
      | Ok (Err e) \<Rightarrow> Ok (fails 1 (''recover: REJECTED '' @ e @ nl))
      | Ok (Ok v) \<Rightarrow> Ok (prints 0
          (''RECOVERED epoch='' @ num (ar_epoch v) @ '' accepted='' @ cnt (ar_accepted v) @
           '' stale='' @ cnt (ar_stale v) @ '' replay_match='' @ bool_digit (ar_replay_match v) @ nl)))"

definition batch_step :: "observation \<Rightarrow> (string, u64) omap \<Rightarrow> (string, u64) omap" where
  "batch_step ob m =
     (if o_type ob = OT_BATCH_FORM
      then let k = to_hex (id_field ob ''batch_id''); old = (case map_of m k of None \<Rightarrow> 0 | Some n \<Rightarrow> n)
           in omap_set k (max old (u64_field ob ''batch_size'' 0)) m
      else m)"

definition cmd_batch :: "disk \<Rightarrow> args \<Rightarrow> cmd_result result" where
  "cmd_batch d a = with_archive ''batch'' 2 d a (\<lambda>v.
     let m = fold batch_step (ar_accepted v) []
     in Ok (prints 0 (''batches='' @ cnt m @ nl @
          concat (map (\<lambda>(b, n). ''  batch='' @ b @ '' size='' @ num n @ nl) m))))"

definition worker_line :: "source_authority \<Rightarrow> string" where
  "worker_line w =
     ''  worker='' @ to_hex (a_worker w) @ '' boot='' @ to_hex (a_boot w) @ '' src_gen='' @ num (a_src_gen w) @
     '' obs_gen='' @ num (a_obs_gen w) @ '' last_seq='' @ num (a_last_seq w) @
     '' restart='' @ to_string_int (sint (a_restart_count w)) @ nl"

definition cmd_worker :: "disk \<Rightarrow> args \<Rightarrow> cmd_result result" where
  "cmd_worker d a = with_archive ''worker'' 2 d a (\<lambda>v.
     Ok (prints 0 (''registry='' @ cnt (ar_registry v) @ nl @ concat (map worker_line (ar_registry v)))))"

definition cmd_snapshot :: "disk \<Rightarrow> args \<Rightarrow> cmd_result result" where
  "cmd_snapshot d a = with_archive ''snapshot'' 2 d a (\<lambda>v.
     case replay (ar_accepted v) of
       Err e \<Rightarrow> Err e
     | Ok rp \<Rightarrow> Ok (prints 0 (json_line (json_object
         [(''epoch'', JUInt (ar_epoch v)), (''accepted'', JUInt (of_nat (length (ar_accepted v)))),
          (''stale'', JUInt (of_nat (length (ar_stale v)))),
          (''trace_count'', JUInt (rp_request_trace_count rp)), (''obs_count'', JUInt (rp_obs_count rp)),
          (''tail'', metrics_json (rp_metrics rp)),
          (''digest'', JString (digest_hex (ar_aggregate_digest v)))]))))"

definition cmd_device :: cmd_result where
  "cmd_device = prints 0 (''{'' @ [CHR 0x22] @ ''device'' @ [CHR 0x22] @ '':'' @ [CHR 0x22] @ ''RTX 5090'' @
     [CHR 0x22] @ ''}'' @ nl)"

text \<open>The build without CUDA.\<close>

definition cmd_cuda :: cmd_result where
  "cmd_cuda = fails 1 (''cuda: built without CUDA'' @ nl)"

subsection \<open>The dispatch\<close>

definition usage_text :: "string \<Rightarrow> string" where
  "usage_text program =
     ''Serving Observatory 1.0.0'' @ nl @ ''usage: '' @ program @ '' <command> [options]'' @ nl @
     ''commands: serve source ingest list inspect trace timeline explain latency tail'' @ nl @
     ''          compare counterfactual replay recover save batch worker device snapshot'' @ nl @
     ''          multiprocess cuda benchmark help'' @ nl"

text \<open>
  The commands that start processes and sockets or measure time are outside the model: for them
  \<open>read_command\<close> is \<open>None\<close>. \<open>ingest\<close> is the one command of the model that writes.
\<close>

definition read_command :: "string \<Rightarrow> disk \<Rightarrow> args \<Rightarrow> cmd_result result option" where
  "read_command cmd d a = map_option (\<lambda>f. f d a) (map_of
     [(''list'', cmd_list), (''inspect'', cmd_inspect), (''trace'', cmd_trace), (''timeline'', cmd_timeline),
      (''explain'', cmd_explain), (''latency'', cmd_latency), (''tail'', cmd_tail), (''compare'', cmd_compare),
      (''counterfactual'', cmd_counterfactual), (''replay'', cmd_replay), (''recover'', cmd_recover),
      (''batch'', cmd_batch), (''worker'', cmd_worker), (''snapshot'', cmd_snapshot),
      (''device'', \<lambda>_ _. Ok cmd_device), (''cuda'', \<lambda>_ _. Ok cmd_cuda)] cmd)"

definition os_commands :: "string list" where
  "os_commands = [''serve'', ''source'', ''multiprocess'', ''benchmark'']"

definition cli_main :: "u64 \<Rightarrow> text_files \<Rightarrow> (string \<Rightarrow> write_outcome) \<Rightarrow> disk \<Rightarrow> string list \<Rightarrow>
    (cmd_result result \<times> disk) option" where
  "cli_main junk files st d argv =
     (case argv of
        program # cmd # rest \<Rightarrow>
          (case parse_args (cmd # rest) of
             Err e \<Rightarrow> Some (Err e, d)
           | Ok a0 \<Rightarrow>
               (let a = a0\<lparr>a_positional := cmd # a_positional a0\<rparr>
                in if cmd = ''ingest'' then Some (cmd_ingest junk files st d a)
                   else (case read_command cmd d a of
                           Some r \<Rightarrow> Some (r, d)
                         | None \<Rightarrow>
                             if cmd \<in> set os_commands then None
                             else if cmd = ''help'' \<or> cmd = ''--help'' \<or> cmd = ''-h''
                             then Some (Ok (prints 0 (usage_text program)), d)
                             else Some (Ok \<lparr>cm_code = 1, cm_out = usage_text program,
                                    cm_err = ''unknown command: '' @ cmd @ nl\<rparr>, d))))
      | _ \<Rightarrow> Some (Ok (prints 1 (usage_text (concat (take 1 argv)))), d))"

subsection \<open>Finding a trace\<close>

lemma reconstruct_request [simp]: "tr_request_id (reconstruct_trace os rid) = rid"
  by (simp add: reconstruct_trace_def new_trace_def Let_def split: prod.split)

lemma find_map_key:
  assumes "distinct ks" and "\<And>k. key (f k) = k"
  shows "find (\<lambda>t. key t = rid) (map f ks) = (if rid \<in> set ks then Some (f rid) else None)"
  using assms(1) by (induction ks) (auto simp: assms(2))

lemma replay_result_traces:
  assumes "replay obs = Ok rp"
  shows "rp_traces rp = replay_traces obs"
  using assms by (auto simp: replay_def Let_def split: sum.splits)

lemma find_trace_evidence:
  assumes "replay (ar_accepted v) = Ok rp"
  shows "find_trace v rid = Ok
    (if rid = id_null \<or> filter (\<lambda>ob. o_request_id ob = rid) (ar_accepted v) = [] then None
     else Some (reconstruct_trace (filter (\<lambda>ob. o_request_id ob = rid) (ar_accepted v)) rid))"
proof -
  have "rid \<in> requests_of (ar_accepted v) \<longleftrightarrow>
      \<not> (rid = id_null \<or> filter (\<lambda>ob. o_request_id ob = rid) (ar_accepted v) = [])"
    by (auto simp: requests_of_def filter_empty_conv)
  moreover have "finite (requests_of (ar_accepted v))" by (simp add: requests_of_def)
  ultimately show ?thesis
    by (auto simp: find_trace_def assms replay_result_traces [OF assms] replay_traces_requests
          find_map_key request_evidence_def)
qed

text \<open>C33: Looking for a request in an archive finds its trace exactly when the accepted evidence names the
  request, and the trace is the reconstruction from all evidence that does.\<close>

theorem find_trace_exact:
  assumes "replay (ar_accepted v) = Ok rp"
  shows "find_trace v rid = Ok
    (if rid = id_null \<or> filter (\<lambda>ob. o_request_id ob = rid) (ar_accepted v) = [] then None
     else Some (reconstruct_trace (filter (\<lambda>ob. o_request_id ob = rid) (ar_accepted v)) rid))"
  using assms by (rule find_trace_evidence)

theorem find_trace_exact_witness:
  "\<exists>rp. replay [default_observation] = Ok rp \<and>
     find_trace (empty_archive\<lparr>ar_accepted := [default_observation]\<rparr>) (Id128 0 7) = Ok None"
proof -
  obtain a where "build_archive sample_coordinator = Ok a" "archive_ok a" "ar_accepted a = [default_observation]"
    by (rule sample_archive)
  then obtain rp where rp: "replay [default_observation] = Ok rp"
    using build_archive_replay(1) by metis
  have "o_request_id default_observation = id_null"
    by (simp add: o_request_id_def id_field_def default_observation_def)
  then show ?thesis
    using rp find_trace_exact [of "empty_archive\<lparr>ar_accepted := [default_observation]\<rparr>" rp "Id128 0 7"]
    by (simp add: id_null_def)
qed

subsection \<open>Replaying what was ingested\<close>

lemma load_verified:
  assumes "load_archive d path True = Ok (Ok v)"
  shows "ar_replay_match v" and "\<exists>rp. replay (ar_accepted v) = Ok rp"
proof -
  obtain data where data: "d path = File data"
    using assms by (cases "d path") (simp_all add: load_archive_def file_read_all_def)
  obtain body where "load_body body True = Ok (Ok v)"
    using load_frame_only [OF data assms] by blast
  then show "ar_replay_match v" "\<exists>rp. replay (ar_accepted v) = Ok rp" using load_body_ok [of body True v] by auto
qed

text \<open>The replay command succeeds exactly when the archive loads with its digests verified, and else
  reports a load error: the exit code and the line for a mismatch are never used.\<close>

theorem replay_exit_code:
  assumes "cmd_replay d a = Ok r"
  shows "cm_code r = (if \<exists>v. load_archive d (opt a ''archive'' []) True = Ok (Ok v) then 0 else 2)"
  using assms load_verified(1)
  by (auto simp: cmd_replay_def with_archive_def load_view_def replay_report_def prints_def fails_def
        split: sum.splits)

theorem replay_exit_code_witness:
  "\<exists>r. cmd_replay (\<lambda>_. No_file) no_args = Ok r \<and> cm_code r = 2"
proof -
  obtain r where r: "cmd_replay (\<lambda>_. No_file) no_args = Ok r"
    by (simp add: cmd_replay_def with_archive_def load_view_def load_archive_def file_read_all_def)
  then show ?thesis
    using replay_exit_code [OF r] by (simp add: load_archive_def file_read_all_def)
qed

text \<open>What the ingest command has accepted saves and loads when it is of ordinary size.\<close>

lemma ingested_saves:
  assumes "cf_clock_domain cfg = ''mono_ns''" and "ordinary obs"
    and "sum_list (map (length \<circ> entry_bytes) obs) \<le> 3900000000"
    and "length obs = length (script_observations cfg 0 es)" and "c_stale (ir_coord (ingest_entries cfg es)) = []" and "mset (all_accepted (ir_coord (ingest_entries cfg es))) = mset obs"
    and "st path = WRITTEN"
  shows "\<exists>ar d'. save_archive st d (ir_coord (ingest_entries cfg es)) path = (Ok (Ok ar), d') \<and>
    load_archive d' path True = Ok (Ok ar) \<and> ar_accepted ar = all_accepted (ir_coord (ingest_entries cfg es)) \<and>
    ar_stale ar = c_stale (ir_coord (ingest_entries cfg es)) \<and>
    ar_registry ar = registry_snapshot (ir_coord (ingest_entries cfg es))"
proof (rule ordinary_saves_and_loads)
  let ?c = "ir_coord (ingest_entries cfg es)" and ?s = "set_epoch (cf_epoch cfg) new_coordinator"
  have len: "length (all_accepted ?c) = length obs" and set: "set (all_accepted ?c) = set obs"
    using mset_eq_length [OF assms(6)] mset_eq_setD [OF assms(6)] by simp_all
  show "ordinary (all_accepted ?c)"
    using assms(2) by (simp add: ordinary_def short_reasons_def list_all_iff len set)
  show "reachable ?c"
    unfolding ingest_entries_events [OF assms(1)]
    by (intro reachable_run reachable.step [OF reachable.start live_step.epoch])
  have "length (c_registry ?s) = 0" by (simp add: new_coordinator_def set_epoch_def)
  then have reg: "length (c_registry ?c) \<le> 100001"
    using length_registry_run [of "EvHello (ingest_hello cfg) # map EvObs (script_observations cfg 0 es)" ?s] assms(2,4)
    unfolding ingest_entries_events [OF assms(1)] by (simp add: ordinary_def max_evidence_def)
  then show "length (c_registry ?c) \<le> 1000000" by simp
  have "sum_list (map (length \<circ> entry_bytes) (all_accepted ?c)) = sum_list (map (length \<circ> entry_bytes) obs)"
    by (metis assms(6) mset_map sum_mset_sum_list)
  then show "stored_size ?c \<le> 4000000000"
    using assms(3) reg by (simp add: stored_size_def assms(5))
qed (simp_all add: assms(5,7))

text \<open>C3: From script to replay: for a script that can be read, whose observations get distinct derived ids
  and are of ordinary size (each one that the codec represents, so no value overflows to an infinity;
  at most 100000, with reasons of at most 4000 characters; together at most $3.9 \cdot 10^9$ bytes), and
  an output file that is written in full: the ingest command accepts every observation and saves,
  the replay command on that file succeeds with the digest the ingest printed, and the archive
  holds exactly the observations of the script.\<close>

theorem ingest_then_replay:
  assumes "parse_script junk files (opt a ''script'' []) = Ok es"
    and "ordinary (script_observations (ingest_config a) 0 es)"
    and "sum_list (map (length \<circ> entry_bytes) (script_observations (ingest_config a) 0 es)) \<le> 3900000000"
    and "distinct (map o_id (script_observations (ingest_config a) 0 es))"
    and "st (opt a ''out'' ''coord.sobs'') = WRITTEN" and "opt b ''archive'' [] = opt a ''out'' ''coord.sobs''"
  shows "\<exists>ar d'. cmd_ingest junk files st d a =
      (Ok (prints 0 (''accepted='' @ dec_string (length (script_observations (ingest_config a) 0 es)) @
         '' stale=0 saved=1'' @ nl @ ''evidence_digest='' @ digest_hex (ar_evidence_digest ar) @ nl)), d') \<and>
    cmd_replay d' b = Ok (replay_report ar) \<and> cm_code (replay_report ar) = 0 \<and>
    mset (ar_accepted ar) = mset (script_observations (ingest_config a) 0 es)"
proof -
  let ?cfg = "ingest_config a"
  let ?r = "ingest_entries ?cfg es" and ?obs = "script_observations ?cfg 0 es" and ?out = "opt a ''out'' ''coord.sobs''"
  have cfg: "cf_clock_domain ?cfg = ''mono_ns''" by (simp add: ingest_config_def)
  have few: "length ?obs < 2 ^ 64" using assms(2) by (simp add: ordinary_def max_evidence_def)
  have run: "ir_accepted ?r = of_nat (length ?obs)" "ir_stale ?r = 0" "c_stale (ir_coord ?r) = []"
      "mset (all_accepted (ir_coord ?r)) = mset ?obs"
    using ingest_accepts_script [OF cfg assms(4) few] by simp_all
  obtain ar d' where save: "save_archive st d (ir_coord ?r) ?out = (Ok (Ok ar), d')"
      "load_archive d' ?out True = Ok (Ok ar)" "ar_accepted ar = all_accepted (ir_coord ?r)"
    using ingested_saves [where d = d and es = es, OF cfg assms(2,3) refl run(3,4), where st = st, OF assms(5)] by blast
  have "to_string_word (ir_accepted ?r) = dec_string (length ?obs)" "to_string_word (ir_stale ?r) = ''0''"
    using few
    by (simp_all add: run to_string_word_def unat_of_nat take_bit_nat_eq_self dec_string.simps [of 0] char_of_def bit_Suc_0_iff)
  moreover have "ar_replay_match ar" by (rule load_verified(1) [OF save(2)])
  ultimately show ?thesis
    using run save
    by (intro exI [of _ ar] exI [of _ d']) (simp add: cmd_ingest_def assms(1) ingest_report_def cmd_replay_def with_archive_def load_view_def
          assms(6) replay_report_def prints_def Let_def)
qed

theorem ingest_then_replay_witness:
  "\<exists>d' ar. cmd_ingest 0 (\<lambda>_. Some (''OBS KV_HIT 1000'' @ nl)) (\<lambda>_. WRITTEN) (\<lambda>_. No_file) no_args =
      (Ok (prints 0 (''accepted=1 stale=0 saved=1'' @ nl @ ''evidence_digest='' @
         digest_hex (ar_evidence_digest ar) @ nl)), d') \<and>
    cmd_replay d' (set_opt ''archive'' ''coord.sobs'' no_args) = Ok (replay_report ar) \<and> length (ar_accepted ar) = 1"
proof -
  let ?cfg = "ingest_config no_args"
  let ?ob = "entry_observation ?cfg 1 sample_entry"
  have cfg: "cf_clock_domain ?cfg = ''mono_ns''" by (simp add: ingest_config_def)
  note fits = sample_entry_fits [OF cfg]
  have obs: "script_observations ?cfg 0 [sample_entry] = [?ob]"
    by (simp add: sample_entry_def new_entry_def)
  have "str_field ?ob ''reason'' [] = []"
    by (simp add: str_field_def entry_observation_def sample_entry_def new_entry_def default_observation_def Let_def)
  then have ord: "ordinary [?ob]"
    using fits(1) by (simp add: ordinary_def short_reasons_def max_evidence_def max_reason_def)
  have size: "sum_list (map (length \<circ> entry_bytes) [?ob]) \<le> 3900000000" using fits(2) by simp
  have opts: "opt no_args k v = v" "opt (set_opt ''archive'' ''coord.sobs'' no_args) ''archive'' v = ''coord.sobs''" for k v
    by (simp_all add: no_args_def opt_def set_opt_def)
  have one: "dec_string (length [?ob]) = ''1''"
    by (simp add: dec_string.simps char_of_def bit_Suc_0_iff)
  note run = ingest_then_replay [where st = "\<lambda>_. WRITTEN" and d = "\<lambda>_. No_file" and a = no_args
      and b = "set_opt ''archive'' ''coord.sobs'' no_args" and es = "[sample_entry]",
      unfolded obs opts one, OF sample_entry_text ord size]
  obtain ar d' where "cmd_ingest 0 (\<lambda>_. Some (''OBS KV_HIT 1000'' @ nl)) (\<lambda>_. WRITTEN) (\<lambda>_. No_file) no_args =
      (Ok (prints 0 (''accepted='' @ ''1'' @ '' stale=0 saved=1'' @ nl @ ''evidence_digest='' @
         digest_hex (ar_evidence_digest ar) @ nl)), d')"
    and "cmd_replay d' (set_opt ''archive'' ''coord.sobs'' no_args) = Ok (replay_report ar)"
    and "mset (ar_accepted ar) = mset [?ob]"
    using run by fastforce
  moreover from this(3) have "length (ar_accepted ar) = 1" using mset_eq_length by fastforce
  ultimately show ?thesis by auto
qed

end
