(* ===== verification/Sessions.thy ===== *)
theory Sessions
  imports Script
begin

section \<open>The serve and source commands\<close>

text \<open>
  \<^verbatim>\<open>cmd_source\<close> of \<^verbatim>\<open>apps/obscli/cli.cpp\<close>, which drives a source through a session (hello,
  stale-authority probes, a script, goodbye), and what \<^verbatim>\<open>cmd_serve\<close> does with the coordinator once
  its server has stopped. The connection, the transport and what the uninitialised session field
  holds are arguments; waiting has no effect on the state.
\<close>

subsection \<open>The source command\<close>

definition source_cfg :: "args \<Rightarrow> source_config" where
  "source_cfg a =
     \<lparr>cf_source = parse_id (opt a ''source'' ''00000000000000000000000000000001''),
      cf_worker = parse_id (opt a ''worker'' ''00000000000000000000000000000002''),
      cf_boot = parse_id (opt a ''boot'' ''00000000000000000000000000000003''),
      cf_src_gen = opt_u64 a ''src-gen'' 1, cf_obs_gen = opt_u64 a ''obs-gen'' 1,
      cf_epoch = opt_u64 a ''epoch'' 1, cf_clock_domain = opt a ''clock'' ''mono_ns'',
      cf_role = opt a ''role'' ''worker''\<rparr>"

text \<open>An observation that claims an authority other than the source's own.\<close>

definition stale_probe :: "args \<Rightarrow> string \<Rightarrow> 's source \<Rightarrow> observation" where
  "stale_probe a which src =
     (let key = ''stale-'' @ which;
          req = parse_id (opt a ''stale-request'' ''000000000000000000000000000000aa'');
          ob = set_field ''request_id'' (FvId req) (make_observation OT_REQUEST src)
      in if which = ''epoch'' then ob\<lparr>o_epoch := opt_u64 a key 0\<rparr>
         else if which = ''boot'' then ob\<lparr>o_boot := parse_id (opt a key [])\<rparr>
         else if which = ''srcgen'' then ob\<lparr>o_src_gen := opt_u64 a key 0\<rparr>
         else if which = ''obsgen'' then ob\<lparr>o_obs_gen := opt_u64 a key 0\<rparr>
         else ob)"

definition probe_line :: "string \<Rightarrow> obs_ack_payload result \<Rightarrow> string" where
  "probe_line which r =
     ''STALE_'' @ which @ ''='' @
     (case r of Ok k \<Rightarrow> if k_accepted k then ''ACCEPTED_BUG'' else ''REJECTED'' | Err e \<Rightarrow> ''NOACK'') @ nl"

text \<open>The loops print as they go; an encoder's exception ends the program.\<close>

fun run_probes :: "'s sender \<Rightarrow> 's recv \<Rightarrow> args \<Rightarrow> string list \<Rightarrow> 's source \<Rightarrow> string result \<times> 's source" where
  "run_probes send recv a [] src = (Ok [], src)"
| "run_probes send recv a (which # ws) src =
     (if map_of (a_opts a) (''stale-'' @ which) = None then run_probes send recv a ws src
      else case send_observation send recv (stale_probe a which src) src of
        (Err e, src') \<Rightarrow> (Err e, src')
      | (Ok r, src') \<Rightarrow>
          (case run_probes send recv a ws src' of
             (Err e, src'') \<Rightarrow> (Err e, src'')
           | (Ok out, src'') \<Rightarrow> (Ok (probe_line which r @ out), src'')))"

definition ack_line :: "obs_type \<Rightarrow> obs_ack_payload result \<Rightarrow> string" where
  "ack_line t r =
     ''ACK '' @ obs_type_name t @ '' '' @
     (case r of
        Ok k \<Rightarrow> if k_accepted k then ''ACCEPTED'' else c_str (''REJECTED:'' @ k_reason k)
      | Err e \<Rightarrow> ''NOFRAME'') @ nl"

fun run_script :: "'s sender \<Rightarrow> 's recv \<Rightarrow> bool \<Rightarrow> script_entry list \<Rightarrow> u64 \<Rightarrow> 's source \<Rightarrow> string result \<times> 's source" where
  "run_script send recv fire [] seq src = (Ok [], src)"
| "run_script send recv fire (e # es) seq src =
     (if se_kind e = EK_SLEEP then run_script send recv fire es seq src
      else let (ob, seq') = apply_entry src e seq
           in if fire
              then (case send_observation_fire send ob src of
                      (Err x, src') \<Rightarrow> (Err x, src')
                    | (Ok _, src') \<Rightarrow> run_script send recv fire es seq' src')
              else (case send_observation send recv ob src of
                      (Err x, src') \<Rightarrow> (Err x, src')
                    | (Ok r, src') \<Rightarrow>
                        (case run_script send recv fire es seq' src' of
                           (Err x, src'') \<Rightarrow> (Err x, src'')
                         | (Ok out, src'') \<Rightarrow> (Ok (ack_line (se_type e) r @ out), src''))))"

definition probe_kinds :: "string list" where
  "probe_kinds = [''epoch'', ''boot'', ''srcgen'', ''obsgen'']"

text \<open>The script part: \<^verbatim>\<open>--script\<close> not given, not readable, or run.\<close>

definition source_script :: "u64 \<Rightarrow> text_files \<Rightarrow> 's sender \<Rightarrow> 's recv \<Rightarrow> args \<Rightarrow> string \<Rightarrow> 's source \<Rightarrow>
    cmd_result result \<times> 's source" where
  "source_script junk files send recv a out src =
     (if opt a ''script'' [] = [] then (Ok (prints 0 out), disconnect send src)
      else case parse_script junk files (opt a ''script'' []) of
        Err e \<Rightarrow> (Ok \<lparr>cm_code = 2, cm_out = out, cm_err = ''source: '' @ e @ nl\<rparr>, src)
      | Ok es \<Rightarrow>
          (case run_script send recv (flag a ''fire'') es 0 src of
             (Err e, src') \<Rightarrow> (Err e, src')
           | (Ok acks, src') \<Rightarrow> (Ok (prints 0 (out @ acks)), disconnect send src')))"

definition cmd_source :: "u64 \<Rightarrow> text_files \<Rightarrow> session_status \<Rightarrow> (string \<Rightarrow> u16 \<Rightarrow> 's result) \<Rightarrow> 's sender \<Rightarrow>
    's recv \<Rightarrow> args \<Rightarrow> cmd_result result \<times> 's source" where
  "cmd_source junk files indeterminate dial send recv a =
     (case src_connect (dial (opt a ''host'' ''127.0.0.1'') (ucast (opt_u64 a ''port'' 0)))
             (new_source indeterminate (source_cfg a)) of
        (False, src) \<Rightarrow> (Ok (fails 2 (''source: connect failed'' @ nl)), src)
      | (True, src) \<Rightarrow>
          (case send_hello send recv src of
             (Err e, src') \<Rightarrow> (Err e, src')
           | (Ok False, src') \<Rightarrow> (Ok (fails 2 (''source: hello rejected'' @ nl)), src')
           | (Ok True, src') \<Rightarrow>
               (case run_probes send recv a probe_kinds src' of
                  (Err e, src'') \<Rightarrow> (Err e, src'')
                | (Ok out, src'') \<Rightarrow> source_script junk files send recv a out src'')))"

subsection \<open>The serve command after the server has stopped\<close>

definition serve_manifest :: "u16 \<Rightarrow> coordinator \<Rightarrow> archive result \<Rightarrow> json" where
  "serve_manifest port c saved = json_object
     ([(''port'', JUInt (ucast port)), (''accepted'', JUInt (ucast (c_accepted_total c))),
       (''stale'', JUInt (ucast (c_stale_total c))), (''duplicates'', JUInt (ucast (c_duplicate_total c))),
       (''sources'', JUInt (of_nat (source_count c))), (''saved'', JBool (\<not> isl saved))] @
      (case saved of
         Err e \<Rightarrow> []
       | Ok v \<Rightarrow> [(''evidence_digest'', JString (digest_hex (ar_evidence_digest v))),
                   (''trace_digest'', JString (digest_hex (ar_trace_digest v))),
                   (''aggregate_digest'', JString (digest_hex (ar_aggregate_digest v)))]))"

text \<open>
  The manifest is a text stream: on the program's system a line feed is written as a carriage
  return and a line feed. What becomes of the stream is not looked at.
\<close>

definition text_mode :: "string \<Rightarrow> bytes" where
  "text_mode s = concat (map (\<lambda>c. if c = CHR 0x0A then [0x0D, 0x0A] else [char_byte c]) s)"

definition write_text :: "(string \<Rightarrow> write_outcome) \<Rightarrow> disk \<Rightarrow> string \<Rightarrow> string \<Rightarrow> disk" where
  "write_text st d path s =
     (case st path of
        NOT_OPENED \<Rightarrow> d
      | WRITE_FAILED f \<Rightarrow> d(path := f)
      | CLOSE_FAILED f \<Rightarrow> d(path := f)
      | WRITTEN \<Rightarrow> d(path := File (text_mode s)))"

definition serve_finish :: "(string \<Rightarrow> write_outcome) \<Rightarrow> disk \<Rightarrow> args \<Rightarrow> u16 \<Rightarrow> coordinator \<Rightarrow>
    cmd_result result \<times> disk" where
  "serve_finish st d a port c =
     (case save_archive st d c (opt a ''out'' ''coord.sobs'') of
        (Err e, d') \<Rightarrow> (Err e, d')
      | (Ok saved, d') \<Rightarrow>
          (let m = serve_manifest port c saved; path = opt a ''manifest'' []
           in (Ok (prints (if isl saved then 3 else 0)
                 (''PORT='' @ to_string_word port @ nl @ ''MANIFEST='' @ to_canonical m @ nl)),
               if path = [] then d' else write_text st d' path (to_pretty m))))"

subsection \<open>What the probes show\<close>

text \<open>The value a probe claims differs from the session's; for the epoch it is lower.\<close>

definition probe_is_stale :: "args \<Rightarrow> string \<Rightarrow> source_config \<Rightarrow> bool" where
  "probe_is_stale a which cfg \<longleftrightarrow>
     (which = ''epoch'' \<and> opt_u64 a ''stale-epoch'' 0 < cf_epoch cfg) \<or>
     (which = ''boot'' \<and> parse_id (opt a ''stale-boot'' []) \<noteq> cf_boot cfg) \<or>
     (which = ''srcgen'' \<and> opt_u64 a ''stale-srcgen'' 0 \<noteq> cf_src_gen cfg) \<or>
     (which = ''obsgen'' \<and> opt_u64 a ''stale-obsgen'' 0 \<noteq> cf_obs_gen cfg)"

text \<open>After the source's HELLO the coordinator rejects every stale probe, whatever it held before;
  the probe goes to the stale history with a reason and changes nothing else.\<close>

theorem stale_probe_rejected:
  assumes "probe_is_stale a which (sr_cfg src)"
  shows "\<not> i_accepted (fst (ingest (stale_probe a which src) (snd (register_hello (hello_of (sr_cfg src)) c)))) \<and>
    c_accepted (snd (ingest (stale_probe a which src) (snd (register_hello (hello_of (sr_cfg src)) c)))) =
      c_accepted c"
proof -
  let ?ob = "stale_probe a which src" and ?c = "snd (register_hello (hello_of (sr_cfg src)) c)"
  have key: "obs_key ?ob = key_of (cf_source (sr_cfg src)) (cf_worker (sr_cfg src))"
    by (simp add: stale_probe_def set_field_def make_observation_envelope Let_def)
  obtain v where v: "map_of (c_registry ?c) (obs_key ?ob) = Some v" "a_epoch v = cf_epoch (sr_cfg src)"
      "a_src_gen v = cf_src_gen (sr_cfg src)" "a_obs_gen v = cf_obs_gen (sr_cfg src)" "a_boot v = cf_boot (sr_cfg src)"
    using hello_view [of "sr_cfg src" c] unfolding key by blast
  have "\<not> admits v ?ob"
    using assms
    unfolding probe_is_stale_def
    by (elim disjE conjE)
       (auto simp: admits_def v stale_probe_def set_field_def make_observation_envelope Let_def)
  then have "\<not> ingest_accepts ?ob ?c" using v(1) by (simp add: ingest_accepts_def accepts_iff)
  then show ?thesis by (simp add: ingest_accepted_iff ingest_rejected_same)
qed

theorem stale_probe_rejected_witness:
  "\<not> i_accepted (fst (ingest (stale_probe no_args ''srcgen'' sample_source)
     (snd (register_hello (hello_of (sr_cfg sample_source)) new_coordinator))))"
proof -
  have "probe_is_stale no_args ''srcgen'' (sr_cfg sample_source)"
    by (simp add: probe_is_stale_def opt_u64_def opt_def no_args_def sample_source_def new_source_def)
  from conjunct1 [OF stale_probe_rejected [OF this]] show ?thesis .
qed

subsection \<open>A session among others\<close>

text \<open>
  Between two frames of a session other connections can be served. \<open>gs\<close> lists what they do, one gap
  before each frame: \<open>weave\<close> is the resulting sequence of operations, and \<open>woven_flags\<close> what is decided
  on the session's own observations.
\<close>

definition gap :: "coord_event list list \<Rightarrow> coord_event list" where
  "gap gs = (case gs of [] \<Rightarrow> [] | g # _ \<Rightarrow> g)"

lemma gap_simps [simp]: "gap [] = []" "gap (g # gs) = g"
  by (simp_all add: gap_def)

fun weave :: "coord_event list \<Rightarrow> coord_event list list \<Rightarrow> coord_event list" where
  "weave [] gs = []"
| "weave (e # es) gs = gap gs @ e # weave es (tl gs)"

fun woven_flags :: "coord_event list \<Rightarrow> coord_event list list \<Rightarrow> coordinator \<Rightarrow> bool list" where
  "woven_flags [] gs c = []"
| "woven_flags (EvHello h # es) gs c = woven_flags es (tl gs) (event_step (EvHello h) (run_events (gap gs) c))"
| "woven_flags (EvObs ob # es) gs c =
     i_accepted (fst (ingest ob (run_events (gap gs) c))) #
       woven_flags es (tl gs) (event_step (EvObs ob) (run_events (gap gs) c))"

lemma weave_alone [simp]: "weave es [] = es"
  by (induction es) simp_all

lemma weave_append: "weave (es @ fs) gs = weave es gs @ weave fs (drop (length es) gs)"
  by (induction es gs rule: weave.induct) (simp_all add: drop_Suc)

lemma woven_flags_append:
  "woven_flags (es @ fs) gs c = woven_flags es gs c @ woven_flags fs (drop (length es) gs) (run_events (weave es gs) c)"
  by (induction es gs c rule: woven_flags.induct) (simp_all add: drop_Suc)

lemma length_woven_flags: "length (woven_flags es gs c) = length (sent es)"
  by (induction es gs c rule: woven_flags.induct) simp_all

lemma sent_observations: "sent (map (\<lambda>w. EvObs (f w)) ws) = map f ws"
  by (induction ws) simp_all

lemma weave_shuffles: "length gs \<le> length es \<Longrightarrow> weave es gs \<in> shuffles es (concat gs)"
proof (induction es arbitrary: gs)
  case (Cons e es)
  have first: "g @ xs \<in> shuffles as (g @ bs)" if "xs \<in> shuffles as bs" for g xs as bs :: "coord_event list"
    using that by (induction g) (auto simp: Cons_in_shuffles_rightI)
  show ?case
  proof (cases gs)
    case (Cons g gs')
    then have "weave es gs' \<in> shuffles es (concat gs')" using Cons.IH Cons.prems by simp
    then show ?thesis unfolding Cons by (auto intro!: first Cons_in_shuffles_leftI)
  qed simp
qed simp

lemma woven_decisions:
  assumes "\<forall>e \<in> set es. event_key e = k" and "\<forall>g \<in> set gs. \<forall>e \<in> set g. event_key e \<noteq> k"
  shows "map snd (filter (\<lambda>d. obs_key (fst d) = k) (decisions (weave es gs) c)) = woven_flags es gs c"
proof -
  have none: "filter (\<lambda>d. obs_key (fst d) = k) (decisions g c) = []" if "\<forall>e \<in> set g. event_key e \<noteq> k" for g c
    using that by (induction g c rule: decisions.induct) auto
  have gaps: "\<forall>e \<in> set (gap gs). event_key e \<noteq> k" "\<forall>g \<in> set (tl gs). \<forall>e \<in> set g. event_key e \<noteq> k"
    if "\<forall>g \<in> set gs. \<forall>e \<in> set g. event_key e \<noteq> k" for gs
    using that by (cases gs; simp)+
  show ?thesis
    using assms by (induction es gs c rule: woven_flags.induct) (simp_all add: decisions_append none gaps)
qed

text \<open>
  The session a source command's options describe: its HELLO, a probe for each stale value it is
  given, and the observations of its script.
\<close>

definition given_probes :: "args \<Rightarrow> string list \<Rightarrow> string list" where
  "given_probes a ws = filter (\<lambda>w. map_of (a_opts a) (''stale-'' @ w) \<noteq> None) ws"

definition session_events :: "args \<Rightarrow> script_entry list \<Rightarrow> coord_event list" where
  "session_events a es =
     EvHello (hello_of (source_cfg a)) #
     map (\<lambda>w. EvObs (stale_probe a w (new_source SOBS_DISCONNECTED (source_cfg a) :: unit source)))
       (given_probes a probe_kinds) @
     map EvObs (script_observations (source_cfg a) 0 es)"

subsection \<open>A session over a working connection\<close>

text \<open>
  What a lossless connection to the coordinator's handler gives a source: a frame that is sent is
  handled, after what the others did meanwhile, and its replies become pending; receiving takes pending
  bytes and leaves the coordinator.
\<close>

locale served =
  fixes send :: "'s sender" and recv :: "'s recv" and coord :: "'s \<Rightarrow> coordinator" and pending :: "'s \<Rightarrow> bytes"
    and gaps :: "'s \<Rightarrow> coord_event list list"
  assumes recv_delivers: "delivers recv pending"
    and recv_keeps: "recv n s = (r, s') \<Longrightarrow> coord s' = coord s \<and> gaps s' = gaps s"
    and send_served: "frame_decode data = Ok f \<Longrightarrow>
      handle_frame f (run_events (gap (gaps s)) (coord s)) = (Ok (CN_Continue, out), c') \<Longrightarrow>
      \<exists>s'. send data (Some s) = (Ok (), Some s') \<and> coord s' = c' \<and> gaps s' = tl (gaps s) \<and>
        pending s' = pending s @ concat out"
begin

lemma recv_loop_keeps: "recv_loop recv n out s = (r, s') \<Longrightarrow> coord s' = coord s \<and> gaps s' = gaps s"
proof (induction "n - length out" arbitrary: out s rule: less_induct)
  case less
  show ?case
  proof (cases "n \<le> length out")
    case True
    then show ?thesis using less.prems by (simp add: recv_loop.simps)
  next
    case False
    obtain rr t where t: "recv (min (n - length out) 65536) s = (rr, t)" by fastforce
    have step: "coord t = coord s" "gaps t = gaps s" using recv_keeps [OF t] by simp_all
    show ?thesis
    proof (cases rr)
      case (RecvBytes bs)
      show ?thesis
      proof (cases "bs = []")
        case True
        then show ?thesis
          using less.prems False step by (simp add: recv_loop.simps [of recv n out s] t RecvBytes)
      next
        case ne: False
        then have "n - length (out @ bs) < n - length out" using False by (cases bs) auto
        moreover have "recv_loop recv n (out @ bs) t = (r, s')"
          using less.prems False ne by (simp add: recv_loop.simps [of recv n out s] t RecvBytes)
        ultimately show ?thesis using less.hyps [of "out @ bs" t] step by simp
      qed
    qed (use less.prems False step in \<open>simp_all add: recv_loop.simps [of recv n out s] t\<close>)
  qed
qed

lemma recv_exact_keeps: "recv_exact recv n (Some s) = (r, st) \<Longrightarrow> \<exists>s'. st = Some s' \<and> coord s' = coord s \<and> gaps s' = gaps s"
  by (cases "recv_loop recv n [] s") (auto dest: recv_loop_keeps)

lemma recv_frame_keeps: "recv_frame recv (Some s) = (r, Some s') \<Longrightarrow> coord s' = coord s \<and> gaps s' = gaps s"
proof -
  assume run: "recv_frame recv (Some s) = (r, Some s')"
  obtain r1 st1 where r1: "recv_exact recv 4 (Some s) = (r1, st1)" by fastforce
  then obtain s1 where s1: "st1 = Some s1" "coord s1 = coord s" "gaps s1 = gaps s" using recv_exact_keeps by blast
  have "coord t = coord s \<and> gaps t = gaps s" if "recv_exact recv n (Some s1) = (r2, Some t)" for n r2 t
    using recv_exact_keeps [OF that] s1(2,3) by simp
  then show ?thesis
    using run s1
    by (auto simp: recv_frame_def r1 Let_def simp del: recv_exact.simps
        split: sum.splits if_splits prod.splits)
qed

text \<open>One exchange: a frame the handler answers with one frame.\<close>

lemma exchange:
  assumes "frame_decode data = Ok f"
    and "handle_frame f (run_events (gap (gaps s)) (coord s)) = (Ok (CN_Continue, [ack]), c')"
    and "frame_decode ack = Ok g" and "pending s = []"
  shows "\<exists>s1 s2. send data (Some s) = (Ok (), Some s1) \<and> recv_frame recv (Some s1) = (Ok (Some ack), Some s2) \<and>
    coord s2 = c' \<and> gaps s2 = tl (gaps s) \<and> pending s2 = []"
proof -
  obtain s1 where s1: "send data (Some s) = (Ok (), Some s1)" "coord s1 = c'" "gaps s1 = tl (gaps s)" "pending s1 = ack @ []"
    using send_served [OF assms(1,2)] assms(4) by auto
  obtain s2 where "recv_frame recv (Some s1) = (Ok (Some ack), Some s2)" "pending s2 = []"
    using recv_frame_delivers [OF recv_delivers assms(3) s1(4)] by blast
  then show ?thesis using s1 recv_frame_keeps by auto
qed

lemma send_observation_served:
  assumes "sr_session src = SOBS_REGISTERED" and "sr_stream src = Some s" and "pending s = []"
    and "obs_ok ob" and "encode_observation_payload ob = Ok p" and "length p \<le> max_frame_payload"
  shows "\<exists>k s'. send_observation send recv ob src = (Ok (Ok k), src\<lparr>sr_stream := Some s'\<rparr>) \<and>
    coord s' = event_step (EvObs ob) (run_events (gap (gaps s)) (coord s)) \<and> gaps s' = tl (gaps s) \<and> pending s' = [] \<and>
    k_accepted k = i_accepted (fst (ingest ob (run_events (gap (gaps s)) (coord s))))"
proof -
  let ?c = "run_events (gap (gaps s)) (coord s)"
  obtain data where data: "frame_encode MT_OBS p kProtocolVersion = Ok data" by (simp add: frame_encode_eq)
  let ?f = "\<lparr>f_version = kProtocolVersion, f_type = MT_OBS, f_payload = p\<rparr>"
  have d: "frame_decode data = Ok ?f" using data assms(6) by (simp add: decode_ok_iff)
  obtain ack f k where ack: "handle_frame ?f ?c = (Ok (CN_Continue, [ack]), snd (ingest ob ?c))"
      "frame_decode ack = Ok f" "decode_obs_ack (f_payload f) = Ok k" "k_accepted k = i_accepted (fst (ingest ob ?c))"
    using handle_obs [OF assms(4,5), of kProtocolVersion ?c] by auto
  obtain s1 s2 where "send data (Some s) = (Ok (), Some s1)" "recv_frame recv (Some s1) = (Ok (Some ack), Some s2)"
      "coord s2 = snd (ingest ob ?c)" "gaps s2 = tl (gaps s)" "pending s2 = []"
    using exchange [OF d ack(1,2) assms(3)] by blast
  then show ?thesis
    using assms(1,2,5) data ack(2-4)
    by (auto simp: send_observation_def send_frame_def recv_ack_def)
qed

lemma run_script_served:
  assumes "sr_session src = SOBS_REGISTERED" and "sr_stream src = Some s" and "pending s = []"
    and "list_all sendable (script_observations (sr_cfg src) seq es)"
  shows "\<exists>out s'. run_script send recv False es seq src = (Ok out, src\<lparr>sr_stream := Some s'\<rparr>) \<and>
    coord s' = run_events (weave (map EvObs (script_observations (sr_cfg src) seq es)) (gaps s)) (coord s) \<and>
    gaps s' = drop (length (script_observations (sr_cfg src) seq es)) (gaps s) \<and> pending s' = []"
  using assms
proof (induction es arbitrary: seq src s)
  case Nil
  then show ?case by (cases src) simp
next
  case (Cons e es)
  show ?case
  proof (cases "se_kind e")
    case EK_SLEEP
    then show ?thesis using Cons.IH [OF Cons.prems(1-3), of seq] Cons.prems(4) by simp
  next
    case EK_OBS
    let ?ob = "entry_observation (sr_cfg src) (seq + 1) e"
    obtain p where p: "obs_ok ?ob" "encode_observation_payload ?ob = Ok p" "length p \<le> max_frame_payload"
      using Cons.prems(4) EK_OBS by (auto simp: sendable_def split: sum.splits)
    obtain k s1 where s1: "send_observation send recv ?ob src = (Ok (Ok k), src\<lparr>sr_stream := Some s1\<rparr>)"
        "coord s1 = event_step (EvObs ?ob) (run_events (gap (gaps s)) (coord s))" "gaps s1 = tl (gaps s)" "pending s1 = []"
      using send_observation_served [OF Cons.prems(1-3) p] by blast
    obtain out s' where "run_script send recv False es (seq + 1) (src\<lparr>sr_stream := Some s1\<rparr>) =
          (Ok out, src\<lparr>sr_stream := Some s'\<rparr>)"
        "coord s' = run_events (weave (map EvObs (script_observations (sr_cfg src) (seq + 1) es)) (gaps s1)) (coord s1)"
        "gaps s' = drop (length (script_observations (sr_cfg src) (seq + 1) es)) (gaps s1)" "pending s' = []"
      using Cons.IH [of "src\<lparr>sr_stream := Some s1\<rparr>" s1 "seq + 1"] Cons.prems(1,4) s1(4) EK_OBS by auto
    then show ?thesis
      using s1 EK_OBS
      by (intro exI [of _ "ack_line (se_type e) (Ok k) @ out"] exI [of _ s'])
         (simp add: apply_entry_def Let_def drop_Suc)
  qed
qed

lemma run_probes_served:
  assumes "sr_session src = SOBS_REGISTERED" and "sr_stream src = Some s" and "pending s = []"
    and "list_all (\<lambda>w. sendable (stale_probe a w src)) (given_probes a ws)"
  shows "\<exists>acks s'. run_probes send recv a ws src =
      (Ok (concat (map2 (\<lambda>w k. probe_line w (Ok k)) (given_probes a ws) acks)), src\<lparr>sr_stream := Some s'\<rparr>) \<and>
    length acks = length (given_probes a ws) \<and>
    map k_accepted acks = woven_flags (map (\<lambda>w. EvObs (stale_probe a w src)) (given_probes a ws)) (gaps s) (coord s) \<and>
    coord s' = run_events (weave (map (\<lambda>w. EvObs (stale_probe a w src)) (given_probes a ws)) (gaps s)) (coord s) \<and>
    gaps s' = drop (length (given_probes a ws)) (gaps s) \<and> pending s' = []"
  using assms
proof (induction ws arbitrary: src s)
  case Nil
  then show ?case by (cases src) (simp add: given_probes_def)
next
  case (Cons w ws)
  show ?case
  proof (cases "map_of (a_opts a) (''stale-'' @ w) = None")
    case True
    then show ?thesis using Cons.IH [OF Cons.prems(1-3)] Cons.prems(4) by (simp add: given_probes_def)
  next
    case False
    then obtain y where y: "map_of (a_opts a) (''stale-'' @ w) = Some y" by blast
    have given: "given_probes a (w # ws) = w # given_probes a ws" using y by (simp add: given_probes_def)
    let ?ob = "stale_probe a w src"
    obtain p where p: "obs_ok ?ob" "encode_observation_payload ?ob = Ok p" "length p \<le> max_frame_payload"
      using Cons.prems(4) by (auto simp: given sendable_def split: sum.splits)
    obtain k s1 where s1: "send_observation send recv ?ob src = (Ok (Ok k), src\<lparr>sr_stream := Some s1\<rparr>)"
        "coord s1 = event_step (EvObs ?ob) (run_events (gap (gaps s)) (coord s))" "gaps s1 = tl (gaps s)" "pending s1 = []"
        "k_accepted k = i_accepted (fst (ingest ?ob (run_events (gap (gaps s)) (coord s))))"
      using send_observation_served [OF Cons.prems(1-3) p] by blast
    have probe: "stale_probe a v (src\<lparr>sr_stream := Some s1\<rparr>) = stale_probe a v src" for v
      by (simp add: stale_probe_def make_observation_def)
    let ?es = "map (\<lambda>w. EvObs (stale_probe a w src)) (given_probes a ws)"
    obtain acks s' where rest: "run_probes send recv a ws (src\<lparr>sr_stream := Some s1\<rparr>) =
          (Ok (concat (map2 (\<lambda>w k. probe_line w (Ok k)) (given_probes a ws) acks)), src\<lparr>sr_stream := Some s'\<rparr>)"
        "length acks = length (given_probes a ws)" "map k_accepted acks = woven_flags ?es (gaps s1) (coord s1)"
        "coord s' = run_events (weave ?es (gaps s1)) (coord s1)" "gaps s' = drop (length (given_probes a ws)) (gaps s1)"
        "pending s' = []"
      using Cons.IH [of "src\<lparr>sr_stream := Some s1\<rparr>" s1] Cons.prems s1(4) by (auto simp: probe given)
    show ?thesis
      by (rule exI [of _ "k # acks"], rule exI [of _ s']) (use s1 rest y in \<open>simp add: given drop_Suc\<close>)
  qed
qed

lemma send_hello_served:
  assumes "sr_stream src = Some s" and "pending s = []" and "event_sendable (EvHello (hello_of (sr_cfg src)))"
  shows "\<exists>s'. send_hello send recv src =
      (Ok True, src\<lparr>sr_stream := Some s', sr_registered := True, sr_session := SOBS_REGISTERED\<rparr>) \<and>
    coord s' = event_step (EvHello (hello_of (sr_cfg src))) (run_events (gap (gaps s)) (coord s)) \<and>
    gaps s' = tl (gaps s) \<and> pending s' = []"
proof -
  let ?c = "run_events (gap (gaps s)) (coord s)"
  obtain p where p: "hello_ok (hello_of (sr_cfg src))" "encode_hello (hello_of (sr_cfg src)) = Ok p"
      "length p \<le> max_frame_payload"
    using assms(3) by (auto split: sum.splits)
  obtain data where data: "frame_encode MT_HELLO p kProtocolVersion = Ok data" by (simp add: frame_encode_eq)
  obtain f ack where ack: "frame_decode data = Ok f" "hello_answer (Ok (Some ack))"
      "handle_frame f ?c = (Ok (CN_Continue, [ack]), snd (register_hello (hello_of (sr_cfg src)) ?c))"
    using handle_hello [OF p data, of ?c] by blast
  obtain g where "frame_decode ack = Ok g" using ack(2) by (auto simp: hello_answer_def split: sum.splits)
  then obtain s1 s2 where "send data (Some s) = (Ok (), Some s1)"
      "recv_frame recv (Some s1) = (Ok (Some ack), Some s2)" "pending s2 = []" "gaps s2 = tl (gaps s)"
      "coord s2 = snd (register_hello (hello_of (sr_cfg src)) ?c)"
    using exchange [OF ack(1,3) _ assms(2)] by blast
  then show ?thesis
    using ack(2) data assms(1) p(2)
    by (intro exI [of _ s2]) (simp add: send_hello_def send_frame_def)
qed

text \<open>The whole command is the session its options describe, among what the other connections do.\<close>

lemma cmd_source_served:
  assumes "dial (opt a ''host'' ''127.0.0.1'') (ucast (opt_u64 a ''port'' 0)) = Ok s" and "pending s = []"
    and "opt a ''script'' [] \<noteq> []" and "parse_script junk files (opt a ''script'' []) = Ok es" and "\<not> flag a ''fire''"
    and "list_all event_sendable (session_events a es)"
  shows "\<exists>acks rest src s'.
    cmd_source junk files ind dial send recv a =
      (Ok (prints 0 (concat (map2 (\<lambda>w k. probe_line w (Ok k)) (given_probes a probe_kinds) acks) @ rest)), disconnect send src) \<and>
    length acks = length (given_probes a probe_kinds) \<and>
    map k_accepted acks = take (length (given_probes a probe_kinds)) (woven_flags (session_events a es) (gaps s) (coord s)) \<and>
    sr_stream src = Some s' \<and> coord s' = run_events (weave (session_events a es) (gaps s)) (coord s) \<and>
    gaps s' = drop (length (session_events a es)) (gaps s) \<and> pending s' = []"
proof -
  let ?cfg = "source_cfg a" and ?ws = "given_probes a probe_kinds"
  obtain cn where src: "src_connect (Ok s) (new_source ind ?cfg) = (True, cn)" "sr_cfg cn = ?cfg" "sr_stream cn = Some s"
      "sr_seq cn = 0"
    by (auto simp: src_connect_def new_source_def)
  have ok: "event_sendable (EvHello (hello_of ?cfg))" "list_all sendable (script_observations ?cfg 0 es)"
      "list_all (\<lambda>w. sendable (stale_probe a w (new_source SOBS_DISCONNECTED ?cfg :: unit source))) ?ws"
    using assms(6) by (simp_all add: session_events_def list_all_iff ball_Un del: event_sendable.simps(1))
  obtain s1 where s1: "send_hello send recv cn =
        (Ok True, cn\<lparr>sr_stream := Some s1, sr_registered := True, sr_session := SOBS_REGISTERED\<rparr>)"
      "coord s1 = event_step (EvHello (hello_of ?cfg)) (run_events (gap (gaps s)) (coord s))"
      "gaps s1 = tl (gaps s)" "pending s1 = []"
    using send_hello_served [OF src(3) assms(2)] ok(1) by (auto simp: src(2) simp del: event_sendable.simps)
  define src1 where "src1 = cn\<lparr>sr_stream := Some s1, sr_registered := True, sr_session := SOBS_REGISTERED\<rparr>"
  have src1: "sr_session src1 = SOBS_REGISTERED" "sr_stream src1 = Some s1" "sr_cfg src1 = ?cfg" "sr_seq src1 = 0"
    by (simp_all add: src1_def src)
  have probe: "stale_probe a w src1 = stale_probe a w (new_source SOBS_DISCONNECTED ?cfg :: unit source)" for w
    by (simp add: stale_probe_def make_observation_def src1 new_source_def)
  let ?ps = "map (\<lambda>w. EvObs (stale_probe a w (new_source SOBS_DISCONNECTED ?cfg :: unit source))) ?ws"
  obtain acks s2 where s2: "run_probes send recv a probe_kinds src1 =
        (Ok (concat (map2 (\<lambda>w k. probe_line w (Ok k)) ?ws acks)), src1\<lparr>sr_stream := Some s2\<rparr>)"
      "length acks = length ?ws" "map k_accepted acks = woven_flags ?ps (gaps s1) (coord s1)"
      "coord s2 = run_events (weave ?ps (gaps s1)) (coord s1)" "gaps s2 = drop (length ?ws) (gaps s1)" "pending s2 = []"
    using run_probes_served [OF src1(1,2) s1(4), of a probe_kinds] ok(3) by (auto simp: probe)
  let ?os = "map EvObs (script_observations ?cfg 0 es)"
  obtain out s3 where s3: "run_script send recv False es 0 (src1\<lparr>sr_stream := Some s2\<rparr>) = (Ok out, src1\<lparr>sr_stream := Some s3\<rparr>)"
      "coord s3 = run_events (weave ?os (gaps s2)) (coord s2)" "gaps s3 = drop (length ?os) (gaps s2)" "pending s3 = []"
    using run_script_served [of "src1\<lparr>sr_stream := Some s2\<rparr>" s2 0 es] src1(1,3) s2(6) ok(2) by auto
  have ev: "session_events a es = EvHello (hello_of ?cfg) # ?ps @ ?os" by (simp add: session_events_def)
  have "cmd_source junk files ind dial send recv a =
      (Ok (prints 0 (concat (map2 (\<lambda>w k. probe_line w (Ok k)) ?ws acks) @ out)), disconnect send (src1\<lparr>sr_stream := Some s3\<rparr>))"
    using assms(3-5) src(1) s1(1) s2(1) s3(1)
    by (simp add: cmd_source_def assms(1) source_script_def flip: src1_def)
  moreover have "coord s3 = run_events (weave (session_events a es) (gaps s)) (coord s)"
    by (simp add: s3 s2 s1 ev weave_append)
  moreover have "gaps s3 = drop (length (session_events a es)) (gaps s)"
    by (simp add: s3 s2 s1 ev drop_Suc add.commute)
  moreover have "map k_accepted acks = take (length ?ws) (woven_flags (session_events a es) (gaps s) (coord s))"
    using length_woven_flags [of ?ps "gaps s1" "coord s1"]
    by (simp add: s2(3) ev woven_flags_append s1(2,3) sent_observations)
  ultimately show ?thesis
    by (intro exI [of _ acks] exI [of _ out] exI [of _ "src1\<lparr>sr_stream := Some s3\<rparr>"] exI [of _ s3]) (simp add: s2 s3)
qed

end

text \<open>The connection the model's own handler gives: the coordinator and the bytes it has replied.\<close>

definition loop_send :: "(coordinator \<times> bytes) sender" where
  "loop_send data st =
     (case st of
        None \<Rightarrow> (Err ''send on closed socket'', None)
      | Some (c, buf) \<Rightarrow>
          (case frame_decode data of
             Err e \<Rightarrow> (Ok (), Some (c, buf))
           | Ok f \<Rightarrow>
               (case handle_frame f c of
                  (Err e, c') \<Rightarrow> (Ok (), Some (c', buf))
                | (Ok (_, out), c') \<Rightarrow> (Ok (), Some (c', buf @ concat out)))))"

definition loop_recv :: "(coordinator \<times> bytes) recv" where
  "loop_recv n st = (RecvBytes (take n (snd st)), (fst st, drop n (snd st)))"

interpretation loop: served loop_send loop_recv fst snd "\<lambda>_. []"
  by unfold_locales (auto simp: delivers_def loop_recv_def loop_send_def split: prod.splits)

text \<open>The same handler with other connections served in between: the gaps still to come are part of the state.\<close>

definition shared_send :: "(coordinator \<times> bytes \<times> coord_event list list) sender" where
  "shared_send data st =
     (case st of
        None \<Rightarrow> (Err ''send on closed socket'', None)
      | Some (c, buf, gs) \<Rightarrow>
          (let c1 = run_events (gap gs) c
           in case frame_decode data of
                Err e \<Rightarrow> (Ok (), Some (c1, buf, tl gs))
              | Ok f \<Rightarrow>
                  (case handle_frame f c1 of
                     (Err e, c') \<Rightarrow> (Ok (), Some (c', buf, tl gs))
                   | (Ok (_, out), c') \<Rightarrow> (Ok (), Some (c', buf @ concat out, tl gs)))))"

definition shared_recv :: "(coordinator \<times> bytes \<times> coord_event list list) recv" where
  "shared_recv n st = (RecvBytes (take n (fst (snd st))), (fst st, drop n (fst (snd st)), snd (snd st)))"

interpretation shared: served shared_send shared_recv fst "\<lambda>s. fst (snd s)" "\<lambda>s. snd (snd s)"
  by unfold_locales (auto simp: delivers_def shared_recv_def shared_send_def Let_def split: prod.splits)

text \<open>C8: Over the wire or in one process: a source with the clock domain that the ingest command fixes
  (\<^verbatim>\<open>mono_ns\<close>) that is connected to a coordinator as the ingest command starts it (no source known, the
  configuration's epoch) and to which nobody else is connected, over a lossless connection to the
  connection handler, and whose HELLO and observations the codec represents and fit a frame: the HELLO
  is accepted, the script runs to its end through frames, handler and acknowledgements, and it leaves
  the coordinator in exactly the state that the ingest command computes, with its own copy of the
  code that makes observations, from the same configuration and script.\<close>

theorem session_equals_ingest:
  assumes "cf_clock_domain cfg = ''mono_ns''"
    and "src_connect (Ok (set_epoch (cf_epoch cfg) new_coordinator, [])) (new_source junk cfg) = (True, src)"
    and "event_sendable (EvHello (hello_of cfg))" and "list_all sendable (script_observations cfg 0 es)"
  shows "\<exists>src1 out. send_hello loop_send loop_recv src = (Ok True, src1) \<and>
    run_script loop_send loop_recv False es 0 src1 =
      (Ok out, src1\<lparr>sr_stream := Some (ir_coord (ingest_entries cfg es), [])\<rparr>)"
proof -
  let ?c0 = "set_epoch (cf_epoch cfg) new_coordinator"
  have src: "sr_cfg src = cfg" "sr_stream src = Some (?c0, [])"
    using assms(2) by (auto simp: src_connect_def new_source_def)
  obtain s1 where s1: "send_hello loop_send loop_recv src =
      (Ok True, src\<lparr>sr_stream := Some s1, sr_registered := True, sr_session := SOBS_REGISTERED\<rparr>)"
      "fst s1 = snd (register_hello (hello_of cfg) ?c0)" "snd s1 = []"
    using loop.send_hello_served [OF src(2)] assms(3) by (auto simp: src(1) simp del: event_sendable.simps)
  let ?src1 = "src\<lparr>sr_stream := Some s1, sr_registered := True, sr_session := SOBS_REGISTERED\<rparr>"
  obtain out s' where s': "run_script loop_send loop_recv False es 0 ?src1 = (Ok out, ?src1\<lparr>sr_stream := Some s'\<rparr>)"
      "fst s' = run_events (map EvObs (script_observations cfg 0 es)) (fst s1)" "snd s' = []"
    using loop.run_script_served [of ?src1 s1 0 es] assms(4) s1(3) src(1) by auto
  have "register_hello (hello_of cfg) c = register_hello (ingest_hello cfg) c" for c
    by (simp add: register_hello_def hello_observation_def register_source_def fresh_authority_def
        hello_of_def ingest_hello_def Let_def default_observation_def split: option.split)
  then have "fst s' = ir_coord (ingest_entries cfg es)"
    by (simp add: s'(2) s1(2) ingest_entries_events [OF assms(1)])
  then have "s' = (ir_coord (ingest_entries cfg es), [])" using s'(3) by (cases s') simp
  then show ?thesis using s1(1) s'(1) by blast
qed

theorem session_equals_ingest_witness:
  "\<exists>src1 out. send_hello loop_send loop_recv
        (snd (src_connect (Ok (set_epoch 1 new_coordinator, [])) (new_source SOBS_DISCONNECTED (sr_cfg sample_source)))) =
      (Ok True, src1) \<and>
    run_script loop_send loop_recv False [sample_entry] 0 src1 =
      (Ok out, src1\<lparr>sr_stream := Some (ir_coord (ingest_entries (sr_cfg sample_source) [sample_entry]), [])\<rparr>)"
proof -
  let ?cfg = "sr_cfg sample_source"
  let ?src = "snd (src_connect (Ok (set_epoch 1 new_coordinator, [] :: bytes)) (new_source SOBS_DISCONNECTED ?cfg))"
  obtain p where p: "hello_ok (hello_of ?cfg)" "encode_hello (hello_of ?cfg) = Ok p" "length p \<le> max_frame_payload"
    by (rule sample_hello)
  have cfg: "cf_epoch ?cfg = 1" "cf_clock_domain ?cfg = ''mono_ns''"
    by (simp_all add: sample_source_def new_source_def)
  have "src_connect (Ok (set_epoch (cf_epoch ?cfg) new_coordinator, [])) (new_source SOBS_DISCONNECTED ?cfg) = (True, ?src)"
    by (simp add: src_connect_def cfg)
  moreover have "list_all sendable (script_observations ?cfg 0 [sample_entry])"
    using sample_entry_fits(4) [OF cfg(2)] by (simp add: sample_entry_def new_entry_def)
  moreover have "event_sendable (EvHello (hello_of ?cfg))" using p by simp
  ultimately show ?thesis using session_equals_ingest [OF cfg(2)] by blast
qed

end
