(* ===== verification/ProofPlan.thy ===== *)
theory ProofPlan
  imports Sessions Commands
begin

section \<open>The multiprocess command\<close>

text \<open>
  \<^verbatim>\<open>cmd_multiprocess\<close> of \<^verbatim>\<open>apps/obscli/cli.cpp\<close>: a coordinator and three source processes, the
  second generation of a source that is killed among them. Starting, killing and waiting for processes
  is outside the model; what the command makes is here: the scripts it writes, the command lines
  of its children, what it reads of a child's output, and the report with its verdict, a function
  of that output and of the archive the coordinator saved.
\<close>

subsection \<open>The plan\<close>

record proof_plan =
  pp_dir :: string
  pp_epoch :: u64
  pp_source_a :: id128
  pp_source_b :: id128
  pp_boot_a1 :: id128
  pp_boot_a2 :: id128
  pp_boot_b :: id128
  pp_port :: u16

definition plan_of :: "args \<Rightarrow> proof_plan" where
  "plan_of a =
     \<lparr>pp_dir = opt a ''dir'' ''proof_run'', pp_epoch = opt_u64 a ''epoch'' 1,
      pp_source_a = parse_id (opt a ''source-a'' ''aa000000000000000000000000000001''),
      pp_source_b = parse_id (opt a ''source-b'' ''bb000000000000000000000000000002''),
      pp_boot_a1 = parse_id (opt a ''boot-a1'' ''aaa10000000000000000000000000001''),
      pp_boot_a2 = parse_id (opt a ''boot-a2'' ''aaa20000000000000000000000000002''),
      pp_boot_b = parse_id (opt a ''boot-b'' ''bbb00000000000000000000000000003''),
      pp_port = ucast (opt_u64 a ''port'' 43822)\<rparr>"

definition req_r1 :: string where "req_r1 = ''c1111111111111111111111111111111''"
definition req_r2 :: string where "req_r2 = ''c2222222222222222222222222222222''"
definition req_r3 :: string where "req_r3 = ''c3333333333333333333333333333333''"
definition req_r4 :: string where "req_r4 = ''c4444444444444444444444444444444''"

definition script_a1 :: string where
  "script_a1 =
     ''OBS REQUEST 1000 request='' @ req_r1 @ nl @
     ''OBS ADMISSION 1200 request='' @ req_r1 @ nl @
     ''OBS QUEUE_ENTER 1300 request='' @ req_r1 @ nl @
     ''OBS QUEUE_LEAVE 1600 request='' @ req_r1 @ nl @
     ''OBS DISPATCH 1700 request='' @ req_r1 @ nl @
     ''OBS PREFILL_START 1800 request='' @ req_r1 @ '' input_tokens=64'' @ nl @
     ''OBS PREFILL_END 2300 request='' @ req_r1 @ '' gpu_ms=0.4'' @ nl @
     ''OBS COMPLETION 2600 request='' @ req_r1 @ '' outcome=completed'' @ nl @
     ''OBS REQUEST 3000 request='' @ req_r2 @ nl @
     ''OBS ADMISSION 3100 request='' @ req_r2 @ nl @
     ''OBS PREFILL_START 3200 request='' @ req_r2 @ '' input_tokens=128'' @ nl"

definition script_b :: string where
  "script_b =
     ''OBS REQUEST 5000 request='' @ req_r3 @ nl @
     ''OBS ADMISSION 5100 request='' @ req_r3 @ nl @
     ''OBS QUEUE_ENTER 5200 request='' @ req_r3 @ nl @
     ''OBS QUEUE_LEAVE 5300 request='' @ req_r3 @ nl @
     ''OBS DISPATCH 5400 request='' @ req_r3 @ nl @
     ''OBS PREFILL_START 5500 request='' @ req_r3 @ '' input_tokens=96'' @ nl @
     ''OBS PREFILL_END 5900 request='' @ req_r3 @ '' gpu_ms=0.3'' @ nl @
     ''OBS DECODE_STEP_START 6000 request='' @ req_r3 @ '' output_tokens=1'' @ nl @
     ''OBS DECODE_STEP_END 6050 request='' @ req_r3 @ '' gpu_ms=0.05'' @ nl @
     ''OBS COMPLETION 6100 request='' @ req_r3 @ '' outcome=completed'' @ nl"

definition script_a2 :: string where
  "script_a2 =
     ''OBS PREFILL_END 3300 request='' @ req_r2 @ '' gpu_ms=0.1'' @ nl @
     ''OBS DECODE_STEP_START 3400 request='' @ req_r2 @ '' output_tokens=1'' @ nl @
     ''OBS DECODE_STEP_END 3450 request='' @ req_r2 @ '' gpu_ms=0.05'' @ nl @
     ''OBS COMPLETION 3500 request='' @ req_r2 @ '' outcome=completed'' @ nl @
     ''OBS REQUEST 9000 request='' @ req_r4 @ nl @
     ''OBS ADMISSION 9100 request='' @ req_r4 @ nl @
     ''OBS DISPATCH 9200 request='' @ req_r4 @ nl @
     ''OBS PREFILL_START 9300 request='' @ req_r4 @ '' input_tokens=32'' @ nl @
     ''OBS PREFILL_END 9600 request='' @ req_r4 @ '' gpu_ms=0.2'' @ nl @
     ''OBS COMPLETION 9800 request='' @ req_r4 @ '' outcome=completed'' @ nl"

text \<open>The scripts are written to files of the run's directory.\<close>

definition script_files :: "proof_plan \<Rightarrow> text_files \<Rightarrow> text_files" where
  "script_files p files =
     files(pp_dir p @ ''/a1.jsonl'' \<mapsto> script_a1, pp_dir p @ ''/b.jsonl'' \<mapsto> script_b,
           pp_dir p @ ''/a2.jsonl'' \<mapsto> script_a2)"

subsection \<open>The children's command lines\<close>

definition coord_args :: "proof_plan \<Rightarrow> string" where
  "coord_args p =
     ''serve --host 127.0.0.1 --port '' @ to_string_word (pp_port p) @ '' --epoch '' @ to_string_word (pp_epoch p) @
     '' --out '' @ pp_dir p @ ''/coord.sobs'' @ '' --manifest '' @ pp_dir p @ ''/manifest.json'' @
     '' --stop-file '' @ pp_dir p @ ''/stop.marker'' @ '' --stop-obs 0''"

definition a1_args :: "proof_plan \<Rightarrow> string" where
  "a1_args p =
     ''source --host 127.0.0.1 --port '' @ to_string_word (pp_port p) @
     '' --source '' @ to_hex (pp_source_a p) @ '' --worker '' @ to_hex (pp_source_a p) @
     '' --boot '' @ to_hex (pp_boot_a1 p) @ '' --src-gen 1 --obs-gen 1 --epoch '' @ to_string_word (pp_epoch p) @
     '' --script '' @ pp_dir p @ ''/a1.jsonl'' @ '' --hold-ms 60000''"

definition b_args :: "proof_plan \<Rightarrow> string" where
  "b_args p =
     ''source --host 127.0.0.1 --port '' @ to_string_word (pp_port p) @
     '' --source '' @ to_hex (pp_source_b p) @ '' --worker '' @ to_hex (pp_source_b p) @
     '' --boot '' @ to_hex (pp_boot_b p) @ '' --src-gen 1 --obs-gen 1 --epoch '' @ to_string_word (pp_epoch p) @
     '' --script '' @ pp_dir p @ ''/b.jsonl''"

definition a2_args :: "proof_plan \<Rightarrow> string" where
  "a2_args p =
     ''source --host 127.0.0.1 --port '' @ to_string_word (pp_port p) @
     '' --source '' @ to_hex (pp_source_a p) @ '' --worker '' @ to_hex (pp_source_a p) @
     '' --boot '' @ to_hex (pp_boot_a2 p) @ '' --src-gen 2 --obs-gen 2 --epoch '' @ to_string_word (pp_epoch p) @
     '' --stale-epoch 0 --stale-boot '' @ to_hex (pp_boot_a1 p) @ '' --stale-srcgen 1 --stale-obsgen 1'' @
     '' --stale-request '' @ req_r1 @ '' --script '' @ pp_dir p @ ''/a2.jsonl''"

text \<open>
  A child gets its line as the C runtime splits it. Without quotes, which these lines have only
  where the directory has, that is at runs of blanks and tabs; the child's options are then what
  \<^verbatim>\<open>cli_main\<close> parses.
\<close>

definition splits_args :: "char \<Rightarrow> bool" where
  "splits_args c \<longleftrightarrow> c = CHR '' '' \<or> c = CHR 0x09"

function words_of :: "string \<Rightarrow> string list" where
  "words_of s =
     (let t = dropWhile splits_args s
      in if t = [] then [] else takeWhile (\<lambda>c. \<not> splits_args c) t # words_of (dropWhile (\<lambda>c. \<not> splits_args c) t))"
  by pat_completeness auto

termination
proof (relation "measure length")
  fix s t :: string
  assume t: "t = dropWhile splits_args s" "t \<noteq> []"
  then have "\<not> splits_args (hd t)" using hd_dropWhile [of splits_args s] by simp
  then have "length (dropWhile (\<lambda>c. \<not> splits_args c) t) < length t"
    using t(2) length_dropWhile_le [of "\<lambda>c. \<not> splits_args c" "tl t"] by (cases t) auto
  also have "length t \<le> length s" using length_dropWhile_le t(1) by metis
  finally show "(dropWhile (\<lambda>c. \<not> splits_args c) t, s) \<in> measure length" by simp
qed simp

declare words_of.simps [simp del]

definition child_args :: "string \<Rightarrow> args result" where
  "child_args line = parse_args (words_of line)"

subsection \<open>The second generation's output\<close>

text \<open>\<^verbatim>\<open>s.find(t, pos)\<close>.\<close>

definition str_find :: "string \<Rightarrow> string \<Rightarrow> nat \<Rightarrow> nat option" where
  "str_find s t pos = find (\<lambda>i. prefix t (drop i s)) [pos ..< Suc (length s)]"

text \<open>
  A child writes its lines as text: on the program's system, where alone the command exists, a line feed
  goes to the pipe as a carriage return and a line feed. The pipe is read as it is.
\<close>

definition piped :: "string \<Rightarrow> string" where
  "piped s = concat (map (\<lambda>c. if c = CHR 0x0A then [CHR 0x0D, CHR 0x0A] else [c]) s)"

text \<open>Each poll adds what the pipe held and says whether the child is gone; the polls end with the deadline.\<close>

definition a2_complete :: "string \<Rightarrow> bool" where
  "a2_complete out \<longleftrightarrow>
     str_find out ''ACK COMPLETION ACCEPTED'' 0 \<noteq> None \<or> str_find out ''ACK completion ACCEPTED'' 0 \<noteq> None"

fun read_a2 :: "(string \<times> bool) list \<Rightarrow> string \<Rightarrow> string" where
  "read_a2 [] out = out"
| "read_a2 ((piece, gone) # polls) out =
     (let out' = out @ piece in if a2_complete out' \<or> gone then out' else read_a2 polls out')"

definition probe_rejected :: "string \<Rightarrow> string \<Rightarrow> bool" where
  "probe_rejected out which =
     (case str_find out (''STALE_'' @ which @ ''='') 0 of
        None \<Rightarrow> False
      | Some pos \<Rightarrow> str_find out ''REJECTED'' pos \<noteq> None)"

definition stale_rejected :: "string \<Rightarrow> nat" where
  "stale_rejected out = length (filter (probe_rejected out) [''epoch'', ''boot'', ''srcgen'', ''obsgen''])"

subsection \<open>The report\<close>

definition stale_of_boot :: "id128 \<Rightarrow> archive \<Rightarrow> u64" where
  "stale_of_boot boot v = of_nat (length (filter (\<lambda>e. o_boot (fst e) = boot) (ar_stale v)))"

definition spans_sources :: "request_trace option \<Rightarrow> bool" where
  "spans_sources t = (case t of None \<Rightarrow> False | Some t \<Rightarrow> 2 \<le> length (tr_boots t))"

definition fresh_boot_only :: "id128 \<Rightarrow> request_trace option \<Rightarrow> bool" where
  "fresh_boot_only boot t =
     (case t of None \<Rightarrow> False | Some t \<Rightarrow> length (tr_boots t) = 1 \<and> tr_boots t ! 0 = boot)"

definition proof_passed :: "proof_plan \<Rightarrow> string \<Rightarrow> archive \<Rightarrow> request_trace option \<Rightarrow> request_trace option \<Rightarrow> bool" where
  "proof_passed p out v r2 r4 \<longleftrightarrow>
     ar_replay_match v \<and> 4 \<le> stale_rejected out \<and> 0 < stale_of_boot (pp_boot_a1 p) v \<and>
     spans_sources r2 \<and> fresh_boot_only (pp_boot_a2 p) r4"

definition proof_report :: "proof_plan \<Rightarrow> string \<Rightarrow> archive \<Rightarrow> request_trace option \<Rightarrow> request_trace option \<Rightarrow> cmd_result" where
  "proof_report p out v r2 r4 =
     (let ok = proof_passed p out v r2 r4
      in prints (if ok then 0 else 1)
        (''MULTIPROCESS PROOF'' @ nl @
         ''  archive: epoch='' @ num (ar_epoch v) @ '' accepted='' @ cnt (ar_accepted v) @ '' stale='' @ cnt (ar_stale v) @
         '' replay_match='' @ bool_digit (ar_replay_match v) @ nl @
         ''  evidence_digest='' @ digest_hex (ar_evidence_digest v) @ nl @
         ''  trace_digest='' @ digest_hex (ar_trace_digest v) @ nl @
         ''  stale_old_boot_evidence='' @ num (stale_of_boot (pp_boot_a1 p) v) @ nl @
         ''  stale_rejected_over_tcp='' @ dec_string (stale_rejected out) @ nl @
         ''  r2_spans_sources='' @ bool_digit (spans_sources r2) @
         '' r4_uses_fresh_boot_only='' @ bool_digit (fresh_boot_only (pp_boot_a2 p) r4) @ nl @
         ''multiprocess verdict='' @ (if ok then ''PASS'' else ''FAIL'') @ nl))"

text \<open>What the command does once its children are gone; \<open>out\<close> is what it read of the second generation.\<close>

definition proof_finish :: "disk \<Rightarrow> args \<Rightarrow> string \<Rightarrow> cmd_result result" where
  "proof_finish d a out =
     (let p = plan_of a;
          shown = (if flag a ''verbose'' then ''--- A2 stdout ---'' @ nl @ c_str out @ nl @ ''-----------------'' @ nl else [])
      in case load_archive d (pp_dir p @ ''/coord.sobs'') True of
           Err e \<Rightarrow> Err e
         | Ok (Err e) \<Rightarrow> Ok \<lparr>cm_code = 1, cm_out = shown, cm_err = ''multiprocess: archive FAILED: '' @ e @ nl\<rparr>
         | Ok (Ok v) \<Rightarrow>
             (case find_trace v (parse_id req_r2) of
                Err e \<Rightarrow> Err e
              | Ok r2 \<Rightarrow>
                  (case find_trace v (parse_id req_r4) of
                     Err e \<Rightarrow> Err e
                   | Ok r4 \<Rightarrow>
                       (let r = proof_report p out v r2 r4 in Ok (r\<lparr>cm_out := shown @ cm_out r\<rparr>)))))"

end
