(* ===== verification/DerivedIds.thy ===== *)
theory DerivedIds
  imports Observation
begin

section \<open>When derived ids differ\<close>

text \<open>
  The ids of \<^verbatim>\<open>derive\<close> are hashes and can collide. The mixing of the final states is a bijection, so
  that they differ wherever the states do, and the low bits of a state depend on low bits only:
  that two ids differ can be seen from a hash of sixteen bits.
\<close>

subsection \<open>Mixing is injective\<close>

lemma drop_bit_fixed:
  assumes "z = drop_bit (Suc k) z"
  shows "z = (0 :: u64)"
proof (rule ccontr)
  assume "z \<noteq> 0"
  then have "0 < unat z" by (simp add: unat_gt_0)
  moreover have "unat z = drop_bit (Suc k) (unat z)"
    using arg_cong [OF assms, of unat] by (simp only: unat_drop_bit_eq)
  then have "unat z = unat z div 2 ^ Suc k" by (simp only: drop_bit_eq_div)
  moreover have "unat z div 2 ^ Suc k < unat z" using \<open>0 < unat z\<close> one_less_power [of "2 :: nat" "Suc k"] by (intro div_less_dividend) simp_all
  ultimately show False by simp
qed

lemma xorshift_inj: "x XOR drop_bit (Suc k) x = y XOR drop_bit (Suc k) y \<longleftrightarrow> x = (y :: u64)"
proof
  assume eq: "x XOR drop_bit (Suc k) x = y XOR drop_bit (Suc k) y"
  have "x XOR y = drop_bit (Suc k) (x XOR y)"
  proof (rule bit_word_eqI)
    fix n assume "n < LENGTH(64)"
    have "bit (x XOR drop_bit (Suc k) x) n = bit (y XOR drop_bit (Suc k) y) n" using eq by simp
    then show "bit (x XOR y) n = bit (drop_bit (Suc k) (x XOR y)) n" by (auto simp: bit_simps)
  qed
  then have "x XOR y = 0" by (rule drop_bit_fixed)
  then show "x = y" by (metis xor.assoc xor.left_neutral xor.right_neutral xor_self_eq)
qed simp

lemma times_unit_inj: "c * d = 1 \<Longrightarrow> x * c = y * c \<longleftrightarrow> x = (y :: u64)"
proof -
  assume unit: "c * d = 1"
  have "x * c * d = x" "y * c * d = y" by (simp_all add: mult.assoc unit)
  then show ?thesis by metis
qed

lemma mix_inj: "mix x = mix y \<longleftrightarrow> x = y"
proof -
  have "(0xbf58476d1ce4e5b9 :: u64) * 10871156337175269513 = 1" "(0x94d049bb133111eb :: u64) * 3573116690164977347 = 1"
    by simp_all
  note unit = this [THEN times_unit_inj]
  show ?thesis
    using xorshift_inj [of _ 30] xorshift_inj [of _ 26] xorshift_inj [of _ 29]
    by (simp add: mix_def Let_def unit)
qed

subsection \<open>Sixteen bits of the state\<close>

type_synonym u16w = "16 word"

definition low_step :: "u16w \<Rightarrow> u8 \<Rightarrow> u16w" where
  "low_step h b = (h XOR ucast (b + 1)) * 0x01B3"

definition low_hash :: "u64 \<Rightarrow> bytes \<Rightarrow> u16w" where
  "low_hash tag data = foldl low_step (ucast (fnv_offset XOR (tag XOR golden))) data"

lemma of_nat_low: "(of_nat (n mod 2 ^ 64) :: u16w) = of_nat n"
  by (simp add: word_of_nat_eq_iff take_bit_eq_mod mod_mod_cancel)

lemma ucast_mult_low: "(ucast (x * y) :: u16w) = ucast x * ucast (y :: u64)"
proof -
  have "(ucast (x * y) :: u16w) = of_nat (unat x * unat y mod 2 ^ 64)"
    unfolding of_nat_unat [of "x * y", symmetric] unat_word_ariths by simp
  also have "\<dots> = of_nat (unat x * unat y)"
    by (rule of_nat_low)
  also have "\<dots> = ucast x * ucast y" by simp
  finally show ?thesis .
qed

lemma ucast_byte: "(ucast (ucast c :: u64) :: u16w) = ucast (c :: u8)"
  by (rule bit_word_eqI) (auto simp: bit_simps)

lemma low_prime: "(ucast (1099511628211 :: u64) :: u16w) = 0x01B3"
  by (simp add: word_of_nat_eq_iff take_bit_eq_mod)

lemma low_foldl: "ucast (snd (foldl derive_step h data)) = foldl low_step (ucast (snd h)) data"
proof (induction data arbitrary: h)
  case (Cons b data)
  have "(ucast (snd (derive_step h b)) :: u16w) = low_step (ucast (snd h)) b"
    by (simp only: derive_step_def low_step_def ucast_mult_low snd_conv unsigned_xor_eq fnv_prime_def ucast_byte low_prime)
  then show ?case using Cons [of "derive_step h b"] by simp
qed simp

lemma low_hash_differs:
  assumes "low_hash tag d \<noteq> low_hash tag d'"
  shows "derive tag d \<noteq> derive tag d'"
proof
  assume "derive tag d = derive tag d'"
  then have "snd (foldl derive_step (fnv_offset XOR tag, fnv_offset XOR (tag XOR golden)) d) =
      snd (foldl derive_step (fnv_offset XOR tag, fnv_offset XOR (tag XOR golden)) d')"
    by (simp add: derive_def Let_def mix_inj)
  then show False using assms low_foldl [of "(fnv_offset XOR tag, fnv_offset XOR (tag XOR golden))"]
    by (simp add: low_hash_def) metis
qed

lemma low_hashes_differ:
  assumes "distinct (map (low_hash tag) ds)"
  shows "distinct (map (derive tag) ds)"
  using assms low_hash_differs [of tag] by (auto simp: distinct_map inj_on_def)

text \<open>What the ids of consecutive observations of a source are taken of.\<close>

primrec id_inputs :: "id128 \<Rightarrow> id128 \<Rightarrow> id128 \<Rightarrow> u64 \<Rightarrow> obs_type list \<Rightarrow> bytes list" where
  "id_inputs src worker boot s [] = []"
| "id_inputs src worker boot s (t # ts) = observation_id_input src worker boot (s + 1) t # id_inputs src worker boot (s + 1) ts"

lemma id_inputs_append:
  "id_inputs src worker boot s (ts @ us) =
     id_inputs src worker boot s ts @ id_inputs src worker boot (s + of_nat (length ts)) us"
  by (induction ts arbitrary: s) (simp_all add: add_ac)

end
