(* ===== verification/ProofRun.thy ===== *)
theory ProofRun
  imports ProofPlan Sizes DerivedIds
begin

section \<open>A run of the multiprocess command\<close>

text \<open>
  The command of \<open>ProofPlan\<close> followed through: how its children read their command lines and
  scripts, what they send, what a coordinator decides on that in any interleaving of the two
  sources, what it saves, and that the command's verdict on it is a pass.
\<close>

subsection \<open>What the children are told\<close>

fun join_words :: "string list \<Rightarrow> string" where
  "join_words [] = []"
| "join_words [w] = w"
| "join_words (w # v # ws) = w @ '' '' @ join_words (v # ws)"

definition word_ok :: "string \<Rightarrow> bool" where
  "word_ok w \<longleftrightarrow> w \<noteq> [] \<and> list_all (\<lambda>c. \<not> splits_args c) w"

lemma blank_splits [simp]: "splits_args (CHR '' '')"
  by (simp add: splits_args_def)

lemma take_word:
  assumes "word_ok w"
  shows "takeWhile (\<lambda>c. \<not> splits_args c) (w @ '' '' @ s) = w" "dropWhile (\<lambda>c. \<not> splits_args c) (w @ '' '' @ s) = '' '' @ s"
    "takeWhile (\<lambda>c. \<not> splits_args c) w = w" "dropWhile (\<lambda>c. \<not> splits_args c) w = []"
    "dropWhile splits_args (w @ s) = w @ s"
proof -
  have w: "\<And>c. c \<in> set w \<Longrightarrow> \<not> splits_args c" "w \<noteq> []" using assms by (simp_all add: word_ok_def list_all_iff)
  show "takeWhile (\<lambda>c. \<not> splits_args c) (w @ '' '' @ s) = w" "dropWhile (\<lambda>c. \<not> splits_args c) (w @ '' '' @ s) = '' '' @ s"
    using w(1) by (simp_all add: takeWhile_append2 dropWhile_append2)
  show "takeWhile (\<lambda>c. \<not> splits_args c) w = w" "dropWhile (\<lambda>c. \<not> splits_args c) w = []"
    using w(1) by (simp_all add: takeWhile_eq_all_conv dropWhile_eq_Nil_conv)
  show "dropWhile splits_args (w @ s) = w @ s"
    using w by (cases w) simp_all
qed

lemma words_of_blank: "words_of ('' '' @ s) = words_of s"
  by (subst (1 2) words_of.simps) simp

lemma words_of_join: "list_all word_ok ws \<Longrightarrow> words_of (join_words ws) = ws"
proof (induction ws rule: join_words.induct)
  case 1
  then show ?case by (simp add: words_of.simps)
next
  case (2 w)
  then show ?case
    using take_word(5) [of w "[]"] by (subst words_of.simps) (simp add: take_word word_ok_def words_of.simps [of "[]"])
next
  case (3 w v ws)
  have "words_of (w @ '' '' @ join_words (v # ws)) = w # words_of ('' '' @ join_words (v # ws))"
    using 3 take_word(5) [of w "'' '' @ join_words (v # ws)"]
    by (subst words_of.simps) (simp add: take_word(1,2) [of w, simplified] word_ok_def)
  then show ?case using 3 by (simp only: join_words.simps words_of_blank) simp
qed

text \<open>A command line of options with their values.\<close>

definition option_pairs :: "(string \<times> string) list \<Rightarrow> string list" where
  "option_pairs kvs = concat (map (\<lambda>(k, v). [''--'' @ k, v]) kvs)"

lemma parse_pairs:
  assumes "list_all (\<lambda>(k, v). CHR ''='' \<notin> set k \<and> \<not> is_option v) kvs"
  shows "\<exists>b. parse_rest (option_pairs kvs) a = Ok b \<and> a_opts b = fold (\<lambda>(k, v). omap_set k v) kvs (a_opts a)"
  using assms
proof (induction kvs arbitrary: a)
  case (Cons kv kvs)
  obtain k v where kv: "kv = (k, v)" by fastforce
  have "option_pairs (kv # kvs) = (''--'' @ k) # v # option_pairs kvs" by (simp add: option_pairs_def kv)
  moreover have "is_option (''--'' @ k)" "CHR ''='' \<notin> set (''--'' @ k)" "substr_from 2 (''--'' @ k) = Ok k"
    using Cons.prems by (simp_all add: is_option_def substr_from_def kv)
  moreover have "\<not> is_option v" using Cons.prems by (simp add: kv)
  ultimately have "parse_rest (option_pairs (kv # kvs)) a =
      parse_rest (option_pairs kvs) (set_opt k v (note_arg (''--'' @ k) a))"
    by (simp only: parse_rest.simps Let_def if_True if_False not_False_eq_True simp_thms sum.case list.case)
  then show ?case
    using Cons.IH [of "set_opt k v (note_arg (''--'' @ k) a)"] Cons.prems by (simp add: kv set_opt_def note_arg_def)
qed (simp add: option_pairs_def)

lemma child_options:
  assumes "list_all word_ok (cmd # option_pairs kvs)"
    and "list_all (\<lambda>(k, v). CHR ''='' \<notin> set k \<and> \<not> is_option v) kvs"
  shows "\<exists>a. child_args (join_words (cmd # option_pairs kvs)) = Ok a \<and>
    a_opts a = fold (\<lambda>(k, v). omap_set k v) kvs []"
  using parse_pairs [OF assms(2), of "\<lparr>a_all = [], a_opts = [], a_positional = [], a_program = cmd\<rparr>"]
  by (simp add: child_args_def words_of_join [OF assms(1)] parse_args_def Let_def)

text \<open>The options of a source child.\<close>

definition source_pairs :: "proof_plan \<Rightarrow> id128 \<Rightarrow> id128 \<Rightarrow> string \<Rightarrow> (string \<times> string) list" where
  "source_pairs p src boot gen =
     [(''host'', ''127.0.0.1''), (''port'', to_string_word (pp_port p)), (''source'', to_hex src), (''worker'', to_hex src),
      (''boot'', to_hex boot), (''src-gen'', gen), (''obs-gen'', gen), (''epoch'', to_string_word (pp_epoch p))]"

definition a2_pairs :: "proof_plan \<Rightarrow> (string \<times> string) list" where
  "a2_pairs p = source_pairs p (pp_source_a p) (pp_boot_a2 p) ''2'' @
     [(''stale-epoch'', ''0''), (''stale-boot'', to_hex (pp_boot_a1 p)), (''stale-srcgen'', ''1''), (''stale-obsgen'', ''1''),
      (''stale-request'', req_r1), (''script'', pp_dir p @ ''/a2.jsonl'')]"

lemma source_lines:
  "a1_args p = join_words (''source'' # option_pairs (source_pairs p (pp_source_a p) (pp_boot_a1 p) ''1'' @
     [(''script'', pp_dir p @ ''/a1.jsonl''), (''hold-ms'', ''60000'')]))"
  "b_args p = join_words (''source'' # option_pairs (source_pairs p (pp_source_b p) (pp_boot_b p) ''1'' @
     [(''script'', pp_dir p @ ''/b.jsonl'')]))"
  "a2_args p = join_words (''source'' # option_pairs (a2_pairs p))"
  by (simp_all add: a1_args_def b_args_def a2_args_def a2_pairs_def source_pairs_def option_pairs_def)

definition dir_ok :: "string \<Rightarrow> bool" where
  "dir_ok d \<longleftrightarrow> list_all (\<lambda>c. \<not> splits_args c \<and> c \<noteq> CHR 0x22) d \<and> \<not> is_option d"

lemma value_word:
  assumes "w \<noteq> []" and "\<forall>c \<in> set w. \<not> splits_args c \<and> c \<noteq> CHR ''-''"
  shows "word_ok w" and "\<not> is_option w"
proof -
  show "word_ok w" using assms by (simp add: word_ok_def list_all_iff)
  have "hd w \<noteq> CHR ''-''" using assms(2) hd_in_set [OF assms(1)] by blast
  then show "\<not> is_option w" using assms(1) by (auto simp: is_option_def prefix_def)
qed

lemma hex_word: "word_ok (to_hex v)" "\<not> is_option (to_hex v)"
proof -
  have khex: "set khex \<subseteq> {c. \<not> splits_args c \<and> c \<noteq> CHR ''-''}" by (simp add: khex_def splits_args_def)
  have "length khex = 16" by (simp add: khex_def)
  then have "c \<in> set khex" if "c \<in> set (to_hex v)" for c
    using to_hex_chars [OF that] nth_mem [of _ khex] by (elim exE conjE) simp
  then have "\<forall>c \<in> set (to_hex v). \<not> splits_args c \<and> c \<noteq> CHR ''-''" using khex by blast
  moreover have "to_hex v \<noteq> []" using length_to_hex [of v] by auto
  ultimately show "word_ok (to_hex v)" "\<not> is_option (to_hex v)" by (simp_all add: value_word)
qed

lemma number_word: "word_ok (to_string_word w)" "\<not> is_option (to_string_word w)"
proof -
  have "\<forall>c \<in> set (dec_string n). \<not> splits_args c \<and> c \<noteq> CHR ''-''" for n
    by (rule dec_string_all) (use digit_cases in \<open>fastforce simp: splits_args_def\<close>)
  moreover have "dec_string n \<noteq> []" for n using dec_string_digits by blast
  ultimately show "word_ok (to_string_word w)" "\<not> is_option (to_string_word w)"
    unfolding to_string_word_def by (simp_all add: value_word)
qed

lemma path_word:
  assumes "dir_ok d" and "list_all (\<lambda>c. \<not> splits_args c) f"
  shows "word_ok (d @ CHR ''/'' # f)" and "\<not> is_option (d @ CHR ''/'' # f)"
proof -
  have "list_all (\<lambda>c. \<not> splits_args c) d" using assms(1) by (simp add: dir_ok_def list_all_iff)
  then show "word_ok (d @ CHR ''/'' # f)" using assms(2) by (simp add: word_ok_def) (simp add: splits_args_def)
  show "\<not> is_option (d @ CHR ''/'' # f)" using assms(1) by (cases d) (simp_all add: dir_ok_def is_option_def)
qed

text \<open>The configuration a child runs under.\<close>

definition plan_cfg :: "proof_plan \<Rightarrow> id128 \<Rightarrow> id128 \<Rightarrow> u64 \<Rightarrow> source_config" where
  "plan_cfg p src boot gen =
     \<lparr>cf_source = src, cf_worker = src, cf_boot = boot, cf_src_gen = gen, cf_obs_gen = gen,
      cf_epoch = pp_epoch p, cf_clock_domain = ''mono_ns'', cf_role = ''worker''\<rparr>"

lemma opt_number:
  assumes "map_of (a_opts a) k = Some (to_string_word w)"
  shows "opt_u64 a k d = w"
proof -
  have "to_string_word w \<noteq> []" using number_word(1) [of w] by (simp add: word_ok_def)
  moreover have "to_string_word w \<noteq> ''true''"
  proof
    assume "to_string_word w = ''true''"
    then have "CHR ''t'' \<in> set (dec_string (unat w))" by (simp add: to_string_word_def)
    moreover have "\<forall>c \<in> set (dec_string (unat w)). c \<noteq> CHR ''t''"
      by (rule dec_string_all) (use digit_cases in fastforce)
    ultimately show False by blast
  qed
  moreover have "strtoull0 (to_string_word w) = w"
    using strtoull0_dec [of "unat w"] unsigned_less [of w, where ?'a = nat] by (simp add: to_string_word_def)
  ultimately show ?thesis using assms by (simp add: opt_u64_def opt_def)
qed

lemma opt_port:
  assumes "map_of (a_opts a) k = Some (to_string_word (w :: u16))"
  shows "ucast (opt_u64 a k d) = w"
proof -
  have "unat w < 2 ^ 16" using unsigned_less [of w, where ?'a = nat] by simp
  then have "unat (ucast w :: u64) = unat w" by (simp add: unsigned_ucast_eq take_bit_nat_eq_self)
  then have "to_string_word w = to_string_word (ucast w :: u64)" by (simp add: to_string_word_def)
  then have "opt_u64 a k d = ucast w" using assms by (intro opt_number) simp
  moreover have "ucast (ucast w :: u64) = w"
    by (rule bit_word_eqI) (auto simp: bit_unsigned_iff dest: bit_imp_le_length)
  ultimately show ?thesis by simp
qed

lemma small_numbers:
  "map_of (a_opts a) k = Some ''0'' \<Longrightarrow> opt_u64 a k d = 0" "map_of (a_opts a) k = Some ''1'' \<Longrightarrow> opt_u64 a k d = 1"
  "map_of (a_opts a) k = Some ''2'' \<Longrightarrow> opt_u64 a k d = 2"
proof -
  have "dec_string 0 = ''0''" "dec_string 1 = ''1''" "dec_string 2 = ''2''" by code_simp+
  then have "strtoull0 ''0'' = 0" "strtoull0 ''1'' = 1" "strtoull0 ''2'' = 2"
    using strtoull0_dec [of 0] strtoull0_dec [of 1] strtoull0_dec [of 2] by simp_all
  then show "map_of (a_opts a) k = Some ''0'' \<Longrightarrow> opt_u64 a k d = 0" "map_of (a_opts a) k = Some ''1'' \<Longrightarrow> opt_u64 a k d = 1"
    "map_of (a_opts a) k = Some ''2'' \<Longrightarrow> opt_u64 a k d = 2"
    by (simp_all add: opt_u64_def opt_def)
qed

lemma parse_id_hex [simp]: "parse_id (to_hex v) = v"
  by (simp add: parse_id_def parse_to_hex)

text \<open>The coordinator's options.\<close>

definition coord_pairs :: "proof_plan \<Rightarrow> (string \<times> string) list" where
  "coord_pairs p =
     [(''host'', ''127.0.0.1''), (''port'', to_string_word (pp_port p)), (''epoch'', to_string_word (pp_epoch p)),
      (''out'', pp_dir p @ ''/coord.sobs''), (''manifest'', pp_dir p @ ''/manifest.json''),
      (''stop-file'', pp_dir p @ ''/stop.marker''), (''stop-obs'', ''0'')]"

lemma coord_child:
  assumes "dir_ok (pp_dir p)"
  obtains a where "child_args (coord_args p) = Ok a" and "opt_u64 a ''epoch'' 1 = pp_epoch p"
    and "opt a ''out'' ''coord.sobs'' = pp_dir p @ ''/coord.sobs''" and "opt a ''manifest'' [] = pp_dir p @ ''/manifest.json''"
proof -
  have "list_all (\<lambda>c. \<not> splits_args c) f" if "f \<in> {''coord.sobs'', ''manifest.json'', ''stop.marker''}" for f
    using that by (auto simp: splits_args_def)
  then have path: "word_ok (pp_dir p @ CHR ''/'' # f)" "\<not> is_option (pp_dir p @ CHR ''/'' # f)"
    if "f \<in> {''coord.sobs'', ''manifest.json'', ''stop.marker''}" for f
    using path_word [OF assms] that by blast+
  have "coord_args p = join_words (''serve'' # option_pairs (coord_pairs p))"
    by (simp add: coord_args_def coord_pairs_def option_pairs_def)
  moreover have "list_all word_ok (''serve'' # option_pairs (coord_pairs p))"
    using path number_word(1) [of "pp_port p"] number_word(1) [of "pp_epoch p"]
    by (simp add: coord_pairs_def option_pairs_def) (simp add: word_ok_def splits_args_def)
  moreover have "list_all (\<lambda>(k, v). CHR ''='' \<notin> set k \<and> \<not> is_option v) (coord_pairs p)"
    using path number_word(2) [of "pp_port p"] number_word(2) [of "pp_epoch p"]
    by (simp add: coord_pairs_def) (simp add: is_option_def)
  ultimately obtain a where a: "child_args (coord_args p) = Ok a" "a_opts a = fold (\<lambda>(k, v). omap_set k v) (coord_pairs p) []"
    using child_options by metis
  have opts: "map_of (a_opts a) ''epoch'' = Some (to_string_word (pp_epoch p))"
    "map_of (a_opts a) ''out'' = Some (pp_dir p @ ''/coord.sobs'')"
    "map_of (a_opts a) ''manifest'' = Some (pp_dir p @ ''/manifest.json'')"
    by (simp_all add: a(2) coord_pairs_def)
  show thesis by (rule that [OF a(1) opt_number [OF opts(1)]]) (simp_all only: opt_def opts option.case)
qed

lemma source_cfg_pairs:
  assumes "a_opts a = fold (\<lambda>(k, v). omap_set k v) (source_pairs p src boot gen @ rest) []"
    and "list_all (\<lambda>(k, v). k \<notin> fst ` set (source_pairs p src boot gen) \<union> {''clock'', ''role'', ''fire''}) rest"
    and "gen = ''1'' \<and> g = 1 \<or> gen = ''2'' \<and> g = 2"
  shows "source_cfg a = plan_cfg p src boot g" and "flag a ''fire'' = False"
    and "opt a ''host'' ''127.0.0.1'' = ''127.0.0.1''" and "ucast (opt_u64 a ''port'' 0) = pp_port p"
proof -
  have upd: "map_of (fold (\<lambda>(k, v). omap_set k v) rest m) x = map_of m x"
    if "list_all (\<lambda>(k, v). k \<noteq> x) rest" for x m and rest :: "(string \<times> string) list"
    using that by (induction rest arbitrary: m) auto
  have look: "map_of (a_opts a) x = map_of (fold (\<lambda>(k, v). omap_set k v) (source_pairs p src boot gen) []) x"
    if "x \<in> fst ` set (source_pairs p src boot gen) \<union> {''clock'', ''role'', ''fire''}" for x
  proof -
    have "list_all (\<lambda>(k, v). k \<noteq> x) rest" using assms(2) that by (auto simp: list_all_iff)
    from upd [OF this] show ?thesis by (simp add: assms(1))
  qed
  have vals: "map_of (a_opts a) ''source'' = Some (to_hex src)" "map_of (a_opts a) ''worker'' = Some (to_hex src)"
    "map_of (a_opts a) ''boot'' = Some (to_hex boot)" "map_of (a_opts a) ''src-gen'' = Some gen"
    "map_of (a_opts a) ''obs-gen'' = Some gen" "map_of (a_opts a) ''epoch'' = Some (to_string_word (pp_epoch p))"
    "map_of (a_opts a) ''clock'' = None" "map_of (a_opts a) ''role'' = None" "map_of (a_opts a) ''fire'' = None"
    "map_of (a_opts a) ''host'' = Some ''127.0.0.1''" "map_of (a_opts a) ''port'' = Some (to_string_word (pp_port p))"
    by (subst look; simp add: source_pairs_def)+
  have "opt_u64 a ''src-gen'' 1 = g" "opt_u64 a ''obs-gen'' 1 = g"
    using assms(3) vals small_numbers by auto
  then show "source_cfg a = plan_cfg p src boot g"
    using vals opt_number [OF vals(6)] by (simp add: source_cfg_def plan_cfg_def opt_def)
  show "flag a ''fire'' = False" by (simp add: flag_def vals)
  show "opt a ''host'' ''127.0.0.1'' = ''127.0.0.1''" by (simp add: opt_def vals)
  show "ucast (opt_u64 a ''port'' 0) = pp_port p" by (rule opt_port [OF vals(11)])
qed

subsection \<open>What the scripts say\<close>

text \<open>The entries line by line, their fields in the order of the text.\<close>

definition obs_entry :: "obs_type \<Rightarrow> u64 \<Rightarrow> (string \<times> string) list \<Rightarrow> script_entry" where
  "obs_entry t ts kvs = new_entry\<lparr>se_type := t, se_obs_ts := ts, se_fields := kvs\<rparr>"

definition entries_a1 :: "script_entry list" where
  "entries_a1 =
    [obs_entry OT_REQUEST 1000 [(''request'', req_r1)],
     obs_entry OT_ADMISSION 1200 [(''request'', req_r1)],
     obs_entry OT_QUEUE_ENTER 1300 [(''request'', req_r1)],
     obs_entry OT_QUEUE_LEAVE 1600 [(''request'', req_r1)],
     obs_entry OT_DISPATCH 1700 [(''request'', req_r1)],
     obs_entry OT_PREFILL_START 1800 [(''request'', req_r1), (''input_tokens'', ''64'')],
     obs_entry OT_PREFILL_END 2300 [(''request'', req_r1), (''gpu_ms'', ''0.4'')],
     obs_entry OT_COMPLETION 2600 [(''request'', req_r1), (''outcome'', ''completed'')],
     obs_entry OT_REQUEST 3000 [(''request'', req_r2)],
     obs_entry OT_ADMISSION 3100 [(''request'', req_r2)],
     obs_entry OT_PREFILL_START 3200 [(''request'', req_r2), (''input_tokens'', ''128'')]]"

definition entries_b :: "script_entry list" where
  "entries_b =
    [obs_entry OT_REQUEST 5000 [(''request'', req_r3)],
     obs_entry OT_ADMISSION 5100 [(''request'', req_r3)],
     obs_entry OT_QUEUE_ENTER 5200 [(''request'', req_r3)],
     obs_entry OT_QUEUE_LEAVE 5300 [(''request'', req_r3)],
     obs_entry OT_DISPATCH 5400 [(''request'', req_r3)],
     obs_entry OT_PREFILL_START 5500 [(''request'', req_r3), (''input_tokens'', ''96'')],
     obs_entry OT_PREFILL_END 5900 [(''request'', req_r3), (''gpu_ms'', ''0.3'')],
     obs_entry OT_DECODE_STEP_START 6000 [(''request'', req_r3), (''output_tokens'', ''1'')],
     obs_entry OT_DECODE_STEP_END 6050 [(''request'', req_r3), (''gpu_ms'', ''0.05'')],
     obs_entry OT_COMPLETION 6100 [(''request'', req_r3), (''outcome'', ''completed'')]]"

definition entries_a2 :: "script_entry list" where
  "entries_a2 =
    [obs_entry OT_PREFILL_END 3300 [(''request'', req_r2), (''gpu_ms'', ''0.1'')],
     obs_entry OT_DECODE_STEP_START 3400 [(''request'', req_r2), (''output_tokens'', ''1'')],
     obs_entry OT_DECODE_STEP_END 3450 [(''request'', req_r2), (''gpu_ms'', ''0.05'')],
     obs_entry OT_COMPLETION 3500 [(''request'', req_r2), (''outcome'', ''completed'')],
     obs_entry OT_REQUEST 9000 [(''request'', req_r4)],
     obs_entry OT_ADMISSION 9100 [(''request'', req_r4)],
     obs_entry OT_DISPATCH 9200 [(''request'', req_r4)],
     obs_entry OT_PREFILL_START 9300 [(''request'', req_r4), (''input_tokens'', ''32'')],
     obs_entry OT_PREFILL_END 9600 [(''request'', req_r4), (''gpu_ms'', ''0.2'')],
     obs_entry OT_COMPLETION 9800 [(''request'', req_r4), (''outcome'', ''completed'')]]"

lemma proof_type_words:
  "type_word OT_ADMISSION = ''ADMISSION''"
  "type_word OT_COMPLETION = ''COMPLETION''"
  "type_word OT_DECODE_STEP_END = ''DECODE_STEP_END''"
  "type_word OT_DECODE_STEP_START = ''DECODE_STEP_START''"
  "type_word OT_DISPATCH = ''DISPATCH''"
  "type_word OT_PREFILL_END = ''PREFILL_END''"
  "type_word OT_PREFILL_START = ''PREFILL_START''"
  "type_word OT_QUEUE_ENTER = ''QUEUE_ENTER''"
  "type_word OT_QUEUE_LEAVE = ''QUEUE_LEAVE''"
  "type_word OT_REQUEST = ''REQUEST''"
  by code_simp+

lemma proof_numbers:
  "to_string_word (1000 :: u64) = ''1000''"
  "to_string_word (1200 :: u64) = ''1200''"
  "to_string_word (1300 :: u64) = ''1300''"
  "to_string_word (1600 :: u64) = ''1600''"
  "to_string_word (1700 :: u64) = ''1700''"
  "to_string_word (1800 :: u64) = ''1800''"
  "to_string_word (2300 :: u64) = ''2300''"
  "to_string_word (2600 :: u64) = ''2600''"
  "to_string_word (3000 :: u64) = ''3000''"
  "to_string_word (3100 :: u64) = ''3100''"
  "to_string_word (3200 :: u64) = ''3200''"
  "to_string_word (3300 :: u64) = ''3300''"
  "to_string_word (3400 :: u64) = ''3400''"
  "to_string_word (3450 :: u64) = ''3450''"
  "to_string_word (3500 :: u64) = ''3500''"
  "to_string_word (5000 :: u64) = ''5000''"
  "to_string_word (5100 :: u64) = ''5100''"
  "to_string_word (5200 :: u64) = ''5200''"
  "to_string_word (5300 :: u64) = ''5300''"
  "to_string_word (5400 :: u64) = ''5400''"
  "to_string_word (5500 :: u64) = ''5500''"
  "to_string_word (5900 :: u64) = ''5900''"
  "to_string_word (6000 :: u64) = ''6000''"
  "to_string_word (6050 :: u64) = ''6050''"
  "to_string_word (6100 :: u64) = ''6100''"
  "to_string_word (9000 :: u64) = ''9000''"
  "to_string_word (9100 :: u64) = ''9100''"
  "to_string_word (9200 :: u64) = ''9200''"
  "to_string_word (9300 :: u64) = ''9300''"
  "to_string_word (9600 :: u64) = ''9600''"
  "to_string_word (9800 :: u64) = ''9800''"
  by (simp_all add: to_string_word_def dec_string.simps char_of_def bit_Suc_0_iff)

lemma entry_line:
  "entry_text (obs_entry t ts kvs) = ''OBS '' @ type_word t @ '' '' @ to_string_word ts @
     concat (map (\<lambda>kv. '' '' @ fst kv @ ''='' @ snd kv) kvs)"
  by (simp add: entry_text_def obs_entry_def new_entry_def field_word_def)

lemma script_texts:
  "script_a1 = concat (map (\<lambda>e. entry_text e @ [] @ nl) entries_a1)"
  "script_b = concat (map (\<lambda>e. entry_text e @ [] @ nl) entries_b)"
  "script_a2 = concat (map (\<lambda>e. entry_text e @ [] @ nl) entries_a2)"
  unfolding script_a1_def script_b_def script_a2_def entries_a1_def entries_b_def entries_a2_def
  by (simp_all add: entry_line proof_type_words proof_numbers)

text \<open>The words a line names its request with, and its other fields.\<close>

definition request_word :: "string \<Rightarrow> bool" where
  "request_word r \<longleftrightarrow> plain r \<and> length r \<le> 100 \<and> set r \<inter> set ''.eE'' = {}"

definition option_word :: "string \<times> string \<Rightarrow> bool" where
  "option_word kv \<longleftrightarrow> short_word kv \<and> field_plain kv \<and> fst kv \<noteq> ''request'' \<and> fst kv \<noteq> ''request_id''"

lemma names_line:
  assumes "request_word r" and "list_all option_word kvs" and "length kvs \<le> 9"
  shows "names r (obs_entry t ts ((''request'', r) # kvs))"
proof -
  have "map_of (rev kvs) ''request'' = None" "map_of (rev kvs) ''request_id'' = None"
    using assms(2) by (force simp: map_of_eq_None_iff list_all_iff option_word_def)+
  moreover have "field_plain (''request'', r)" using assms(1) by (simp add: request_word_def field_plain_def is_space_def)
  moreover have "short_word (''request'', r)" using assms(1) by (intro short_wordI) (simp_all add: request_word_def)
  moreover have "list_all short_word kvs" "list_all field_plain kvs"
    using assms(2) by (simp_all add: list_all_iff option_word_def)
  ultimately show ?thesis
    using assms(3) by (simp add: names_def obs_entry_def new_entry_def words_plain_def map_add_def)
qed

lemma request_words: "request_word req_r1" "request_word req_r2" "request_word req_r3" "request_word req_r4"
  by (simp_all add: request_word_def req_r1_def req_r2_def req_r3_def req_r4_def plain_def is_space_def)

lemma option_word_facts:
  "option_word (''input_tokens'', ''64'')" "option_word (''input_tokens'', ''128'')" "option_word (''input_tokens'', ''96'')"
  "option_word (''input_tokens'', ''32'')" "option_word (''output_tokens'', ''1'')" "option_word (''outcome'', ''completed'')"
  "option_word (''gpu_ms'', ''0.4'')" "option_word (''gpu_ms'', ''0.3'')" "option_word (''gpu_ms'', ''0.05'')"
  "option_word (''gpu_ms'', ''0.1'')" "option_word (''gpu_ms'', ''0.2'')"
  unfolding option_word_def
  by (intro conjI; (rule short_wordI)?; simp add: atof_fractions field_plain_def plain_def is_space_def)+

lemma entries_name:
  "list_all2 names (replicate 8 req_r1 @ replicate 3 req_r2) entries_a1"
  "list_all2 names (replicate 10 req_r3) entries_b"
  "list_all2 names (replicate 4 req_r2 @ replicate 6 req_r4) entries_a2"
  unfolding entries_a1_def entries_b_def entries_a2_def
  by (simp_all add: names_line request_words option_word_facts numeral_eq_Suc)

subsection \<open>Counting the rejections\<close>

lemma str_find_within:
  assumes "pos \<le> j" and "j \<le> length s" and "prefix t (drop j s)"
  shows "\<exists>i \<le> j. str_find s t pos = Some i"
proof -
  have "j \<in> set [pos ..< Suc (length s)]" using assms(1,2) by auto
  then have "str_find s t pos \<noteq> None"
    using assms(3) unfolding str_find_def find_None_iff by blast
  then obtain i where i: "str_find s t pos = Some i" by blast
  then obtain n where n: "n < Suc (length s) - pos" "i = pos + n"
      "\<forall>m < n. \<not> prefix t (drop (pos + m) s)"
    by (auto simp: str_find_def find_Some_iff simp del: upt_Suc)
  have "\<not> j - pos < n" using n(3) assms(1,3) by auto
  then show ?thesis using i n(2) assms(1) by (intro exI [of _ i]) simp
qed

lemma probe_rejected_at:
  assumes "prefix (''STALE_'' @ which @ ''='') (drop i out)" and "prefix ''REJECTED'' (drop j out)"
    and "i \<le> j" and "j \<le> length out"
  shows "probe_rejected out which"
proof -
  obtain i' where i': "i' \<le> i" "str_find out (''STALE_'' @ which @ ''='') 0 = Some i'"
    using str_find_within [of 0 i out] assms by auto
  then have "\<exists>k \<le> j. str_find out ''REJECTED'' i' = Some k"
    using assms by (intro str_find_within) simp_all
  then show ?thesis using i'(2) by (auto simp: probe_rejected_def)
qed

definition rejected_lines :: "string list \<Rightarrow> string" where
  "rejected_lines ws = concat (map (\<lambda>w. ''STALE_'' @ w @ ''=REJECTED'' @ nl) ws)"

lemma piped_append [simp]: "piped (s @ t) = piped s @ piped t"
  by (simp add: piped_def)

lemma all_rejected: "stale_rejected (piped (rejected_lines probe_kinds) @ rest) = 4"
proof -
  let ?out = "piped (rejected_lines probe_kinds) @ rest"
  note defs = rejected_lines_def probe_kinds_def nl_def piped_def
  have len: "80 \<le> length ?out" by (simp add: defs)
  have "probe_rejected ?out ''epoch''"
    using len by (intro probe_rejected_at [where i = 0 and j = 12]) (simp_all add: defs)
  moreover have "probe_rejected ?out ''boot''"
    using len by (intro probe_rejected_at [where i = 22 and j = 33]) (simp_all add: defs)
  moreover have "probe_rejected ?out ''srcgen''"
    using len by (intro probe_rejected_at [where i = 43 and j = 56]) (simp_all add: defs)
  moreover have "probe_rejected ?out ''obsgen''"
    using len by (intro probe_rejected_at [where i = 66 and j = 79]) (simp_all add: defs)
  ultimately show ?thesis by (simp add: stale_rejected_def)
qed

text \<open>The command stops reading at a completion's acknowledgement, and the probes come before it.\<close>

lemma str_find_chars: "str_find s t pos \<noteq> None \<Longrightarrow> set t \<subseteq> set s"
proof -
  assume "str_find s t pos \<noteq> None"
  then obtain i where "prefix t (drop i s)" by (auto simp: str_find_def find_None_iff simp del: upt_Suc)
  then show "set t \<subseteq> set s" using set_mono_prefix set_drop_subset by (metis subset_trans)
qed

lemma seen_rejected:
  assumes "prefix out (piped (rejected_lines probe_kinds) @ rest)"
    and "a2_complete out \<or> out = piped (rejected_lines probe_kinds) @ rest"
  shows "stale_rejected out = 4"
proof -
  let ?r = "piped (rejected_lines probe_kinds)"
  have "prefix ?r out"
  proof (rule ccontr)
    assume no: "\<not> prefix ?r out"
    then have "prefix out ?r" using prefix_same_cases [OF assms(1), of ?r] by auto
    then have sub: "set out \<subseteq> set ?r" by (rule set_mono_prefix)
    have "a2_complete out" using assms(2) no by auto
    then have "set ''ACK COMPLETION ACCEPTED'' \<subseteq> set out \<or> set ''ACK completion ACCEPTED'' \<subseteq> set out"
      unfolding a2_complete_def using str_find_chars by blast
    then have "CHR ''K'' \<in> set out" by auto
    moreover have "CHR ''K'' \<notin> set ?r" by (simp add: rejected_lines_def probe_kinds_def nl_def piped_def)
    ultimately show False using sub by blast
  qed
  then obtain r where "out = ?r @ r" by (auto simp: prefix_def)
  then show ?thesis using all_rejected by simp
qed

lemma read_a2_prefix: "prefix (read_a2 polls out) (out @ concat (map fst polls))"
  by (induction polls out rule: read_a2.induct) (auto simp: Let_def)

subsection \<open>The children's sessions\<close>

text \<open>
  What a source child sends over a working connection: the session of its command line, with the
  entries of its script.
\<close>

definition child_session :: "u64 \<Rightarrow> text_files \<Rightarrow> string \<Rightarrow> coord_event list result" where
  "child_session junk files line =
     (case child_args line of
        Err e \<Rightarrow> Err e
      | Ok a \<Rightarrow>
          (case parse_script junk files (opt a ''script'' []) of
             Err e \<Rightarrow> Err e
           | Ok es \<Rightarrow> Ok (session_events a es)))"

definition a1_observations :: "proof_plan \<Rightarrow> observation list" where
  "a1_observations p = script_observations (plan_cfg p (pp_source_a p) (pp_boot_a1 p) 1) 0 (map read_entry entries_a1)"

definition b_observations :: "proof_plan \<Rightarrow> observation list" where
  "b_observations p = script_observations (plan_cfg p (pp_source_b p) (pp_boot_b p) 1) 0 (map read_entry entries_b)"

definition a2_observations :: "proof_plan \<Rightarrow> observation list" where
  "a2_observations p = script_observations (plan_cfg p (pp_source_a p) (pp_boot_a2 p) 2) 0 (map read_entry entries_a2)"

lemma option_pairs_words:
  "list_all word_ok (option_pairs kvs) \<longleftrightarrow> list_all (\<lambda>kv. word_ok (''--'' @ fst kv) \<and> word_ok (snd kv)) kvs"
  by (induction kvs) (auto simp: option_pairs_def)

lemma option_name: "list_all (\<lambda>c. \<not> splits_args c) k \<Longrightarrow> word_ok (''--'' @ k)"
  by (simp add: word_ok_def) (simp add: splits_args_def)

lemma pairs_ok:
  assumes "gen = ''1'' \<or> gen = ''2''"
    and "list_all (\<lambda>kv. CHR ''='' \<notin> set (fst kv) \<and> list_all (\<lambda>c. \<not> splits_args c) (fst kv) \<and>
      word_ok (snd kv) \<and> \<not> is_option (snd kv)) rest"
  shows "list_all word_ok (''source'' # option_pairs (source_pairs p src boot gen @ rest))"
    and "list_all (\<lambda>(k, v). CHR ''='' \<notin> set k \<and> \<not> is_option v) (source_pairs p src boot gen @ rest)"
proof -
  have "list_all word_ok (option_pairs rest)"
    using assms(2) option_name unfolding option_pairs_words by (simp only: list_all_iff) blast
  moreover have "word_ok ''source''" "word_ok ''127.0.0.1''" "word_ok gen" "\<not> is_option ''127.0.0.1''" "\<not> is_option gen"
    using assms(1) by (auto simp: word_ok_def splits_args_def is_option_def)
  ultimately show "list_all word_ok (''source'' # option_pairs (source_pairs p src boot gen @ rest))"
    by (simp add: option_pairs_words source_pairs_def hex_word number_word)
       (simp add: word_ok_def splits_args_def)
  show "list_all (\<lambda>(k, v). CHR ''='' \<notin> set k \<and> \<not> is_option v) (source_pairs p src boot gen @ rest)"
    using assms(2) \<open>\<not> is_option ''127.0.0.1''\<close> \<open>\<not> is_option gen\<close>
    by (simp add: source_pairs_def hex_word number_word case_prod_beta list_all_iff)
qed

lemma child_options_pairs:
  assumes "gen = ''1'' \<and> g = 1 \<or> gen = ''2'' \<and> g = 2"
    and "list_all (\<lambda>kv. CHR ''='' \<notin> set (fst kv) \<and> list_all (\<lambda>c. \<not> splits_args c) (fst kv) \<and>
      word_ok (snd kv) \<and> \<not> is_option (snd kv)) rest"
    and "list_all (\<lambda>(k, v). k \<notin> fst ` set (source_pairs p src boot gen) \<union> {''clock'', ''role'', ''fire''}) rest"
  shows "\<exists>a. child_args (join_words (''source'' # option_pairs (source_pairs p src boot gen @ rest))) = Ok a \<and>
    source_cfg a = plan_cfg p src boot g \<and> \<not> flag a ''fire'' \<and>
    opt a ''host'' ''127.0.0.1'' = ''127.0.0.1'' \<and> ucast (opt_u64 a ''port'' 0) = pp_port p \<and>
    a_opts a = fold (\<lambda>(k, v). omap_set k v) (source_pairs p src boot gen @ rest) []"
proof -
  have "gen = ''1'' \<or> gen = ''2''" using assms(1) by blast
  from child_options [OF pairs_ok [OF this assms(2)]] source_cfg_pairs [OF _ assms(3,1)] show ?thesis by blast
qed

lemma script_path_word:
  assumes "dir_ok d" and "list_all (\<lambda>c. \<not> splits_args c) f"
  shows "CHR ''='' \<notin> set (fst (''script'', d @ CHR ''/'' # f)) \<and> list_all (\<lambda>c. \<not> splits_args c) (fst (''script'', d @ CHR ''/'' # f)) \<and>
    word_ok (snd (''script'', d @ CHR ''/'' # f)) \<and> \<not> is_option (snd (''script'', d @ CHR ''/'' # f))"
  using path_word [OF assms] by (simp add: splits_args_def)

lemma child_a1:
  assumes "dir_ok (pp_dir p)"
  obtains a where "child_args (a1_args p) = Ok a" and "source_cfg a = plan_cfg p (pp_source_a p) (pp_boot_a1 p) 1"
    and "opt a ''script'' [] = pp_dir p @ ''/a1.jsonl''" and "given_probes a probe_kinds = []"
proof -
  let ?rest = "[(''script'', pp_dir p @ ''/a1.jsonl''), (''hold-ms'', ''60000'')]"
  have "list_all (\<lambda>c. \<not> splits_args c) ''a1.jsonl''" by (simp add: splits_args_def)
  note path = path_word [OF assms this]
  have rest: "list_all (\<lambda>kv. CHR ''='' \<notin> set (fst kv) \<and> list_all (\<lambda>c. \<not> splits_args c) (fst kv) \<and>
      word_ok (snd kv) \<and> \<not> is_option (snd kv)) ?rest"
    using path by (simp add: splits_args_def word_ok_def is_option_def)
  obtain a where a: "child_args (a1_args p) = Ok a" "source_cfg a = plan_cfg p (pp_source_a p) (pp_boot_a1 p) 1"
      "a_opts a = fold (\<lambda>(k, v). omap_set k v) (source_pairs p (pp_source_a p) (pp_boot_a1 p) ''1'' @ ?rest) []"
    using child_options_pairs [OF _ rest, where gen = "''1''" and g = 1 and p = p and src = "pp_source_a p" and boot = "pp_boot_a1 p"]
    by (auto simp: source_lines source_pairs_def)
  show thesis
  proof (rule that [OF a(1,2)])
    show "opt a ''script'' [] = pp_dir p @ ''/a1.jsonl''" by (simp add: opt_def a(3))
    show "given_probes a probe_kinds = []" by (simp add: given_probes_def probe_kinds_def a(3) source_pairs_def)
  qed
qed

lemma child_b:
  assumes "dir_ok (pp_dir p)"
  obtains a where "child_args (b_args p) = Ok a" and "source_cfg a = plan_cfg p (pp_source_b p) (pp_boot_b p) 1"
    and "opt a ''script'' [] = pp_dir p @ ''/b.jsonl''" and "given_probes a probe_kinds = []"
proof -
  let ?rest = "[(''script'', pp_dir p @ ''/b.jsonl'')]"
  have "list_all (\<lambda>c. \<not> splits_args c) ''b.jsonl''" by (simp add: splits_args_def)
  note path = path_word [OF assms this]
  have rest: "list_all (\<lambda>kv. CHR ''='' \<notin> set (fst kv) \<and> list_all (\<lambda>c. \<not> splits_args c) (fst kv) \<and>
      word_ok (snd kv) \<and> \<not> is_option (snd kv)) ?rest"
    using path by (simp add: splits_args_def)
  obtain a where a: "child_args (b_args p) = Ok a" "source_cfg a = plan_cfg p (pp_source_b p) (pp_boot_b p) 1"
      "a_opts a = fold (\<lambda>(k, v). omap_set k v) (source_pairs p (pp_source_b p) (pp_boot_b p) ''1'' @ ?rest) []"
    using child_options_pairs [OF _ rest, where gen = "''1''" and g = 1 and p = p and src = "pp_source_b p" and boot = "pp_boot_b p"]
    by (auto simp: source_lines source_pairs_def)
  show thesis
  proof (rule that [OF a(1,2)])
    show "opt a ''script'' [] = pp_dir p @ ''/b.jsonl''" by (simp add: opt_def a(3))
    show "given_probes a probe_kinds = []" by (simp add: given_probes_def probe_kinds_def a(3) source_pairs_def)
  qed
qed

lemma child_a2:
  assumes "dir_ok (pp_dir p)"
  obtains a where "child_args (a2_args p) = Ok a" and "source_cfg a = plan_cfg p (pp_source_a p) (pp_boot_a2 p) 2"
    and "opt a ''script'' [] = pp_dir p @ ''/a2.jsonl''"
    and "given_probes a probe_kinds = probe_kinds"
    and "\<not> flag a ''fire''" and "opt a ''host'' ''127.0.0.1'' = ''127.0.0.1''" and "ucast (opt_u64 a ''port'' 0) = pp_port p"
    and "opt_u64 a ''stale-epoch'' 0 = 0" and "parse_id (opt a ''stale-boot'' []) = pp_boot_a1 p"
    and "opt_u64 a ''stale-srcgen'' 0 = 1" and "opt_u64 a ''stale-obsgen'' 0 = 1"
    and "opt a ''stale-request'' ''000000000000000000000000000000aa'' = req_r1"
proof -
  let ?rest = "[(''stale-epoch'', ''0''), (''stale-boot'', to_hex (pp_boot_a1 p)), (''stale-srcgen'', ''1''),
      (''stale-obsgen'', ''1''), (''stale-request'', req_r1), (''script'', pp_dir p @ ''/a2.jsonl'')]"
  have "list_all (\<lambda>c. \<not> splits_args c) ''a2.jsonl''" by (simp add: splits_args_def)
  note path = path_word [OF assms this]
  have "word_ok ''0''" "word_ok ''1''" "word_ok req_r1" "\<not> is_option ''0''" "\<not> is_option ''1''" "\<not> is_option req_r1"
    by (simp_all add: word_ok_def splits_args_def is_option_def req_r1_def)
  then have rest: "list_all (\<lambda>kv. CHR ''='' \<notin> set (fst kv) \<and> list_all (\<lambda>c. \<not> splits_args c) (fst kv) \<and>
      word_ok (snd kv) \<and> \<not> is_option (snd kv)) ?rest"
    using path hex_word by (simp add: splits_args_def)
  obtain a where a: "child_args (a2_args p) = Ok a" "source_cfg a = plan_cfg p (pp_source_a p) (pp_boot_a2 p) 2"
      "\<not> flag a ''fire''" "opt a ''host'' ''127.0.0.1'' = ''127.0.0.1''" "ucast (opt_u64 a ''port'' 0) = pp_port p"
      "a_opts a = fold (\<lambda>(k, v). omap_set k v) (source_pairs p (pp_source_a p) (pp_boot_a2 p) ''2'' @ ?rest) []"
    using child_options_pairs [OF _ rest, where gen = "''2''" and g = 2 and p = p and src = "pp_source_a p" and boot = "pp_boot_a2 p"]
    by (auto simp: source_lines a2_pairs_def source_pairs_def)
  have opts: "map_of (a_opts a) ''stale-epoch'' = Some ''0''" "map_of (a_opts a) ''stale-boot'' = Some (to_hex (pp_boot_a1 p))"
    "map_of (a_opts a) ''stale-srcgen'' = Some ''1''" "map_of (a_opts a) ''stale-obsgen'' = Some ''1''"
    "map_of (a_opts a) ''script'' = Some (pp_dir p @ ''/a2.jsonl'')" "map_of (a_opts a) ''stale-request'' = Some req_r1"
    by (simp_all add: a(6))
  show thesis
  proof (rule that [OF a(1,2) _ _ a(3-5)])
    show "opt a ''script'' [] = pp_dir p @ ''/a2.jsonl''" by (simp only: opt_def opts option.case)
    show "given_probes a probe_kinds = probe_kinds" using opts by (simp add: given_probes_def probe_kinds_def)
    show "opt_u64 a ''stale-epoch'' 0 = 0" by (rule small_numbers(1) [OF opts(1)])
    show "opt_u64 a ''stale-srcgen'' 0 = 1" by (rule small_numbers(2) [OF opts(3)])
    show "opt_u64 a ''stale-obsgen'' 0 = 1" by (rule small_numbers(2) [OF opts(4)])
    show "opt a ''stale-request'' ''000000000000000000000000000000aa'' = req_r1" by (simp only: opt_def opts option.case)
    have "opt a ''stale-boot'' [] = to_hex (pp_boot_a1 p)" by (simp only: opt_def opts option.case)
    then show "parse_id (opt a ''stale-boot'' []) = pp_boot_a1 p" by simp
  qed
qed

lemma script_reads:
  "parse_script junk (script_files p files) (pp_dir p @ ''/a1.jsonl'') = Ok (map read_entry entries_a1)"
  "parse_script junk (script_files p files) (pp_dir p @ ''/b.jsonl'') = Ok (map read_entry entries_b)"
  "parse_script junk (script_files p files) (pp_dir p @ ''/a2.jsonl'') = Ok (map read_entry entries_a2)"
proof -
  have plain: "list_all words_plain es" if "list_all2 names rs es" for rs es
    using that by (induction rule: list_all2_induct) (simp_all add: names_def)
  have f: "script_files p files (pp_dir p @ ''/a1.jsonl'') = Some script_a1"
    "script_files p files (pp_dir p @ ''/b.jsonl'') = Some script_b"
    "script_files p files (pp_dir p @ ''/a2.jsonl'') = Some script_a2"
    by (simp_all add: script_files_def)
  show "parse_script junk (script_files p files) (pp_dir p @ ''/a1.jsonl'') = Ok (map read_entry entries_a1)"
    by (rule parse_script_words [OF plain [OF entries_name(1)], of "[]"]) (simp_all add: f script_texts)
  show "parse_script junk (script_files p files) (pp_dir p @ ''/b.jsonl'') = Ok (map read_entry entries_b)"
    by (rule parse_script_words [OF plain [OF entries_name(2)], of "[]"]) (simp_all add: f script_texts)
  show "parse_script junk (script_files p files) (pp_dir p @ ''/a2.jsonl'') = Ok (map read_entry entries_a2)"
    by (rule parse_script_words [OF plain [OF entries_name(3)], of "[]"]) (simp_all add: f script_texts)
qed

lemma child_sessions:
  assumes "dir_ok (pp_dir p)"
  shows "child_session junk (script_files p files) (a1_args p) =
      Ok (EvHello (hello_of (plan_cfg p (pp_source_a p) (pp_boot_a1 p) 1)) # map EvObs (a1_observations p))"
    and "child_session junk (script_files p files) (b_args p) =
      Ok (EvHello (hello_of (plan_cfg p (pp_source_b p) (pp_boot_b p) 1)) # map EvObs (b_observations p))"
proof -
  obtain a where "child_args (a1_args p) = Ok a" "source_cfg a = plan_cfg p (pp_source_a p) (pp_boot_a1 p) 1"
    "opt a ''script'' [] = pp_dir p @ ''/a1.jsonl''" "given_probes a probe_kinds = []" using child_a1 [OF assms] .
  then show "child_session junk (script_files p files) (a1_args p) =
      Ok (EvHello (hello_of (plan_cfg p (pp_source_a p) (pp_boot_a1 p) 1)) # map EvObs (a1_observations p))"
    by (simp add: child_session_def session_events_def script_reads [simplified] a1_observations_def)
  obtain a where "child_args (b_args p) = Ok a" "source_cfg a = plan_cfg p (pp_source_b p) (pp_boot_b p) 1"
    "opt a ''script'' [] = pp_dir p @ ''/b.jsonl''" "given_probes a probe_kinds = []" using child_b [OF assms] .
  then show "child_session junk (script_files p files) (b_args p) =
      Ok (EvHello (hello_of (plan_cfg p (pp_source_b p) (pp_boot_b p) 1)) # map EvObs (b_observations p))"
    by (simp add: child_session_def session_events_def script_reads [simplified] b_observations_def)
qed

definition a2_probes :: "proof_plan \<Rightarrow> observation list" where
  "a2_probes p =
     (let src = new_source SOBS_DISCONNECTED (plan_cfg p (pp_source_a p) (pp_boot_a2 p) 2) :: unit source;
          ob = set_field ''request_id'' (FvId (parse_id req_r1)) (make_observation OT_REQUEST src)
      in [ob\<lparr>o_epoch := 0\<rparr>, ob\<lparr>o_boot := pp_boot_a1 p\<rparr>, ob\<lparr>o_src_gen := 1\<rparr>, ob\<lparr>o_obs_gen := 1\<rparr>])"

lemma a2_session:
  assumes "source_cfg a = plan_cfg p (pp_source_a p) (pp_boot_a2 p) 2" and "given_probes a probe_kinds = probe_kinds"
    and "opt_u64 a ''stale-epoch'' 0 = 0" and "parse_id (opt a ''stale-boot'' []) = pp_boot_a1 p"
    and "opt_u64 a ''stale-srcgen'' 0 = 1" and "opt_u64 a ''stale-obsgen'' 0 = 1"
    and "opt a ''stale-request'' ''000000000000000000000000000000aa'' = req_r1"
  shows "session_events a (map read_entry entries_a2) =
    EvHello (hello_of (plan_cfg p (pp_source_a p) (pp_boot_a2 p) 2)) # map EvObs (a2_probes p @ a2_observations p)"
proof -
  have "map (\<lambda>w. stale_probe a w (new_source SOBS_DISCONNECTED (source_cfg a) :: unit source)) probe_kinds = a2_probes p"
    unfolding probe_kinds_def list.map stale_probe_def Let_def assms(7,1) a2_probes_def
    using assms(3-6) by simp
  then have "map EvObs (map (\<lambda>w. stale_probe a w (new_source SOBS_DISCONNECTED (source_cfg a) :: unit source)) probe_kinds) =
      map EvObs (a2_probes p)" by (rule arg_cong)
  then have "map (\<lambda>w. EvObs (stale_probe a w (new_source SOBS_DISCONNECTED (source_cfg a) :: unit source))) probe_kinds =
      map EvObs (a2_probes p)" by (simp only: list.map_comp comp_def)
  then show ?thesis using assms(1,2) by (simp add: session_events_def a2_observations_def)
qed

lemma child_session_a2:
  assumes "dir_ok (pp_dir p)"
  shows "child_session junk (script_files p files) (a2_args p) =
    Ok (EvHello (hello_of (plan_cfg p (pp_source_a p) (pp_boot_a2 p) 2)) # map EvObs (a2_probes p @ a2_observations p))"
proof (rule child_a2 [OF assms])
  fix a
  assume a: "child_args (a2_args p) = Ok a" "source_cfg a = plan_cfg p (pp_source_a p) (pp_boot_a2 p) 2"
      "opt a ''script'' [] = pp_dir p @ ''/a2.jsonl''" "given_probes a probe_kinds = probe_kinds"
    and vals: "opt_u64 a ''stale-epoch'' 0 = 0" "parse_id (opt a ''stale-boot'' []) = pp_boot_a1 p"
      "opt_u64 a ''stale-srcgen'' 0 = 1" "opt_u64 a ''stale-obsgen'' 0 = 1"
      "opt a ''stale-request'' ''000000000000000000000000000000aa'' = req_r1"
  show ?thesis using a2_session [OF a(2,4) vals] a(1,3) by (simp add: child_session_def script_reads [simplified])
qed

subsection \<open>What they observe\<close>

lemma request_ids:
  "distinct [parse_id req_r1, parse_id req_r2, parse_id req_r3, parse_id req_r4]"
  "parse_id req_r2 \<noteq> id_null" "parse_id req_r4 \<noteq> id_null"
  by code_simp+

lemma script_envelope:
  "list_all (\<lambda>ob. o_boot ob = cf_boot cfg \<and> obs_key ob = key_of (cf_source cfg) (cf_worker cfg)) (script_observations cfg s es)"
  by (induction cfg s es rule: script_observations.induct) (simp_all add: entry_envelope)

lemma plan_clock: "length (cf_clock_domain (plan_cfg p src boot g)) \<le> 100"
  by (simp add: plan_cfg_def)

lemma proof_observations:
  "map o_request_id (a1_observations p) = replicate 8 (parse_id req_r1) @ replicate 3 (parse_id req_r2)"
  "map o_request_id (b_observations p) = replicate 10 (parse_id req_r3)"
  "map o_request_id (a2_observations p) = replicate 4 (parse_id req_r2) @ replicate 6 (parse_id req_r4)"
  "list_all (small_obs 10) (a1_observations p)" "list_all (small_obs 10) (b_observations p)"
  "list_all (small_obs 10) (a2_observations p)"
  unfolding a1_observations_def b_observations_def a2_observations_def
  using named_observations [OF entries_name(1) plan_clock] named_observations [OF entries_name(2) plan_clock]
    named_observations [OF entries_name(3) plan_clock] by simp_all

lemma proof_lengths: "length (a1_observations p) = 11" "length (b_observations p) = 10" "length (a2_observations p) = 10"
  using proof_observations(1-3) [of p, THEN arg_cong [where f = length]] by simp_all

lemma proof_sessions_ok:
  "session_ok (hello_of (plan_cfg p (pp_source_a p) (pp_boot_a1 p) 1)) (a1_observations p)"
  "session_ok (hello_of (plan_cfg p (pp_source_b p) (pp_boot_b p) 1)) (b_observations p)"
  "session_ok (hello_of (plan_cfg p (pp_source_a p) (pp_boot_a2 p) 2)) (a2_observations p)"
  using proof_lengths [of p] unfolding a1_observations_def b_observations_def a2_observations_def
  by (intro script_session_ok; simp add: hello_of_def)+

lemma small_probe:
  assumes "length (cf_clock_domain (sr_cfg src)) \<le> 100"
  shows "small_obs 10 (set_field ''request_id'' (FvId r) (make_observation t src))"
proof -
  have "small_obs 0 (make_observation t src)"
    using assms by (simp add: small_obs_def make_observation_def default_observation_def fields_short_def Let_def)
  then have "small_obs 1 (set_field ''request_id'' (FvId r) (make_observation t src))"
    using small_set_field [of 0 "make_observation t src"] by (simp add: fv_short_def)
  then show ?thesis by (rule small_obs_mono) simp
qed

lemma probes_facts:
  assumes "pp_epoch p \<noteq> 0" and "pp_boot_a1 p \<noteq> pp_boot_a2 p"
  shows "list_all (ruled_out (hello_of (plan_cfg p (pp_source_a p) (pp_boot_a2 p) 2))) (a2_probes p)"
    and "list_all (small_obs 10) (a2_probes p)" and "length (a2_probes p) = 4"
    and "filter (\<lambda>ob. o_boot ob = pp_boot_a1 p) (a2_probes p) \<noteq> []"
proof -
  let ?src = "new_source SOBS_DISCONNECTED (plan_cfg p (pp_source_a p) (pp_boot_a2 p) 2) :: unit source"
  have cfg: "sr_cfg ?src = plan_cfg p (pp_source_a p) (pp_boot_a2 p) 2" by (simp add: new_source_def)
  have "small_obs 10 (set_field ''request_id'' (FvId r) (make_observation t ?src))" for r t
    by (rule small_probe) (simp add: cfg plan_clock)
  then show "list_all (small_obs 10) (a2_probes p)"
    unfolding a2_probes_def Let_def by (simp add: small_obs_def)
  show "list_all (ruled_out (hello_of (plan_cfg p (pp_source_a p) (pp_boot_a2 p) 2))) (a2_probes p)"
    using assms unfolding a2_probes_def Let_def
    by (simp add: ruled_out_def set_field_def make_observation_envelope hello_of_def new_source_def word_gt_0 plan_cfg_def)
  show "length (a2_probes p) = 4" "filter (\<lambda>ob. o_boot ob = pp_boot_a1 p) (a2_probes p) \<noteq> []"
    by (simp_all add: a2_probes_def Let_def)
qed

subsection \<open>What the coordinator decides\<close>

definition plan_ok :: "proof_plan \<Rightarrow> bool" where
  "plan_ok p \<longleftrightarrow> dir_ok (pp_dir p) \<and> pp_epoch p \<noteq> 0 \<and> pp_boot_a1 p \<noteq> pp_boot_a2 p \<and>
     key_of (pp_source_a p) (pp_source_a p) \<noteq> key_of (pp_source_b p) (pp_source_b p)"

text \<open>The derived ids differ: they are hashes, so that this is a condition on the plan.\<close>

definition plan_ids :: "proof_plan \<Rightarrow> bool" where
  "plan_ids p \<longleftrightarrow> distinct (map o_id (a1_observations p @ a2_observations p @ b_observations p)) \<and>
     set (map o_id (a2_probes p)) \<inter> set (map o_id (b_observations p)) = {}"

definition a1_hello :: "proof_plan \<Rightarrow> hello_payload" where
  "a1_hello p = hello_of (plan_cfg p (pp_source_a p) (pp_boot_a1 p) 1)"

definition a2_hello :: "proof_plan \<Rightarrow> hello_payload" where
  "a2_hello p = hello_of (plan_cfg p (pp_source_a p) (pp_boot_a2 p) 2)"

definition b_hello :: "proof_plan \<Rightarrow> hello_payload" where
  "b_hello p = hello_of (plan_cfg p (pp_source_b p) (pp_boot_b p) 1)"

definition a_events :: "proof_plan \<Rightarrow> coord_event list" where
  "a_events p = (EvHello (a1_hello p) # map EvObs (a1_observations p)) @
     EvHello (a2_hello p) # map EvObs (a2_probes p) @ map EvObs (a2_observations p)"

definition b_events :: "proof_plan \<Rightarrow> coord_event list" where
  "b_events p = EvHello (b_hello p) # map EvObs (b_observations p)"

definition a2_events :: "proof_plan \<Rightarrow> coord_event list" where
  "a2_events p = EvHello (a2_hello p) # map EvObs (a2_probes p @ a2_observations p)"

lemma event_keys:
  assumes "pp_epoch p \<noteq> 0" and "pp_boot_a1 p \<noteq> pp_boot_a2 p"
  shows "\<forall>e \<in> set (a_events p). event_key e = key_of (pp_source_a p) (pp_source_a p)"
    and "\<forall>e \<in> set (b_events p). event_key e = key_of (pp_source_b p) (pp_source_b p)"
proof -
  have "\<forall>ob \<in> set (a2_probes p). obs_key ob = key_of (pp_source_a p) (pp_source_a p)"
    using probes_facts(1) [OF assms] by (auto simp: list_all_iff ruled_out_def hello_of_def plan_cfg_def)
  then show "\<forall>e \<in> set (a_events p). event_key e = key_of (pp_source_a p) (pp_source_a p)"
    using script_envelope [of "plan_cfg p (pp_source_a p) (pp_boot_a1 p) 1"] script_envelope [of "plan_cfg p (pp_source_a p) (pp_boot_a2 p) 2"]
    by (auto simp: a_events_def a1_hello_def a2_hello_def hello_of_def a1_observations_def a2_observations_def
        plan_cfg_def list_all_iff)
  show "\<forall>e \<in> set (b_events p). event_key e = key_of (pp_source_b p) (pp_source_b p)"
    using script_envelope [of "plan_cfg p (pp_source_b p) (pp_boot_b p) 1"]
    by (auto simp: b_events_def b_hello_def hello_of_def b_observations_def plan_cfg_def list_all_iff)
qed

lemma filter_shuffled:
  assumes "zs \<in> shuffles xs ys" and "\<forall>x \<in> set xs. P x" and "\<forall>y \<in> set ys. \<not> P y"
  shows "filter P zs = xs"
proof -
  have "filter P zs \<in> shuffles (filter P xs) (filter P ys)"
    using assms(1) filter_shuffles [of P xs ys] by blast
  moreover have "filter P xs = xs" "filter P ys = []" using assms(2,3) by (simp_all add: filter_empty_conv)
  ultimately show ?thesis by simp
qed

lemma own_run:
  assumes "own_ids es"
  shows "filter (\<lambda>d. obs_key (fst d) = k) (decisions es c) = decisions (filter (\<lambda>e. event_key e = k) es) c"
  using key_run [OF assms refl same_taken_refl] by blast

lemma in_sent: "ob \<in> set (sent es) \<longleftrightarrow> EvObs ob \<in> set es"
  by (induction es rule: sent.induct) auto

lemma proof_decisions:
  assumes "plan_ok p" and "plan_ids p" and "es \<in> shuffles (a_events p) (b_events p)"
  shows "filter (\<lambda>d. obs_key (fst d) = key_of (pp_source_a p) (pp_source_a p)) (decisions es (set_epoch (pp_epoch p) new_coordinator)) =
      map (\<lambda>ob. (ob, True)) (a1_observations p) @ map (\<lambda>ob. (ob, False)) (a2_probes p) @
      map (\<lambda>ob. (ob, True)) (a2_observations p)"
    and "filter (\<lambda>d. obs_key (fst d) = key_of (pp_source_b p) (pp_source_b p)) (decisions es (set_epoch (pp_epoch p) new_coordinator)) =
      map (\<lambda>ob. (ob, True)) (b_observations p)"
proof -
  let ?ka = "key_of (pp_source_a p) (pp_source_a p)" and ?kb = "key_of (pp_source_b p) (pp_source_b p)"
  let ?c = "set_epoch (pp_epoch p) new_coordinator"
  note plan = assms(1) [unfolded plan_ok_def]
  have keys: "\<forall>e \<in> set (a_events p). event_key e = ?ka" "\<forall>e \<in> set (b_events p). event_key e = ?kb"
    using event_keys plan by blast+
  have swap: "es \<in> shuffles (b_events p) (a_events p)" using assms(3) by (subst shuffles_commutes)
  have es: "filter (\<lambda>e. event_key e = ?ka) es = a_events p" "filter (\<lambda>e. event_key e = ?kb) es = b_events p"
    using filter_shuffled [OF assms(3), of "\<lambda>e. event_key e = ?ka"] filter_shuffled [OF swap, of "\<lambda>e. event_key e = ?kb"] keys plan
    by auto
  have own: "own_ids es"
    unfolding own_ids_def
  proof (intro ballI impI)
    fix x y assume "x \<in> set (sent es)" "y \<in> set (sent es)" and eq: "o_id x = o_id y"
    then have ev: "EvObs x \<in> set (a_events p) \<union> set (b_events p)" "EvObs y \<in> set (a_events p) \<union> set (b_events p)"
      using set_shuffles [OF assms(3)] by (simp_all add: in_sent)
    have "o_id u \<noteq> o_id v" if "EvObs u \<in> set (a_events p)" "EvObs v \<in> set (b_events p)" for u v
      using that assms(2) by (force simp: a_events_def b_events_def plan_ids_def)
    then have "EvObs x \<in> set (a_events p) \<longleftrightarrow> EvObs y \<in> set (a_events p)" using ev eq by (metis Un_iff)
    then show "obs_key x = obs_key y" using ev keys by (metis Un_iff event_key.simps(2))
  qed
  have boots: "pp_boot_a2 p \<noteq> pp_boot_a1 p" using plan by auto
  have empty: "c_registry ?c = []" "c_accepted ?c = []" by (simp_all add: set_epoch_def new_coordinator_def)
  have ids: "distinct (map o_id (a1_observations p @ a2_observations p))" "distinct (map o_id (b_observations p))"
    using assms(2) by (auto simp: plan_ids_def)
  have "decisions (a_events p) ?c = map (\<lambda>ob. (ob, True)) (a1_observations p) @ map (\<lambda>ob. (ob, False)) (a2_probes p) @
      map (\<lambda>ob. (ob, True)) (a2_observations p)"
    unfolding a_events_def a1_hello_def a2_hello_def
    using boots plan ids(1) probes_facts(1) proof_sessions_ok empty
    by (intro two_generations) (simp_all add: new_generation_def fresh_run_def hello_of_def plan_cfg_def)
  then show "filter (\<lambda>d. obs_key (fst d) = ?ka) (decisions es ?c) = map (\<lambda>ob. (ob, True)) (a1_observations p) @
      map (\<lambda>ob. (ob, False)) (a2_probes p) @ map (\<lambda>ob. (ob, True)) (a2_observations p)"
    using own_run [OF own, of ?ka ?c] es by simp
  have "decisions (b_events p) ?c = map (\<lambda>ob. (ob, True)) (b_observations p)"
    unfolding b_events_def b_hello_def
    using ids(2) proof_sessions_ok empty
    by (intro session_accepted) (simp_all add: new_generation_def fresh_run_def)
  then show "filter (\<lambda>d. obs_key (fst d) = ?kb) (decisions es ?c) = map (\<lambda>ob. (ob, True)) (b_observations p)"
    using own_run [OF own, of ?kb ?c] es by simp
qed

subsection \<open>What the archive then holds\<close>

lemma proof_evidence:
  assumes "plan_ok p" and "plan_ids p" and "es \<in> shuffles (a_events p) (b_events p)"
  shows "mset (all_accepted (run_events es (set_epoch (pp_epoch p) new_coordinator))) =
      mset (a1_observations p @ a2_observations p @ b_observations p)"
    and "map fst (c_stale (run_events es (set_epoch (pp_epoch p) new_coordinator))) = a2_probes p"
proof -
  let ?ka = "key_of (pp_source_a p) (pp_source_a p)" and ?kb = "key_of (pp_source_b p) (pp_source_b p)"
  let ?c = "set_epoch (pp_epoch p) new_coordinator"
  define ds where "ds = decisions es ?c"
  note plan = assms(1) [unfolded plan_ok_def]
  note dec = proof_decisions [OF assms, folded ds_def]
  have keys: "obs_key (fst d) = ?ka \<or> obs_key (fst d) = ?kb" if "d \<in> set ds" for d
  proof -
    have "fst d \<in> set (sent es)" using that decisions_sent [of es ?c] unfolding ds_def by (metis imageI set_map)
    then have "EvObs (fst d) \<in> set (a_events p) \<union> set (b_events p)"
      using set_shuffles [OF assms(3)] by (simp add: in_sent)
    then show ?thesis using event_keys [of p] plan by (metis Un_iff event_key.simps(2))
  qed
  have split: "mset ds = mset (filter (\<lambda>d. obs_key (fst d) = ?ka) ds) + mset (filter (\<lambda>d. obs_key (fst d) = ?kb) ds)"
    using keys plan by (induction ds) auto
  have "mset (map fst (filter snd ds)) = mset (a1_observations p @ a2_observations p @ b_observations p)"
    using arg_cong [OF split, of "\<lambda>m. image_mset fst (filter_mset snd m)"] unfolding dec
    by (simp add: filter_mset_image_mset comp_def multiset.map_comp)
  moreover have "all_accepted ?c = []" "c_stale ?c = []" by (simp_all add: all_accepted_def set_epoch_def new_coordinator_def)
  ultimately show "mset (all_accepted (run_events es ?c)) = mset (a1_observations p @ a2_observations p @ b_observations p)"
    using run_accepted(1) [of es ?c] by (simp add: ds_def)
  have "filter (\<lambda>d. \<not> snd d) ds = filter (\<lambda>d. \<not> snd d) (filter (\<lambda>d. obs_key (fst d) = ?ka) ds)"
  proof -
    have "obs_key (fst d) = ?ka" if "d \<in> set ds" "\<not> snd d" for d
    proof (rule ccontr)
      assume "obs_key (fst d) \<noteq> ?ka"
      then have "d \<in> set (filter (\<lambda>d. obs_key (fst d) = ?kb) ds)" using keys [OF that(1)] that(1) by simp
      then show False using that(2) unfolding dec by auto
    qed
    then show ?thesis by (induction ds) auto
  qed
  then have "map fst (filter (\<lambda>d. \<not> snd d) ds) = a2_probes p" unfolding dec by (simp add: filter_map comp_def)
  then show "map fst (c_stale (run_events es ?c)) = a2_probes p"
    using run_accepted(2) [of es ?c] \<open>c_stale ?c = []\<close> by (auto simp: ds_def)
qed

text \<open>The run leaves evidence of ordinary size.\<close>

lemma proof_saves:
  assumes "plan_ok p" and "plan_ids p" and "es \<in> shuffles (a_events p) (b_events p)" and "st path = WRITTEN"
  shows "\<exists>v d'. save_archive st d (run_events es (set_epoch (pp_epoch p) new_coordinator)) path = (Ok (Ok v), d') \<and>
    load_archive d' path True = Ok (Ok v) \<and>
    mset (ar_accepted v) = mset (a1_observations p @ a2_observations p @ b_observations p) \<and>
    map fst (ar_stale v) = a2_probes p"
proof -
  let ?c = "run_events es (set_epoch (pp_epoch p) new_coordinator)"
  note ev = proof_evidence [OF assms(1-3)]
  note plan = assms(1) [unfolded plan_ok_def]
  have acc: "set (all_accepted ?c) = set (a1_observations p @ a2_observations p @ b_observations p)"
    "length (all_accepted ?c) = 31"
    using mset_eq_setD [OF ev(1)] mset_eq_length [OF ev(1)] proof_lengths [of p] by simp_all
  then have small: "\<forall>ob \<in> set (all_accepted ?c). small_obs 10 ob"
    using proof_observations(4-6) [of p] by (auto simp: list_all_iff)
  have "list_all (small_obs 10) (map fst (c_stale ?c))" "length (map fst (c_stale ?c)) = 4"
    unfolding ev(2) using probes_facts(2,3) [of p] plan by blast+
  then have stale: "\<forall>e \<in> set (c_stale ?c). small_obs 10 (fst e)" "length (c_stale ?c) = 4"
    by (simp_all add: list_all_iff)
  have "length es = 38"
    using length_shuffles [OF assms(3)] proof_lengths [of p] probes_facts(3) [of p] plan
    by (simp add: a_events_def b_events_def)
  then have reg: "length (c_registry ?c) \<le> 38"
    using length_registry_run [of es "set_epoch (pp_epoch p) new_coordinator"] by (simp add: set_epoch_def new_coordinator_def)
  have "reachable (set_epoch (pp_epoch p) new_coordinator)"
    by (rule reachable.step [OF reachable.start live_step.epoch])
  then have "reachable ?c" by (rule reachable_run)
  then obtain ar d' where "save_archive st d ?c path = (Ok (Ok ar), d')" "load_archive d' path True = Ok (Ok ar)"
      "ar_accepted ar = all_accepted ?c" "ar_stale ar = c_stale ?c"
    using small_saves [where c = ?c and st = st and d = d and path = path] small stale reg acc(2) assms(4)
    by (auto simp: list_all_iff)
  then show ?thesis using ev by (intro exI [of _ ar] exI [of _ d']) simp
qed

lemma boots_of_request:
  assumes "map o_request_id obs = rs" and "\<forall>ob \<in> set obs. o_boot ob = b"
  shows "o_boot ` set (filter (\<lambda>ob. o_request_id ob = r) obs) = (if r \<in> set rs then {b} else {})"
proof (cases "r \<in> set rs")
  case True
  then obtain ob where "ob \<in> set obs" "o_request_id ob = r" unfolding assms(1) [symmetric] by auto
  then show ?thesis using True assms(2) by force
next
  case False
  then have "filter (\<lambda>ob. o_request_id ob = r) obs = []"
    unfolding assms(1) [symmetric] by (auto simp: filter_empty_conv)
  then show ?thesis using False by simp
qed

lemma proof_boots:
  assumes "mset obs = mset (a1_observations p @ a2_observations p @ b_observations p)"
  shows "o_boot ` set (filter (\<lambda>ob. o_request_id ob = parse_id req_r2) obs) = {pp_boot_a1 p, pp_boot_a2 p}"
    and "o_boot ` set (filter (\<lambda>ob. o_request_id ob = parse_id req_r4) obs) = {pp_boot_a2 p}"
proof -
  have "set obs = set (a1_observations p @ a2_observations p @ b_observations p)" by (rule mset_eq_setD [OF assms])
  then have u: "o_boot ` set (filter (\<lambda>ob. o_request_id ob = r) obs) =
      o_boot ` set (filter (\<lambda>ob. o_request_id ob = r) (a1_observations p)) \<union>
      o_boot ` set (filter (\<lambda>ob. o_request_id ob = r) (a2_observations p)) \<union>
      o_boot ` set (filter (\<lambda>ob. o_request_id ob = r) (b_observations p))" for r
    by auto
  have boots: "\<forall>ob \<in> set (a1_observations p). o_boot ob = pp_boot_a1 p" "\<forall>ob \<in> set (a2_observations p). o_boot ob = pp_boot_a2 p"
    "\<forall>ob \<in> set (b_observations p). o_boot ob = pp_boot_b p"
    using script_envelope [of "plan_cfg p (pp_source_a p) (pp_boot_a1 p) 1"] script_envelope [of "plan_cfg p (pp_source_a p) (pp_boot_a2 p) 2"]
      script_envelope [of "plan_cfg p (pp_source_b p) (pp_boot_b p) 1"]
    by (auto simp: a1_observations_def a2_observations_def b_observations_def plan_cfg_def list_all_iff)
  note one = boots_of_request [OF proof_observations(1) boots(1)] boots_of_request [OF proof_observations(3) boots(2)]
    boots_of_request [OF proof_observations(2) boots(3)]
  show "o_boot ` set (filter (\<lambda>ob. o_request_id ob = parse_id req_r2) obs) = {pp_boot_a1 p, pp_boot_a2 p}"
    "o_boot ` set (filter (\<lambda>ob. o_request_id ob = parse_id req_r4) obs) = {pp_boot_a2 p}"
    unfolding u one using request_ids(1) by auto
qed

lemma small_count: "0 < n \<Longrightarrow> n \<le> 4 \<Longrightarrow> 0 < (of_nat n :: u64)"
proof -
  assume "0 < n" "n \<le> 4"
  then have "n = 1 \<or> n = 2 \<or> n = 3 \<or> n = 4" by arith
  then show ?thesis by (elim disjE) simp_all
qed

lemma stale_boot_counted:
  assumes "map fst (ar_stale v) = a2_probes p" and "pp_epoch p \<noteq> 0" and "pp_boot_a1 p \<noteq> pp_boot_a2 p"
  shows "0 < stale_of_boot (pp_boot_a1 p) v"
proof -
  let ?n = "length (filter (\<lambda>e. o_boot (fst e) = pp_boot_a1 p) (ar_stale v))"
  have "filter (\<lambda>ob. o_boot ob = pp_boot_a1 p) (map fst (ar_stale v)) \<noteq> []"
    unfolding assms(1) using probes_facts(4) assms(2,3) .
  then have "0 < ?n" by (simp add: filter_map comp_def)
  moreover have "length (ar_stale v) = 4" using probes_facts(3) [OF assms(2,3)] assms(1) by (metis length_map)
  then have "?n \<le> 4" using length_filter_le [of _ "ar_stale v"] by metis
  ultimately show ?thesis unfolding stale_of_boot_def by (rule small_count)
qed

text \<open>
  The run: the first generation of A among operations of B, then the second with more of them before
  each frame, then the rest of B.
\<close>

lemma shuffles_append: "xs \<in> shuffles as bs \<Longrightarrow> ys \<in> shuffles cs ds \<Longrightarrow> xs @ ys \<in> shuffles (as @ cs) (bs @ ds)"
proof (induction xs arbitrary: as bs)
  case (Cons x xs)
  consider as' where "as = x # as'" "xs \<in> shuffles as' bs" | bs' where "bs = x # bs'" "xs \<in> shuffles as bs'"
    using Cons.prems(1) by (auto simp: Cons_in_shuffles_iff neq_Nil_conv)
  then show ?case
    using Cons.IH [OF _ Cons.prems(2)] by cases (auto intro: Cons_in_shuffles_leftI Cons_in_shuffles_rightI)
qed simp

lemma proof_run_shuffle:
  assumes "es \<in> shuffles (EvHello (a1_hello p) # map EvObs (a1_observations p)) b1" and "b_events p = b1 @ concat gaps @ b2"
    and "length gaps \<le> length (a2_events p)"
  shows "es @ weave (a2_events p) gaps @ b2 \<in> shuffles (a_events p) (b_events p)"
proof -
  have "a_events p = (EvHello (a1_hello p) # map EvObs (a1_observations p)) @ a2_events p @ []"
    by (simp add: a_events_def a2_events_def)
  then show ?thesis
    unfolding assms(2) by (simp only:) (intro shuffles_append assms(1) weave_shuffles assms(3); simp)
qed

lemma decisions_own: "map fst (filter (\<lambda>d. obs_key (fst d) = k) (decisions es c)) = sent (filter (\<lambda>e. event_key e = k) es)"
  by (induction es c rule: decisions.induct) simp_all

text \<open>What the coordinator then decides on the probes, and the lines \<open>run_probes\<close> prints for it.\<close>

lemma probes_rejected:
  assumes "plan_ok p" and "plan_ids p" and "b_events p = b1 @ concat gaps @ b2" and "length gaps \<le> length (a2_events p)"
    and "es \<in> shuffles (EvHello (a1_hello p) # map EvObs (a1_observations p)) b1"
  shows "take 4 (woven_flags (a2_events p) gaps (run_events es (set_epoch (pp_epoch p) new_coordinator))) =
    [False, False, False, False]"
proof -
  let ?ka = "key_of (pp_source_a p) (pp_source_a p)" and ?c = "set_epoch (pp_epoch p) new_coordinator"
  let ?own = "\<lambda>es c. filter (\<lambda>d. obs_key (fst d) = ?ka) (decisions es c)"
  let ?y = "?own (weave (a2_events p) gaps) (run_events es ?c)"
  note plan = assms(1) [unfolded plan_ok_def]
  have keys: "\<forall>e \<in> set (a_events p). event_key e = ?ka" "\<forall>e \<in> set (b_events p). event_key e \<noteq> ?ka"
    using event_keys [of p] plan by auto
  have a1: "\<forall>e \<in> set (EvHello (a1_hello p) # map EvObs (a1_observations p)). event_key e = ?ka"
    "\<forall>e \<in> set b1. event_key e \<noteq> ?ka"
    using keys by (auto simp: a_events_def assms(3))
  have "filter (\<lambda>e. event_key e = ?ka) es = EvHello (a1_hello p) # map EvObs (a1_observations p)"
    using filter_shuffled [OF assms(5), of "\<lambda>e. event_key e = ?ka"] a1 by blast
  then have "map fst (?own es ?c) = a1_observations p" by (simp add: decisions_own)
  from arg_cong [OF this, of length] have eleven: "length (?own es ?c) = 11" by (simp only: length_map proof_lengths(1))
  have "?own es ?c @ ?y @ ?own b2 (run_events (weave (a2_events p) gaps) (run_events es ?c)) =
      map (\<lambda>ob. (ob, True)) (a1_observations p) @ map (\<lambda>ob. (ob, False)) (a2_probes p) @
      map (\<lambda>ob. (ob, True)) (a2_observations p)"
    using proof_decisions(1) [OF assms(1,2) proof_run_shuffle [OF assms(5,3,4)]] by (simp add: decisions_append)
  from arg_cong [OF this, of "drop 11"]
  have tail: "?y @ ?own b2 (run_events (weave (a2_events p) gaps) (run_events es ?c)) =
      map (\<lambda>ob. (ob, False)) (a2_probes p) @ map (\<lambda>ob. (ob, True)) (a2_observations p)"
    using eleven proof_lengths(1) [of p] by simp
  have "\<forall>e \<in> set (a2_events p). event_key e = ?ka" using keys(1) by (auto simp: a_events_def a2_events_def)
  moreover have "\<forall>g \<in> set gaps. \<forall>e \<in> set g. event_key e \<noteq> ?ka" using keys(2) unfolding assms(3) by auto
  ultimately have flags: "map snd ?y = woven_flags (a2_events p) gaps (run_events es ?c)" by (rule woven_decisions)
  have four: "length (a2_probes p) = 4" using probes_facts(3) [of p] plan by blast
  have "length ?y = length (sent (a2_events p))" using arg_cong [OF flags, of length] by (simp add: length_woven_flags)
  then have "4 \<le> length ?y" using four by (simp add: a2_events_def)
  then have "take 4 ?y = map (\<lambda>ob. (ob, False)) (a2_probes p)"
    using arg_cong [OF tail, of "take 4"] four by simp
  then have "take 4 (map snd ?y) = map (\<lambda>ob. False) (a2_probes p)" by (simp add: take_map comp_def)
  then show ?thesis using four unfolding flags by (simp add: map_replicate_const numeral_eq_Suc)
qed

lemma rejected_acks:
  assumes "map k_accepted acks = [False, False, False, False]"
  shows "concat (map2 (\<lambda>w k. probe_line w (Ok k)) probe_kinds acks) = rejected_lines probe_kinds"
proof -
  obtain k1 k2 k3 k4 where "acks = [k1, k2, k3, k4]" "\<not> k_accepted k1" "\<not> k_accepted k2"
      "\<not> k_accepted k3" "\<not> k_accepted k4"
    using assms by (auto simp: map_eq_Cons_conv)
  then show ?thesis by (simp add: probe_kinds_def probe_line_def rejected_lines_def)
qed

text \<open>The second generation's command, run among the rest of B's operations.\<close>

definition dial_local :: "u16 \<Rightarrow> 's \<Rightarrow> string \<Rightarrow> u16 \<Rightarrow> 's result" where
  "dial_local port s host q = (if host = ''127.0.0.1'' \<and> q = port then Ok s else Err ''connect failed'')"

lemma hello_sendable: "event_sendable (EvHello (hello_of (plan_cfg p src boot g)))"
proof -
  let ?h = "hello_of (plan_cfg p src boot g)"
  have ok: "hello_ok ?h" by (simp add: hello_ok_def hello_of_def plan_cfg_def fits32_def)
  obtain q where q: "encode_hello ?h = Ok q" using hello.encode_ok [OF ok] by blast
  have "length q \<le> max_frame_payload"
    using q by (auto simp: encode_hello_def write_hello_def wseq_def put_def write_id_def write_u64_def
        write_str_def write_len_def write_u32_def to_bytes_eq hello_of_def plan_cfg_def max_frame_payload_def)
  then show ?thesis using ok q by simp
qed

lemma a2_sendable:
  assumes "pp_epoch p \<noteq> 0" and "pp_boot_a1 p \<noteq> pp_boot_a2 p"
  shows "list_all event_sendable (a2_events p)"
proof -
  have "sendable ob" if "small_obs 10 ob" for ob using small_fits(1) [OF that] by simp
  then show ?thesis
    using probes_facts(2) [OF assms] proof_observations(6) [of p] hello_sendable
    by (simp add: a2_events_def a2_hello_def list_all_iff ball_Un del: event_sendable.simps(1))
qed

lemma a2_command:
  assumes "plan_ok p"
  shows "\<exists>aa acks rest src. child_args (a2_args p) = Ok aa \<and>
    cmd_source junk (script_files p files) ind (dial_local (pp_port p) (c, [], gaps)) shared_send shared_recv aa =
      (Ok (prints 0 (concat (map2 (\<lambda>w k. probe_line w (Ok k)) probe_kinds acks) @ rest)), disconnect shared_send src) \<and>
    map k_accepted acks = take 4 (woven_flags (a2_events p) gaps c) \<and>
    sr_stream src = Some (run_events (weave (a2_events p) gaps) c, [], drop (length (a2_events p)) gaps)"
proof -
  note plan = assms [unfolded plan_ok_def]
  obtain aa where aa: "child_args (a2_args p) = Ok aa" "source_cfg aa = plan_cfg p (pp_source_a p) (pp_boot_a2 p) 2"
      "opt aa ''script'' [] = pp_dir p @ ''/a2.jsonl''" "given_probes aa probe_kinds = probe_kinds" "\<not> flag aa ''fire''"
      "opt aa ''host'' ''127.0.0.1'' = ''127.0.0.1''" "ucast (opt_u64 aa ''port'' 0) = pp_port p"
      "opt_u64 aa ''stale-epoch'' 0 = 0" "parse_id (opt aa ''stale-boot'' []) = pp_boot_a1 p"
      "opt_u64 aa ''stale-srcgen'' 0 = 1" "opt_u64 aa ''stale-obsgen'' 0 = 1"
      "opt aa ''stale-request'' ''000000000000000000000000000000aa'' = req_r1"
    using child_a2 [of p] plan by blast
  have ev: "session_events aa (map read_entry entries_a2) = a2_events p"
    unfolding a2_events_def a2_hello_def by (rule a2_session [OF aa(2,4,8-12)])
  have dial: "dial_local (pp_port p) (c, [], gaps) (opt aa ''host'' ''127.0.0.1'') (ucast (opt_u64 aa ''port'' 0)) = Ok (c, [], gaps)"
    by (simp add: aa(6,7) dial_local_def)
  have script: "parse_script junk (script_files p files) (opt aa ''script'' []) = Ok (map read_entry entries_a2)"
    "opt aa ''script'' [] \<noteq> []"
    unfolding aa(3) using script_reads(3) by simp_all
  have send: "list_all event_sendable (session_events aa (map read_entry entries_a2))"
    unfolding ev using a2_sendable plan by blast
  have pend: "fst (snd (c, [] :: bytes, gaps)) = []" by simp
  obtain acks rest src s' where run: "cmd_source junk (script_files p files) ind (dial_local (pp_port p) (c, [], gaps)) shared_send shared_recv aa =
      (Ok (prints 0 (concat (map2 (\<lambda>w k. probe_line w (Ok k)) probe_kinds acks) @ rest)), disconnect shared_send src)"
      "map k_accepted acks = take (length probe_kinds) (woven_flags (a2_events p) gaps c)"
      "sr_stream src = Some s'" "fst s' = run_events (weave (a2_events p) gaps) c"
      "snd (snd s') = drop (length (a2_events p)) gaps" "fst (snd s') = []"
    using shared.cmd_source_served [where s = "(c, [], gaps)" and a = aa and es = "map read_entry entries_a2"
        and junk = junk and files = "script_files p files" and ind = ind
        and dial = "dial_local (pp_port p) (c, [], gaps)", OF dial pend script(2,1) aa(5) send, unfolded ev aa(4)]
    unfolding fst_conv snd_conv by (elim exE conjE) (rule that)
  then have "s' = (run_events (weave (a2_events p) gaps) c, [], drop (length (a2_events p)) gaps)" by (cases s') auto
  moreover have "length probe_kinds = 4" by (simp add: probe_kinds_def)
  ultimately show ?thesis using aa(1) run(1-3)
    by (intro exI [of _ aa] exI [of _ acks] exI [of _ rest] exI [of _ src]) simp
qed

lemma proof_traces:
  assumes "mset (ar_accepted v) = mset (a1_observations p @ a2_observations p @ b_observations p)"
    and "replay (ar_accepted v) = Ok rp" and "pp_boot_a1 p \<noteq> pp_boot_a2 p"
  shows "\<exists>t2 t4. find_trace v (parse_id req_r2) = Ok (Some t2) \<and> find_trace v (parse_id req_r4) = Ok (Some t4) \<and>
    spans_sources (Some t2) \<and> fresh_boot_only (pp_boot_a2 p) (Some t4)"
proof -
  note boots = proof_boots [OF assms(1)]
  define t2 t4 where "t2 = reconstruct_trace (filter (\<lambda>ob. o_request_id ob = parse_id req_r2) (ar_accepted v)) (parse_id req_r2)"
    and "t4 = reconstruct_trace (filter (\<lambda>ob. o_request_id ob = parse_id req_r4) (ar_accepted v)) (parse_id req_r4)"
  have "filter (\<lambda>ob. o_request_id ob = parse_id req_r2) (ar_accepted v) \<noteq> []"
    "filter (\<lambda>ob. o_request_id ob = parse_id req_r4) (ar_accepted v) \<noteq> []"
    using boots by (metis empty_set image_empty insert_not_empty)+
  then have tr: "find_trace v (parse_id req_r2) = Ok (Some t2)" "find_trace v (parse_id req_r4) = Ok (Some t4)"
    using find_trace_evidence [OF assms(2)] request_ids(2,3) by (simp_all add: t2_def t4_def)
  have set: "set (tr_boots t2) = {pp_boot_a1 p, pp_boot_a2 p}" "distinct (tr_boots t2)"
    "set (tr_boots t4) = {pp_boot_a2 p}" "distinct (tr_boots t4)"
    using boots by (simp_all add: t2_def t4_def reconstruct_summary)
  then have "length (tr_boots t2) = 2" "length (tr_boots t4) = 1"
    using assms(3) distinct_card [of "tr_boots t2"] distinct_card [of "tr_boots t4"] by auto
  moreover from this set(3) have "tr_boots t4 ! 0 = pp_boot_a2 p" by (metis less_one nth_mem singletonD)
  ultimately show ?thesis using tr by (simp add: spans_sources_def fresh_boot_only_def)
qed

text \<open>The disk outside the archive's file does not matter to loading it.\<close>

lemma load_archive_same: "d path = d' path \<Longrightarrow> load_archive d path verify = load_archive d' path verify"
  by (simp add: load_archive_def file_read_all_def)

lemma write_text_other [simp]: "path \<noteq> other \<Longrightarrow> write_text st d other s path = d path"
  by (simp add: write_text_def split: write_outcome.split)

text \<open>The end of the coordinator's process.\<close>

lemma coord_saves:
  assumes "dir_ok (pp_dir p)" and "save_archive st d c (pp_dir p @ ''/coord.sobs'') = (Ok (Ok v), d1)"
  shows "\<exists>ca sr d2. child_args (coord_args p) = Ok ca \<and> opt_u64 ca ''epoch'' 1 = pp_epoch p \<and>
    serve_finish st d ca (pp_port p) c = (Ok sr, d2) \<and> cm_code sr = 0 \<and>
    d2 (pp_dir p @ ''/coord.sobs'') = d1 (pp_dir p @ ''/coord.sobs'')"
proof (rule coord_child [OF assms(1)])
  fix ca
  assume ca: "child_args (coord_args p) = Ok ca" "opt_u64 ca ''epoch'' 1 = pp_epoch p"
    "opt ca ''out'' ''coord.sobs'' = pp_dir p @ ''/coord.sobs''" "opt ca ''manifest'' [] = pp_dir p @ ''/manifest.json''"
  then show ?thesis
    using assms(2) by (simp add: serve_finish_def Let_def prints_def)
qed

text \<open>The report on the archive.\<close>

lemma plan_boots_differ: "plan_ok p \<Longrightarrow> pp_epoch p \<noteq> 0 \<and> pp_boot_a1 p \<noteq> pp_boot_a2 p"
  by (simp add: plan_ok_def)

lemma proof_verdict:
  assumes "load_archive d1 (pp_dir (plan_of a) @ ''/coord.sobs'') True = Ok (Ok v)"
    and "mset (ar_accepted v) = mset (a1_observations (plan_of a) @ a2_observations (plan_of a) @ b_observations (plan_of a))"
    and "map fst (ar_stale v) = a2_probes (plan_of a)"
    and "d' (pp_dir (plan_of a) @ ''/coord.sobs'') = d1 (pp_dir (plan_of a) @ ''/coord.sobs'')"
    and "pp_epoch (plan_of a) \<noteq> 0 \<and> pp_boot_a1 (plan_of a) \<noteq> pp_boot_a2 (plan_of a)" and "stale_rejected seen = 4"
  shows "\<exists>r. proof_finish d' a seen = Ok r \<and> cm_code r = 0"
proof -
  let ?p = "plan_of a" and ?path = "pp_dir (plan_of a) @ ''/coord.sobs''"
  have load: "load_archive d' ?path True = Ok (Ok v)" using assms(1) load_archive_same [of d' ?path d1] assms(4) by simp
  obtain t2 t4 where t: "find_trace v (parse_id req_r2) = Ok (Some t2)" "find_trace v (parse_id req_r4) = Ok (Some t4)"
      "spans_sources (Some t2)" "fresh_boot_only (pp_boot_a2 ?p) (Some t4)"
    using proof_traces [OF assms(2)] load_verified(2) [OF assms(1)] assms(5) by blast
  have "proof_passed ?p seen v (Some t2) (Some t4)"
    using load_verified(1) [OF assms(1)] assms(6) stale_boot_counted [OF assms(3)] assms(5) t(3,4)
    by (simp add: proof_passed_def)
  then show ?thesis using load t(1,2) by (simp add: proof_finish_def proof_report_def prints_def Let_def)
qed


text \<open>The plan the command makes when it is given no options.\<close>

lemma append_shuffles: "xs @ ys \<in> shuffles xs ys"
  by (induction xs) (auto simp: Cons_in_shuffles_leftI)

lemma script_ids:
  "list_all (\<lambda>e. se_kind e = EK_OBS) es \<Longrightarrow> map o_id (script_observations (plan_cfg p src boot g) s (map read_entry es)) =
     map (derive 0x4F4253) (id_inputs src src boot s (map se_type es))"
proof (induction es arbitrary: s)
  case (Cons e es)
  have "o_id (entry_observation (plan_cfg p src boot g) k e') = derive_observation_id src src boot k (se_type e')" for k e'
    by (simp add: entry_observation_def Let_def fold_script_envelope plan_cfg_def)
  then show ?case using Cons by (simp add: read_entry_def derive_observation_id_def)
qed simp

definition default_plan :: proof_plan where
  "default_plan =
     \<lparr>pp_dir = ''proof_run'', pp_epoch = 1, pp_source_a = Id128 0xaa00000000000000 1, pp_source_b = Id128 0xbb00000000000000 2,
      pp_boot_a1 = Id128 0xaaa1000000000000 1, pp_boot_a2 = Id128 0xaaa2000000000000 2,
      pp_boot_b = Id128 0xbbb0000000000000 3, pp_port = 43822\<rparr>"

lemma plan_no_args: "plan_of no_args = default_plan"
proof -
  have "parse_id ''aa000000000000000000000000000001'' = Id128 0xaa00000000000000 1"
    "parse_id ''bb000000000000000000000000000002'' = Id128 0xbb00000000000000 2"
    "parse_id ''aaa10000000000000000000000000001'' = Id128 0xaaa1000000000000 1"
    "parse_id ''aaa20000000000000000000000000002'' = Id128 0xaaa2000000000000 2"
    "parse_id ''bbb00000000000000000000000000003'' = Id128 0xbbb0000000000000 3" by code_simp+
  then show ?thesis by (simp add: plan_of_def default_plan_def opt_def opt_u64_def no_args_def)
qed

definition default_inputs :: "bytes list" where
  "default_inputs =
     id_inputs (Id128 0xaa00000000000000 1) (Id128 0xaa00000000000000 1) (Id128 0xaaa1000000000000 1) 0 (map se_type entries_a1) @
     id_inputs (Id128 0xaa00000000000000 1) (Id128 0xaa00000000000000 1) (Id128 0xaaa2000000000000 2) 0 (map se_type entries_a2) @
     id_inputs (Id128 0xbb00000000000000 2) (Id128 0xbb00000000000000 2) (Id128 0xbbb0000000000000 3) 0 (map se_type entries_b) @
     id_inputs (Id128 0xaa00000000000000 1) (Id128 0xaa00000000000000 1) (Id128 0xaaa2000000000000 2) 0 [OT_REQUEST]"

lemma default_ids: "distinct (map (derive 0x4F4253) default_inputs)"
proof -
  have "distinct (map (low_hash 0x4F4253) default_inputs)" by code_simp
  then show ?thesis by (rule low_hashes_differ)
qed

lemma default_plan_ok: "plan_ok default_plan" "plan_ids default_plan"
proof -
  have "key_of (Id128 0xaa00000000000000 1) (Id128 0xaa00000000000000 1) \<noteq> key_of (Id128 0xbb00000000000000 2) (Id128 0xbb00000000000000 2)"
    by code_simp
  then show "plan_ok default_plan"
    by (simp add: plan_ok_def default_plan_def dir_ok_def splits_args_def is_option_def)
  have "list_all (\<lambda>e. se_kind e = EK_OBS) es" if "list_all2 names rs es" for rs es
    using that by (induction rule: list_all2_induct) (simp_all add: names_def)
  note ids = this [OF entries_name(1), THEN script_ids] this [OF entries_name(2), THEN script_ids] this [OF entries_name(3), THEN script_ids]
  have "o_id ob \<in> set (map (derive 0x4F4253) (id_inputs (Id128 0xaa00000000000000 1) (Id128 0xaa00000000000000 1) (Id128 0xaaa2000000000000 2) 0 [OT_REQUEST]))"
    if "ob \<in> set (a2_probes default_plan)" for ob
    using that by (auto simp: a2_probes_def Let_def set_field_def make_observation_def new_source_def plan_cfg_def default_plan_def
        derive_observation_id_def)
  then show "plan_ids default_plan"
    using default_ids unfolding plan_ids_def a1_observations_def a2_observations_def b_observations_def map_append ids default_inputs_def
    by (force simp: default_plan_def)
qed


end
